(* ===== verification/Prelude.thy ===== *)
theory Prelude
  imports Main "HOL-Library.Word" "HOL-Library.List_Lexorder" "HOL-Library.Char_ord"
begin

text \<open>
  The vocabulary every component shares: bytes, the question-mark operator of the source
  over a state-passing computation, the lemmas that carry invariants through it, and the
  facts about tables (lists of rows with a key) that the SQL statements need.

  \<open>preserve\<close> collects the facts that an operation keeps an invariant, \<open>store_simps\<close> the
  rewriting facts about the three database tables.
\<close>

named_theorems preserve \<open>operations that keep the database invariant\<close>
named_theorems store_simps \<open>equations about the tables of the database\<close>

type_synonym bytes = "8 word list"

section \<open>Early return over a threaded state\<close>

text \<open>
  \<open>let a = op()?; rest\<close>: an error ends the computation in the state the operation left,
  a value goes on.
\<close>

definition bindE :: "('e + 'a) \<times> 's \<Rightarrow> ('a \<Rightarrow> 's \<Rightarrow> ('e + 'b) \<times> 's) \<Rightarrow> ('e + 'b) \<times> 's" where
  "bindE r k = (case r of (Inl e, s) \<Rightarrow> (Inl e, s) | (Inr a, s) \<Rightarrow> k a s)"

text \<open>\<open>op().map_err(f)\<close>.\<close>

definition map_err :: "('e \<Rightarrow> 'f) \<Rightarrow> 'e + 'a \<Rightarrow> 'f + 'a" where
  "map_err f r = (case r of Inl e \<Rightarrow> Inl (f e) | Inr a \<Rightarrow> Inr a)"

text \<open>\<open>opt.ok_or_else(|| e)\<close>.\<close>

definition ok_or :: "'e \<Rightarrow> 'a option \<Rightarrow> 'e + 'a" where
  "ok_or e m = (case m of None \<Rightarrow> Inl e | Some a \<Rightarrow> Inr a)"

definition is_err :: "'e + 'a \<Rightarrow> bool" where
  "is_err r = (case r of Inl _ \<Rightarrow> True | Inr _ \<Rightarrow> False)"

lemma bindE_Inl [simp]: "bindE (Inl e, s) k = (Inl e, s)"
  by (simp add: bindE_def)

lemma bindE_Inr [simp]: "bindE (Inr a, s) k = k a s"
  by (simp add: bindE_def)

lemma bindE_InrD:
  "bindE r k = (Inr b, s') \<Longrightarrow> \<exists>a s. r = (Inr a, s) \<and> k a s = (Inr b, s')"
  by (auto simp: bindE_def split: prod.splits sum.splits)

lemma bindE_cases:
  assumes "bindE r k = (x, s')"
  obtains (err) e where "r = (Inl e, s')" "x = Inl e"
    | (ok) a s where "r = (Inr a, s)" "k a s = (x, s')"
  using assms by (auto simp: bindE_def split: prod.splits sum.splits)

lemma snd_bindE_keeps [intro?]:
  assumes "P (snd r)" and "\<And>a. fst r = Inr a \<Longrightarrow> P (snd (k a (snd r)))"
  shows "P (snd (bindE r k))"
  using assms by (auto simp: bindE_def split: prod.splits sum.splits)

lemma fst_bindE_Inr:
  "fst (bindE r k) = Inr b \<longleftrightarrow> (\<exists>a. fst r = Inr a \<and> fst (k a (snd r)) = Inr b)"
  by (auto simp: bindE_def split: prod.splits sum.splits)

lemma map_err_simps [simp]:
  "map_err f (Inl e) = Inl (f e)" "map_err f (Inr a) = Inr a"
  "map_err f r = Inr b \<longleftrightarrow> r = Inr b"
  by (auto simp: map_err_def split: sum.splits)

lemma map_err_Inl_iff: "map_err f r = Inl x \<longleftrightarrow> (\<exists>e. r = Inl e \<and> x = f e)"
  by (auto simp: map_err_def split: sum.splits)

lemma ok_or_simps [simp]:
  "ok_or e None = Inl e" "ok_or e (Some a) = Inr a"
  "ok_or e m = Inr b \<longleftrightarrow> m = Some b" "ok_or e m = Inl x \<longleftrightarrow> m = None \<and> x = e"
  by (auto simp: ok_or_def split: option.splits)

lemma is_err_simps [simp]: "is_err (Inl e)" "\<not> is_err (Inr a)"
  by (simp_all add: is_err_def)

lemma is_err_iff: "is_err r \<longleftrightarrow> (\<exists>e. r = Inl e)"
  by (cases r) auto

section \<open>Tables: lists of rows with a key\<close>

lemma find_Some_in: "List.find P xs = Some x \<Longrightarrow> x \<in> set xs \<and> P x"
  by (induction xs) (auto split: if_splits)

lemma find_None_iff_all: "List.find P xs = None \<longleftrightarrow> (\<forall>x \<in> set xs. \<not> P x)"
  by (induction xs) auto

lemma find_filter_other:
  "(\<And>x. x \<in> set xs \<Longrightarrow> P x \<Longrightarrow> Q x) \<Longrightarrow> List.find P (filter Q xs) = List.find P xs"
  by (induction xs) auto

lemma find_filter_none:
  "(\<And>x. x \<in> set xs \<Longrightarrow> P x \<Longrightarrow> \<not> Q x) \<Longrightarrow> List.find P (filter Q xs) = None"
  by (induction xs) auto

lemma find_append:
  "List.find P (xs @ ys) = (case List.find P xs of None \<Rightarrow> List.find P ys | Some x \<Rightarrow> Some x)"
  by (induction xs) auto

lemma find_map_same:
  "(\<And>x. x \<in> set xs \<Longrightarrow> P (f x) = P x) \<Longrightarrow>
   List.find P (map f xs) = map_option f (List.find P xs)"
  by (induction xs) auto

lemma find_unique_key:
  "distinct (map key xs) \<Longrightarrow> x \<in> set xs \<Longrightarrow> List.find (\<lambda>y. key y = key x) xs = Some x"
  by (induction xs) (auto simp: rev_image_eqI)

lemma filter_hd_find: "(case filter P xs of [] \<Rightarrow> None | x # _ \<Rightarrow> Some x) = List.find P xs"
  by (induction xs) auto

lemma distinct_map_filterI: "distinct (map f xs) \<Longrightarrow> distinct (map f (filter P xs))"
  by (simp add: distinct_map_filter)

lemma map_key_update:
  "(\<And>x. key (upd x) = key x) \<Longrightarrow>
   map key (map (\<lambda>x. if P x then upd x else x) xs) = map key xs"
  by (induction xs) auto

lemma map_of_rev_distinct:
  assumes "distinct (map fst xs)"
  shows "map_of (rev xs) = map_of xs"
proof -
  have "distinct (map fst (rev xs))" using assms by (simp add: rev_map [symmetric])
  from map_of_inject_set [OF this assms] show ?thesis by simp
qed

end
