(* ===== verification/RustStr.thy ===== *)
theory RustStr
  imports Prelude
begin

text \<open>
  The parts of Rust's \<open>str\<close>, \<open>String\<close> and integer parsing that the program uses. A Rust
  string is its UTF-8 bytes, one \<open>char\<close> each, so \<open>length\<close> is \<open>len()\<close>; \<open>rust_str\<close> is the
  validity every \<open>String\<close> carries. Everything here is executable.
\<close>

section \<open>Bytes of a string\<close>

definition byte_of :: "char \<Rightarrow> 8 word" where
  "byte_of c = word_of_nat (of_char c)"

definition char_at :: "8 word \<Rightarrow> char" where
  "char_at b = char_of (unat b)"

definition as_bytes :: "string \<Rightarrow> bytes" where
  "as_bytes s = map byte_of s"

lemma char_at_byte_of [simp]: "char_at (byte_of c) = c"
proof -
  have "(of_char c :: nat) < 256" by simp
  then have "unat (word_of_nat (of_char c) :: 8 word) = of_char c"
    by (simp add: unat_of_nat take_bit_nat_eq_self)
  then show ?thesis by (simp add: char_at_def byte_of_def)
qed

lemma byte_of_char_at [simp]: "byte_of (char_at b) = b"
proof -
  have "unat b < 256" using unsigned_less [where ?'a = nat, of b] by simp
  then show ?thesis by (simp add: char_at_def byte_of_def)
qed

lemma map_char_at_as_bytes [simp]: "map char_at (as_bytes s) = s"
  by (simp add: as_bytes_def comp_def)

lemma length_as_bytes [simp]: "length (as_bytes s) = length s"
  by (simp add: as_bytes_def)

section \<open>UTF-8\<close>

definition cont_byte :: "8 word \<Rightarrow> bool" where
  "cont_byte b \<longleftrightarrow> 0x80 \<le> b \<and> b \<le> 0xBF"

text \<open>The second byte a three or four byte sequence may have (no overlong form, no surrogate,
  nothing above U+10FFFF).\<close>

definition second3 :: "8 word \<Rightarrow> 8 word \<Rightarrow> bool" where
  "second3 b c = (if b = 0xE0 then 0xA0 \<le> c \<and> c \<le> 0xBF
     else if b = 0xED then 0x80 \<le> c \<and> c \<le> 0x9F else cont_byte c)"

definition second4 :: "8 word \<Rightarrow> 8 word \<Rightarrow> bool" where
  "second4 b c = (if b = 0xF0 then 0x90 \<le> c \<and> c \<le> 0xBF
     else if b = 0xF4 then 0x80 \<le> c \<and> c \<le> 0x8F else cont_byte c)"

fun utf8_valid :: "bytes \<Rightarrow> bool" where
  "utf8_valid [] = True"
| "utf8_valid (b # bs) =
    (if b < 0x80 then utf8_valid bs
     else if 0xC2 \<le> b \<and> b \<le> 0xDF then
       (case bs of c # r \<Rightarrow> cont_byte c \<and> utf8_valid r | _ \<Rightarrow> False)
     else if 0xE0 \<le> b \<and> b \<le> 0xEF then
       (case bs of c # d # r \<Rightarrow> second3 b c \<and> cont_byte d \<and> utf8_valid r | _ \<Rightarrow> False)
     else if 0xF0 \<le> b \<and> b \<le> 0xF4 then
       (case bs of c # d # e # r \<Rightarrow>
          second4 b c \<and> cont_byte d \<and> cont_byte e \<and> utf8_valid r | _ \<Rightarrow> False)
     else False)"

text \<open>\<open>String::from_utf8\<close>.\<close>

definition from_utf8 :: "bytes \<Rightarrow> string option" where
  "from_utf8 bs = (if utf8_valid bs then Some (map char_at bs) else None)"

definition rust_str :: "string \<Rightarrow> bool" where
  "rust_str s = utf8_valid (as_bytes s)"

lemma from_utf8_inv: "from_utf8 bs = Some s \<Longrightarrow> bs = as_bytes s"
  by (auto simp: from_utf8_def as_bytes_def comp_def split: if_splits)

lemma from_utf8_as_bytes [simp]: "rust_str s \<Longrightarrow> from_utf8 (as_bytes s) = Some s"
  by (simp add: from_utf8_def rust_str_def)

text \<open>\<open>s.chars().take(n).collect()\<close>: the first \<open>n\<close> characters, whole.\<close>

definition is_cont_char :: "char \<Rightarrow> bool" where
  "is_cont_char c = cont_byte (byte_of c)"

fun take_chars :: "nat \<Rightarrow> string \<Rightarrow> string" where
  "take_chars n [] = []"
| "take_chars n (c # cs) =
    (if is_cont_char c then c # take_chars n cs
     else (case n of 0 \<Rightarrow> [] | Suc m \<Rightarrow> c # take_chars m cs))"

definition count_chars :: "string \<Rightarrow> nat" where
  "count_chars s = length (filter (\<lambda>c. \<not> is_cont_char c) s)"

lemma take_chars_count: "count_chars (take_chars n s) \<le> n"
  by (induction n s rule: take_chars.induct) (auto simp: count_chars_def split: nat.splits)

lemma take_chars_prefix: "\<exists>r. s = take_chars n s @ r"
  by (induction n s rule: take_chars.induct) (auto split: nat.splits)

section \<open>Trimming\<close>

text \<open>The UTF-8 encodings of the characters with the Unicode \<open>White_Space\<close> property.\<close>

definition ws_seqs :: "string list" where
  "ws_seqs =
    [[CHR 0x09], [CHR 0x0A], [CHR 0x0B], [CHR 0x0C], [CHR 0x0D], [CHR 0x20],
     [CHR 0xC2, CHR 0x85], [CHR 0xC2, CHR 0xA0], [CHR 0xE1, CHR 0x9A, CHR 0x80],
     [CHR 0xE2, CHR 0x80, CHR 0x80], [CHR 0xE2, CHR 0x80, CHR 0x81],
     [CHR 0xE2, CHR 0x80, CHR 0x82], [CHR 0xE2, CHR 0x80, CHR 0x83],
     [CHR 0xE2, CHR 0x80, CHR 0x84], [CHR 0xE2, CHR 0x80, CHR 0x85],
     [CHR 0xE2, CHR 0x80, CHR 0x86], [CHR 0xE2, CHR 0x80, CHR 0x87],
     [CHR 0xE2, CHR 0x80, CHR 0x88], [CHR 0xE2, CHR 0x80, CHR 0x89],
     [CHR 0xE2, CHR 0x80, CHR 0x8A], [CHR 0xE2, CHR 0x80, CHR 0xA8],
     [CHR 0xE2, CHR 0x80, CHR 0xA9], [CHR 0xE2, CHR 0x80, CHR 0xAF],
     [CHR 0xE2, CHR 0x81, CHR 0x9F], [CHR 0xE3, CHR 0x80, CHR 0x80]]"

fun strip_prefix :: "string \<Rightarrow> string \<Rightarrow> string option" where
  "strip_prefix [] s = Some s"
| "strip_prefix (p # ps) [] = None"
| "strip_prefix (p # ps) (c # cs) = (if p = c then strip_prefix ps cs else None)"

fun strip_one :: "string list \<Rightarrow> string \<Rightarrow> string option" where
  "strip_one [] s = None"
| "strip_one (q # qs) s = (case strip_prefix q s of Some r \<Rightarrow> Some r | None \<Rightarrow> strip_one qs s)"

text \<open>Drop whole sequences from the front; each drops a byte or more, so as many rounds as
  there are bytes are enough.\<close>

fun strip_rounds :: "nat \<Rightarrow> string list \<Rightarrow> string \<Rightarrow> string" where
  "strip_rounds 0 qs s = s"
| "strip_rounds (Suc n) qs s = (case strip_one qs s of None \<Rightarrow> s | Some r \<Rightarrow> strip_rounds n qs r)"

definition strip_all :: "string list \<Rightarrow> string \<Rightarrow> string" where
  "strip_all qs s = strip_rounds (length s) qs s"

definition trim_start :: "string \<Rightarrow> string" where
  "trim_start s = strip_all ws_seqs s"

definition trim_end :: "string \<Rightarrow> string" where
  "trim_end s = rev (strip_all (map rev ws_seqs) (rev s))"

definition trim :: "string \<Rightarrow> string" where
  "trim s = trim_end (trim_start s)"

lemma strip_prefix_Some: "strip_prefix p s = Some r \<longleftrightarrow> s = p @ r"
  by (induction p s rule: strip_prefix.induct) auto

lemma strip_one_Some: "strip_one qs s = Some r \<Longrightarrow> \<exists>q \<in> set qs. s = q @ r"
  by (induction qs) (auto simp: strip_prefix_Some split: option.splits)

lemma strip_one_None: "strip_one qs s = None \<longleftrightarrow> (\<forall>q \<in> set qs. strip_prefix q s = None)"
  by (induction qs) (auto split: option.splits)

lemma strip_rounds_done:
  "[] \<notin> set qs \<Longrightarrow> length s \<le> n \<Longrightarrow> strip_one qs (strip_rounds n qs s) = None"
proof (induction n arbitrary: s)
  case 0
  then show ?case by (auto simp: strip_one_None) (metis neq_Nil_conv strip_prefix.simps(2))
next
  case (Suc n)
  show ?case
  proof (cases "strip_one qs s")
    case None
    then show ?thesis by simp
  next
    case (Some r)
    then obtain q where q: "q \<in> set qs" "s = q @ r" by (blast dest: strip_one_Some)
    with Suc.prems have "length r \<le> n" by (cases q) auto
    with Suc Some show ?thesis by simp
  qed
qed

lemma strip_rounds_suffix: "\<exists>p. s = p @ strip_rounds n qs s"
proof (induction n arbitrary: s)
  case (Suc n)
  show ?case
  proof (cases "strip_one qs s")
    case (Some r)
    then obtain q where "s = q @ r" by (blast dest: strip_one_Some)
    with Suc[of r] Some show ?thesis by (metis append.assoc option.simps(5) strip_rounds.simps(2))
  qed simp
qed simp

text \<open>\<open>trim\<close> leaves no white space at the front of \<open>trim_start\<close> and only cuts ends off.\<close>

lemma trim_start_no_ws: "q \<in> set ws_seqs \<Longrightarrow> strip_prefix q (trim_start s) = None"
proof -
  assume "q \<in> set ws_seqs"
  moreover have "[] \<notin> set ws_seqs" by (simp add: ws_seqs_def)
  then have "strip_one ws_seqs (trim_start s) = None"
    unfolding trim_start_def strip_all_def by (intro strip_rounds_done) auto
  ultimately show ?thesis by (simp add: strip_one_None)
qed

lemma trim_start_suffix: "\<exists>p. s = p @ trim_start s"
  unfolding trim_start_def strip_all_def by (rule strip_rounds_suffix)

lemma trim_end_prefix: "\<exists>r. s = trim_end s @ r"
proof -
  obtain p where "rev s = p @ strip_all (map rev ws_seqs) (rev s)"
    using strip_rounds_suffix unfolding strip_all_def by blast
  then have "s = trim_end s @ rev p" unfolding trim_end_def by (metis rev_append rev_rev_ident)
  then show ?thesis ..
qed

lemma trim_infix: "\<exists>p r. s = p @ trim s @ r"
proof -
  obtain p where p: "s = p @ trim_start s" using trim_start_suffix by blast
  obtain r where "trim_start s = trim s @ r"
    unfolding trim_def using trim_end_prefix by blast
  with p have "s = p @ trim s @ r" by simp
  then show ?thesis by blast
qed

lemma strip_all_fixed: "strip_one qs s = None \<Longrightarrow> strip_all qs s = s"
  by (cases "length s") (simp_all add: strip_all_def)

lemma trim_start_fixed: "\<forall>q \<in> set ws_seqs. strip_prefix q s = None \<Longrightarrow> trim_start s = s"
  unfolding trim_start_def by (rule strip_all_fixed) (simp add: strip_one_None)

lemma trim_end_trim_end [simp]: "trim_end (trim_end s) = trim_end s"
proof -
  have "strip_one (map rev ws_seqs) (strip_all (map rev ws_seqs) (rev s)) = None"
    unfolding strip_all_def by (intro strip_rounds_done) (auto simp: ws_seqs_def)
  from strip_all_fixed [OF this] show ?thesis by (simp add: trim_end_def)
qed

lemma trim_trim [simp]: "trim (trim s) = trim s"
proof -
  obtain r where r: "trim_start s = trim s @ r" using trim_end_prefix [of "trim_start s"] by (auto simp: trim_def)
  have "strip_prefix q (trim s) = None" if "q \<in> set ws_seqs" for q
  proof (rule ccontr)
    assume "strip_prefix q (trim s) \<noteq> None"
    then obtain x where "trim s = q @ x" by (auto simp: strip_prefix_Some)
    with r have "strip_prefix q (trim_start s) = Some (x @ r)" by (simp add: strip_prefix_Some)
    with trim_start_no_ws [OF that, of s] show False by simp
  qed
  then have "trim_start (trim s) = trim s" by (intro trim_start_fixed) blast
  then show ?thesis by (simp add: trim_def)
qed

lemma set_trim: "set (trim s) \<subseteq> set s"
proof -
  obtain p r where "s = p @ trim s @ r" using trim_infix by blast
  then have "set s = set p \<union> set (trim s) \<union> set r" by (metis set_append sup_assoc)
  then show ?thesis by blast
qed

section \<open>Splitting, joining, replacing\<close>

text \<open>\<open>s.split(c)\<close>: one part more than there are separators.\<close>

fun split_on :: "char \<Rightarrow> string \<Rightarrow> string list" where
  "split_on c [] = [[]]"
| "split_on c (x # xs) =
    (if x = c then [] # split_on c xs
     else (case split_on c xs of [] \<Rightarrow> [[x]] | p # ps \<Rightarrow> (x # p) # ps))"

text \<open>\<open>s.split_once(c)\<close>: around the first separator.\<close>

fun split_once :: "char \<Rightarrow> string \<Rightarrow> (string \<times> string) option" where
  "split_once c [] = None"
| "split_once c (x # xs) =
    (if x = c then Some ([], xs)
     else map_option (\<lambda>(a, b). (x # a, b)) (split_once c xs))"

fun join :: "string \<Rightarrow> string list \<Rightarrow> string" where
  "join sep [] = []"
| "join sep [x] = x"
| "join sep (x # y # zs) = x @ sep @ join sep (y # zs)"

text \<open>\<open>s.replace(c, r)\<close> for a character pattern.\<close>

definition replace_char :: "char \<Rightarrow> string \<Rightarrow> string \<Rightarrow> string" where
  "replace_char c r s = concat (map (\<lambda>x. if x = c then r else [x]) s)"

lemma split_on_nonempty [simp]: "split_on c s \<noteq> []"
  by (induction s) (auto split: list.splits)

lemma join_split_on: "join [c] (split_on c s) = s"
proof (induction s)
  case (Cons x xs)
  obtain p ps where "split_on c xs = p # ps" by (meson neq_Nil_conv split_on_nonempty)
  with Cons show ?case by (cases ps) auto
qed simp

lemma split_on_no_sep: "p \<in> set (split_on c s) \<Longrightarrow> c \<notin> set p"
proof (induction s arbitrary: p)
  case (Cons x xs)
  obtain q qs where "split_on c xs = q # qs" by (meson neq_Nil_conv split_on_nonempty)
  with Cons show ?case by (auto split: if_splits)
qed simp

lemma length_split_on: "length (split_on c s) = Suc (count_list s c)"
proof (induction s)
  case (Cons x xs)
  obtain q qs where "split_on c xs = q # qs" by (meson neq_Nil_conv split_on_nonempty)
  with Cons show ?case by auto
qed simp

lemma split_on_single: "c \<notin> set s \<Longrightarrow> split_on c s = [s]"
  by (induction s) auto

lemma split_on_append: "c \<notin> set p \<Longrightarrow> split_on c (p @ c # s) = p # split_on c s"
  by (induction p) auto

lemma split_on_join:
  "ps \<noteq> [] \<Longrightarrow> (\<And>p. p \<in> set ps \<Longrightarrow> c \<notin> set p) \<Longrightarrow> split_on c (join [c] ps) = ps"
proof (induction "[c]" ps rule: join.induct)
  case (2 x)
  then show ?case by (simp add: split_on_single)
next
  case (3 x y zs)
  then show ?case by (simp add: split_on_append)
qed simp

lemma split_once_Some: "split_once c s = Some (a, b) \<longleftrightarrow> s = a @ c # b \<and> c \<notin> set a"
proof (induction s arbitrary: a)
  case (Cons x xs)
  then show ?case by (cases a) auto
qed simp

lemma split_once_None: "split_once c s = None \<longleftrightarrow> c \<notin> set s"
  by (induction s) auto

section \<open>Decimal numbers\<close>

definition digit_char :: "nat \<Rightarrow> char" where
  "digit_char d = char_of (48 + d)"

definition digit_val :: "char \<Rightarrow> nat option" where
  "digit_val c = (let n = of_char c in if 48 \<le> n \<and> n \<le> 57 then Some (n - 48) else None)"

fun show_nat :: "nat \<Rightarrow> string" where
  "show_nat n = (if n < 10 then [digit_char n] else show_nat (n div 10) @ [digit_char (n mod 10)])"

declare show_nat.simps [simp del]

fun digits_val :: "nat \<Rightarrow> string \<Rightarrow> nat option" where
  "digits_val acc [] = Some acc"
| "digits_val acc (c # cs) =
    (case digit_val c of None \<Rightarrow> None | Some d \<Rightarrow> digits_val (10 * acc + d) cs)"

text \<open>\<open>s.parse::<u64>()\<close>: an optional plus sign, then digits; an empty number or one that does
  not fit is an error. \<open>i64\<close> takes a minus sign too.\<close>

definition parse_digits :: "string \<Rightarrow> nat option" where
  "parse_digits s = (if s = [] then None else digits_val 0 s)"

definition drop_plus :: "string \<Rightarrow> string" where
  "drop_plus s = (case strip_prefix ''+'' s of Some r \<Rightarrow> r | None \<Rightarrow> s)"

definition parse_u64 :: "string \<Rightarrow> nat option" where
  "parse_u64 s =
    (case parse_digits (drop_plus s) of
       Some n \<Rightarrow> if n < 2 ^ 64 then Some n else None
     | None \<Rightarrow> None)"

definition parse_i64 :: "string \<Rightarrow> int option" where
  "parse_i64 s =
    (case strip_prefix ''-'' s of
       Some r \<Rightarrow>
         (case parse_digits r of
            Some n \<Rightarrow> if n \<le> 2 ^ 63 then Some (- int n) else None | None \<Rightarrow> None)
     | None \<Rightarrow>
         (case parse_digits (drop_plus s) of
            Some n \<Rightarrow> if n < 2 ^ 63 then Some (int n) else None | None \<Rightarrow> None))"

lemma digit_val_digit_char [simp]: "d < 10 \<Longrightarrow> digit_val (digit_char d) = Some d"
  by (simp add: digit_val_def digit_char_def Let_def)

lemma digits_val_append:
  "digits_val acc (xs @ ys) =
     (case digits_val acc xs of None \<Rightarrow> None | Some n \<Rightarrow> digits_val n ys)"
  by (induction acc xs rule: digits_val.induct) (auto split: option.splits)

lemma digits_val_show: "digits_val 0 (show_nat n) = Some n"
proof (induction n rule: show_nat.induct)
  case (1 n)
  show ?case
  proof (cases "n < 10")
    case True
    then show ?thesis by (subst show_nat.simps) simp
  next
    case False
    with 1 show ?thesis by (subst show_nat.simps) (simp add: digits_val_append)
  qed
qed

lemma show_nat_nonempty [simp]: "show_nat n \<noteq> []"
  by (subst show_nat.simps) simp

lemma show_nat_hd: "\<exists>d r. d < 10 \<and> show_nat n = digit_char d # r"
proof (induction n rule: show_nat.induct)
  case (1 n)
  show ?case
  proof (cases "n < 10")
    case True
    then show ?thesis by (subst show_nat.simps) auto
  next
    case False
    with 1 obtain d r where "d < 10" "show_nat (n div 10) = digit_char d # r" by auto
    with False show ?thesis by (subst show_nat.simps) auto
  qed
qed

lemma digit_char_not_plus: "d < 10 \<Longrightarrow> digit_char d \<noteq> CHR ''+''"
proof
  assume d: "d < 10" and eq: "digit_char d = CHR ''+''"
  from d have "(of_char (digit_char d) :: nat) = 48 + d" by (simp add: digit_char_def)
  with eq show False by simp
qed

lemma parse_u64_show: "n < 2 ^ 64 \<Longrightarrow> parse_u64 (show_nat n) = Some n"
proof -
  assume n: "n < 2 ^ 64"
  obtain d r where d: "d < 10" "show_nat n = digit_char d # r" using show_nat_hd by blast
  then have "drop_plus (show_nat n) = show_nat n"
    using digit_char_not_plus[OF d(1)] by (auto simp: drop_plus_def)
  with n show ?thesis by (simp add: parse_u64_def parse_digits_def digits_val_show)
qed

lemma parse_i64_range: "parse_i64 s = Some i \<Longrightarrow> - (2 ^ 63) \<le> i \<and> i < 2 ^ 63"
  unfolding parse_i64_def by (auto split: option.splits if_splits)

end
