(* ===== verification/Errors.thy ===== *)
theory Errors
  imports RustStr
begin

text \<open>
  \<open>src/error.rs\<close>: the error type of every fallible operation, its rendering and its
  conversions, and \<open>src/api/routes.rs\<close>: how the REST surface renders it. An error of a
  library (the text of a \<open>std::io::Error\<close>, a \<open>rusqlite::Error\<close>, ...) enters as its text.
\<close>

datatype app_error =
    Config string
  | NotFound string
  | Auth string
  | TokenExpired string
  | Provider string
  | Storage string
  | InvalidRequest string
  | Internal string
  | Io string

type_synonym 'a result = "app_error + 'a"

text \<open>\<open>Display\<close>, from the \<open>#[error(...)]\<close> attributes.\<close>

fun display :: "app_error \<Rightarrow> string" where
  "display (Config m) = ''configuration error: '' @ m"
| "display (NotFound m) = m"
| "display (Auth m) = ''authorization error: '' @ m"
| "display (TokenExpired m) = ''authentication expired: '' @ m"
| "display (Provider m) = ''provider error: '' @ m"
| "display (Storage m) = ''storage error: '' @ m"
| "display (InvalidRequest m) = ''invalid request: '' @ m"
| "display (Internal m) = ''internal error: '' @ m"
| "display (Io m) = ''io error: '' @ m"

definition not_found :: "string \<Rightarrow> app_error" where
  "not_found msg = NotFound msg"

definition token_expired :: "string \<Rightarrow> app_error" where
  "token_expired msg = TokenExpired msg"

text \<open>The \<open>From\<close> conversions the \<open>?\<close> operator applies.\<close>

definition from_reqwest :: "string \<Rightarrow> app_error" where
  "from_reqwest e = Provider e"

definition from_rusqlite :: "string \<Rightarrow> app_error" where
  "from_rusqlite e = Storage e"

definition from_url_parse :: "string \<Rightarrow> app_error" where
  "from_url_parse e = Config (''invalid URL: '' @ e)"

definition from_serde_json :: "string \<Rightarrow> app_error" where
  "from_serde_json e = Internal (''json error: '' @ e)"

section \<open>Rendering on the REST surface\<close>

fun status_for :: "app_error \<Rightarrow> nat" where
  "status_for (NotFound _) = 404"
| "status_for (Auth _) = 401"
| "status_for (TokenExpired _) = 401"
| "status_for (InvalidRequest _) = 400"
| "status_for (Provider _) = 502"
| "status_for (Config _) = 500"
| "status_for (Storage _) = 500"
| "status_for (Internal _) = 500"
| "status_for (Io _) = 500"

text \<open>\<open>IntoResponse for AppError\<close>: the status and the text of the \<open>error\<close> member.\<close>

fun into_response :: "app_error \<Rightarrow> nat \<times> string" where
  "into_response (Internal m) = (status_for (Internal m), ''internal error'')"
| "into_response (Storage m) = (status_for (Storage m), ''internal error'')"
| "into_response (Io m) = (status_for (Io m), ''internal error'')"
| "into_response e = (status_for e, display e)"

lemma status_for_range: "status_for e \<in> {400, 401, 404, 500, 502}"
  by (cases e) auto

lemma status_for_500_iff:
  "status_for e = 500 \<longleftrightarrow> (\<exists>m. e = Config m \<or> e = Storage m \<or> e = Internal m \<or> e = Io m)"
  by (cases e) auto

text \<open>What the storage, crypto and I/O layers report never reaches the client: two such
  errors give the same response.\<close>

definition internal_detail :: "app_error \<Rightarrow> bool" where
  "internal_detail e = (case e of Internal _ \<Rightarrow> True | Storage _ \<Rightarrow> True | Io _ \<Rightarrow> True | _ \<Rightarrow> False)"

lemma into_response_internal: "internal_detail e \<Longrightarrow> into_response e = (500, ''internal error'')"
  by (cases e) (auto simp: internal_detail_def)

lemma into_response_other: "\<not> internal_detail e \<Longrightarrow> into_response e = (status_for e, display e)"
  by (cases e) (auto simp: internal_detail_def)

end
