(* ===== verification/World.thy ===== *)
theory World
  imports Errors
begin

text \<open>
  What the program talks to, and the state it keeps.

  \<open>env\<close> holds the code that is not in the repository, one field per call: the clock, the
  random sources, AES-256-GCM (\<open>aes-gcm\<close>), RFC 3339 and durations (\<open>chrono\<close>), \<open>base64\<close>, the grammar of socket addresses, URLs
  (\<open>url\<close>, \<open>oauth2\<close>),
  JSON text (\<open>serde_json\<close>), and the two remote parties, the identity provider and Microsoft
  Graph. A call whose answer can differ from one time to the next takes the number of the
  interaction, \<open>tick\<close>, which every such call advances. The hypotheses the proofs put on
  these fields are the named predicates at the end.

  \<open>database\<close> is the SQLite file with its three tables, \<open>faults\<close> the schedule of engine
  failures (the next statements fail with the given text or run; none is left when the list
  is empty) and the poisoning flag of the mutex around the connection. \<open>world\<close> adds the
  interaction counter, the log of what was sent over the network and the token manager's
  table of mutexes.
\<close>

section \<open>JSON values\<close>

datatype json =
    JNull
  | JBool bool
  | JNum int
  | JStr string
  | JArr "json list"
  | JObj "(string \<times> json) list"

text \<open>\<open>Value::get\<close> by name, \<open>as_array\<close>, \<open>as_str\<close>.\<close>

fun json_get :: "string \<Rightarrow> json \<Rightarrow> json option" where
  "json_get k (JObj ms) = map_of ms k"
| "json_get k _ = None"

fun as_array :: "json \<Rightarrow> json list option" where
  "as_array (JArr xs) = Some xs"
| "as_array _ = None"

fun as_str :: "json \<Rightarrow> string option" where
  "as_str (JStr s) = Some s"
| "as_str _ = None"

section \<open>Messages to the outside\<close>

record url =
  url_text :: string
  url_scheme :: string
  url_host :: "string option"
  url_port :: "16 word option"
  url_base :: bool  \<comment> \<open>has a path: false for URLs such as mailto:x\<close>

datatype http_method = GET | POST

text \<open>A request as the code builds it: the parsed base URL, the path segments pushed and the
  query pairs appended to it (percent-encoding is the \<open>url\<close> crate's), the bearer token and
  the JSON body.\<close>

record http_request =
  rq_method :: http_method
  rq_url :: url
  rq_push :: "string list"
  rq_query :: "(string \<times> string) list"
  rq_bearer :: string
  rq_body :: "json option"

text \<open>A response: its status, and its body unless reading the body fails.\<close>

record http_response =
  rs_status :: nat
  rs_text :: "string option"

text \<open>The OAuth client the \<open>oauth2\<close> crate is configured with, and its two token requests.\<close>

record oauth_config =
  oc_client_id :: string
  oc_client_secret :: string
  oc_auth_url :: url
  oc_token_url :: url
  oc_redirect :: url

datatype idp_request =
    ExchangeCode oauth_config string string  \<comment> \<open>code, PKCE verifier\<close>
  | ExchangeRefresh oauth_config string      \<comment> \<open>refresh token\<close>

record token_response =
  tp_access :: string
  tp_refresh :: "string option"
  tp_expires_in :: "nat option"
  tp_scopes :: "string list option"

datatype wire_event = ToIdp idp_request | ToGraph http_request

section \<open>External code\<close>

record env =
  clock :: "nat \<Rightarrow> int"                 \<comment> \<open>Utc::now(), nanoseconds since the epoch\<close>
  nonces :: "nat \<Rightarrow> bytes"              \<comment> \<open>thread_rng().fill_bytes\<close>
  uuids :: "nat \<Rightarrow> string"              \<comment> \<open>Uuid::new_v4\<close>
  pkces :: "nat \<Rightarrow> string \<times> string"    \<comment> \<open>PkceCodeChallenge::new_random_sha256\<close>
  csrfs :: "nat \<Rightarrow> string"              \<comment> \<open>CsrfToken::new_random\<close>
  aead_seal :: "bytes \<Rightarrow> bytes \<Rightarrow> bytes \<Rightarrow> string + bytes"  \<comment> \<open>key, nonce, plaintext\<close>
  aead_open :: "bytes \<Rightarrow> bytes \<Rightarrow> bytes \<Rightarrow> string + bytes"  \<comment> \<open>key, nonce, ciphertext\<close>
  to_rfc3339 :: "int \<Rightarrow> string"
  parse_rfc3339 :: "string \<Rightarrow> int option"
  chrono_from_std :: "nat \<Rightarrow> int option" \<comment> \<open>Duration::from_std of whole seconds, nanoseconds\<close>
  utc_plus :: "int \<Rightarrow> int \<Rightarrow> int option"  \<comment> \<open>DateTime + Duration; None where chrono panics\<close>
  now_minus_days :: "int \<Rightarrow> int \<Rightarrow> int option"  \<comment> \<open>t - Duration::days(n); None where chrono panics\<close>
  base64_decode :: "string \<Rightarrow> bytes option"
  parse_socket_addr :: "string \<Rightarrow> string + (string \<times> 16 word)"  \<comment> \<open>ip().to_string(), port()\<close>
  utf8_error :: "bytes \<Rightarrow> string"       \<comment> \<open>the text of FromUtf8Error\<close>
  parse_url :: "string \<Rightarrow> string + url"
  auth_link :: "oauth_config \<Rightarrow> string list \<Rightarrow> string \<Rightarrow> string \<Rightarrow> url"
                                         \<comment> \<open>scopes, challenge, state\<close>
  idp :: "nat \<Rightarrow> idp_request \<Rightarrow> string + token_response"
  graph :: "nat \<Rightarrow> http_request \<Rightarrow> string + http_response"
  json_of_text :: "string \<Rightarrow> string + json"  \<comment> \<open>serde_json::from_str to a Value\<close>
  json_doc :: "string \<Rightarrow> string + json"      \<comment> \<open>the document from_str reads a struct from, repeated members kept\<close>
  shape_error :: "string \<Rightarrow> string"    \<comment> \<open>serde_json's text for a body of the wrong shape\<close>
  status_text :: "nat \<Rightarrow> string"        \<comment> \<open>Display of StatusCode\<close>

section \<open>State\<close>

record account_row =
  ar_id :: string
  ar_tenant :: string
  ar_email :: string
  ar_name :: "string option"
  ar_provider :: string
  ar_status :: string
  ar_created :: string
  ar_updated :: string

record token_row =
  tr_account :: string
  tr_access :: bytes
  tr_refresh :: bytes
  tr_scope :: "string option"
  tr_expires :: "string option"
  tr_last_used :: "string option"
  tr_updated :: string

record flow_row =
  fr_state :: string
  fr_verifier :: bytes
  fr_tenant :: string
  fr_created :: int

record tables =
  accounts :: "account_row list"
  tokens :: "token_row list"
  oauth_flows :: "flow_row list"

record database = tables +
  faults :: "string option list"
  poisoned :: bool

record world =
  db :: database
  tick :: nat
  wire :: "wire_event list"
  refresh_locks :: "(string \<times> nat) list"   \<comment> \<open>the token manager's mutex per account\<close>

definition tock :: "world \<Rightarrow> world" where
  "tock w = w\<lparr>tick := Suc (tick w)\<rparr>"

text \<open>\<open>Utc::now()\<close>.\<close>

definition utc_now :: "env \<Rightarrow> world \<Rightarrow> int \<times> world" where
  "utc_now E w = (clock E (tick w), tock w)"

text \<open>\<open>storage::now()\<close> of \<open>src/storage/mod.rs\<close>: the time as RFC 3339 text.\<close>

definition now :: "env \<Rightarrow> world \<Rightarrow> string \<times> world" where
  "now E w = (let (t, w) = utc_now E w in (to_rfc3339 E t, w))"

text \<open>Calls over the network: logged, and answered by the remote party.\<close>

definition call_idp :: "env \<Rightarrow> idp_request \<Rightarrow> world \<Rightarrow> (string + token_response) \<times> world" where
  "call_idp E r w = (idp E (tick w) r, (tock w)\<lparr>wire := wire w @ [ToIdp r]\<rparr>)"

definition call_graph :: "env \<Rightarrow> http_request \<Rightarrow> world \<Rightarrow> (string + http_response) \<times> world" where
  "call_graph E r w = (graph E (tick w) r, (tock w)\<lparr>wire := wire w @ [ToGraph r]\<rparr>)"

text \<open>An operation on the database, in the world.\<close>

definition on_db :: "(database \<Rightarrow> 'a \<times> database) \<Rightarrow> world \<Rightarrow> 'a \<times> world" where
  "on_db f w = (let (r, d) = f (db w) in (r, w\<lparr>db := d\<rparr>))"

lemma tock_simps [simp]:
  "db (tock w) = db w" "tick (tock w) = Suc (tick w)" "wire (tock w) = wire w"
  "refresh_locks (tock w) = refresh_locks w"
  by (simp_all add: tock_def)

lemma call_idp_simps [simp]:
  "fst (call_idp E r w) = idp E (tick w) r" "db (snd (call_idp E r w)) = db w"
  "wire (snd (call_idp E r w)) = wire w @ [ToIdp r]"
  "tick (snd (call_idp E r w)) = Suc (tick w)"
  by (simp_all add: call_idp_def)

lemma call_graph_simps [simp]:
  "fst (call_graph E r w) = graph E (tick w) r" "db (snd (call_graph E r w)) = db w"
  "wire (snd (call_graph E r w)) = wire w @ [ToGraph r]"
  "tick (snd (call_graph E r w)) = Suc (tick w)"
  by (simp_all add: call_graph_def)

lemma on_db_simps [simp]:
  "fst (on_db f w) = fst (f (db w))" "db (snd (on_db f w)) = snd (f (db w))"
  "wire (snd (on_db f w)) = wire w" "tick (snd (on_db f w)) = tick w"
  by (simp_all add: on_db_def case_prod_unfold Let_def)

section \<open>What the proofs rely on\<close>

text \<open>AES-256-GCM opens what it sealed under the same key and nonce, and its ciphertext is the
  plaintext with a tag of 16 bytes; the random source fills the 12 bytes it is asked for.\<close>

definition aead_ok :: "env \<Rightarrow> bool" where
  "aead_ok E \<longleftrightarrow>
     (\<forall>k n p c. aead_seal E k n p = Inr c \<longrightarrow> aead_open E k n c = Inr p \<and> length c = length p + 16) \<and>
     (\<forall>i. length (nonces E i) = 12)"

text \<open>RFC 3339 text of a clock reading parses back to it.\<close>

definition rfc3339_ok :: "env \<Rightarrow> (int \<Rightarrow> bool) \<Rightarrow> bool" where
  "rfc3339_ok E T \<longleftrightarrow> (\<forall>t. T t \<longrightarrow> parse_rfc3339 E (to_rfc3339 E t) = Some t)"

text \<open>Within the years of four digits the text of UTC times sorts as the times do.\<close>

definition rfc3339_mono :: "env \<Rightarrow> (int \<Rightarrow> bool) \<Rightarrow> bool" where
  "rfc3339_mono E T \<longleftrightarrow>
     (\<forall>s t. T s \<longrightarrow> T t \<longrightarrow> (to_rfc3339 E s < to_rfc3339 E t \<longleftrightarrow> s < t))"

end
