(* ===== verification/Configuration.thy ===== *)
theory Configuration
  imports World "HOL-Library.AList"
begin

unbundle bit_operations_syntax

text \<open>
  \<open>src/config.rs\<close>: the configuration read from environment variables, the master key in
  hexadecimal or base64, the map from API keys to tenants, and the address of the OAuth
  callback listener. A \<open>HashMap\<close> is an association list with distinct keys, written by
  \<open>AList.update\<close>.
\<close>

record config =
  client_id :: string
  client_secret :: string
  redirect_uri :: string
  auth_url :: string
  token_url :: string
  graph_base_url :: string
  encryption_key :: bytes
  database_path :: string
  api_keys :: "(string \<times> string) list"
  default_tenant_id :: string
  api_bind_addr :: string
  callback_bind_addr :: "string option"
  token_inactivity_days :: int
  refresh_interval_secs :: nat

definition COMMON_AUTH_URL :: string where
  "COMMON_AUTH_URL = ''https://login.microsoftonline.com/common/oauth2/v2.0/authorize''"

definition COMMON_TOKEN_URL :: string where
  "COMMON_TOKEN_URL = ''https://login.microsoftonline.com/common/oauth2/v2.0/token''"

definition GRAPH_BASE_URL :: string where
  "GRAPH_BASE_URL = ''https://graph.microsoft.com/v1.0''"

section \<open>Environment variables\<close>

definition env_var :: "(string \<rightharpoonup> string) \<Rightarrow> string \<Rightarrow> string result" where
  "env_var vars key =
     (case vars key of
        None \<Rightarrow> Inl (Config (''missing required environment variable '' @ key))
      | Some v \<Rightarrow> if trim v = [] then Inl (Config (''environment variable '' @ key @ '' is empty''))
                  else Inr v)"

definition env_or :: "(string \<rightharpoonup> string) \<Rightarrow> string \<Rightarrow> string \<Rightarrow> string" where
  "env_or vars key dflt = (case env_var vars key of Inr v \<Rightarrow> v | Inl _ \<Rightarrow> dflt)"

section \<open>The master key\<close>

definition hex_val :: "8 word \<Rightarrow> 8 word option" where
  "hex_val c =
     (if 0x30 \<le> c \<and> c \<le> 0x39 then Some (c - 0x30)
      else if 0x61 \<le> c \<and> c \<le> 0x66 then Some (c - 0x61 + 10)
      else if 0x41 \<le> c \<and> c \<le> 0x46 then Some (c - 0x41 + 10)
      else None)"

fun hex_pairs :: "bytes \<Rightarrow> bytes option" where
  "hex_pairs (hi # lo # rest) =
     (case hex_val hi of None \<Rightarrow> None
      | Some h \<Rightarrow> (case hex_val lo of None \<Rightarrow> None
      | Some l \<Rightarrow> map_option (\<lambda>bs. (push_bit 4 h OR l) # bs) (hex_pairs rest)))"
| "hex_pairs _ = Some []"

text \<open>\<open>hex_decode(input, out)\<close> for an \<open>out\<close> of \<open>n\<close> bytes.\<close>

definition hex_decode :: "string \<Rightarrow> nat \<Rightarrow> bytes option" where
  "hex_decode input n = (if length input \<noteq> n * 2 then None else hex_pairs (as_bytes input))"

definition parse_key :: "env \<Rightarrow> string \<Rightarrow> bytes result" where
  "parse_key E raw0 =
     (let raw = trim raw0
      in if length raw = 64 then
           (case hex_decode raw 32 of
              Some out \<Rightarrow> Inr out
            | None \<Rightarrow> Inl (Config ''ENCRYPTION_KEY must be 64 hex characters''))
         else
           (case base64_decode E raw of
              Some decoded \<Rightarrow>
                if length decoded = 32 then Inr decoded
                else Inl (Config ''ENCRYPTION_KEY must be exactly 32 bytes (64 hex chars or base64)'')
            | None \<Rightarrow> Inl (Config ''ENCRYPTION_KEY must be exactly 32 bytes (64 hex chars or base64)'')))"

section \<open>API keys\<close>

definition api_key_entry :: "string \<Rightarrow> string \<times> string" where
  "api_key_entry part =
     (case split_once (CHR ''='') part of
        Some (key, tenant) \<Rightarrow> (trim key, trim tenant)
      | None \<Rightarrow> (part, []))"

definition api_key_parts :: "string \<Rightarrow> string list" where
  "api_key_parts raw = filter (\<lambda>p. p \<noteq> []) (map trim (split_on (CHR '','') raw))"

definition parse_api_keys :: "string \<Rightarrow> (string \<times> string) list" where
  "parse_api_keys raw =
     foldl (\<lambda>m part. let (k, t) = api_key_entry part in AList.update k t m) [] (api_key_parts raw)"

section \<open>The configuration\<close>

definition from_env :: "env \<Rightarrow> (string \<rightharpoonup> string) \<Rightarrow> config result" where
  "from_env E vars =
     (case env_var vars ''CLIENT_ID'' of Inl e \<Rightarrow> Inl e | Inr cid \<Rightarrow>
     (case env_var vars ''CLIENT_SECRET'' of Inl e \<Rightarrow> Inl e | Inr secret \<Rightarrow>
     (case env_var vars ''ENCRYPTION_KEY'' of Inl e \<Rightarrow> Inl e | Inr raw \<Rightarrow>
     (case parse_key E raw of Inl e \<Rightarrow> Inl e | Inr key \<Rightarrow>
       Inr \<lparr>client_id = cid, client_secret = secret,
         redirect_uri = env_or vars ''REDIRECT_URI'' ''http://localhost'',
         auth_url = env_or vars ''AUTH_URL'' COMMON_AUTH_URL,
         token_url = env_or vars ''TOKEN_URL'' COMMON_TOKEN_URL,
         graph_base_url = env_or vars ''GRAPH_BASE_URL'' GRAPH_BASE_URL,
         encryption_key = key,
         database_path = env_or vars ''DATABASE_PATH'' ''./unimail.db'',
         api_keys = parse_api_keys (env_or vars ''API_KEYS'' []),
         default_tenant_id = env_or vars ''DEFAULT_TENANT_ID'' ''default'',
         api_bind_addr = env_or vars ''API_BIND_ADDR'' ''0.0.0.0:8080'',
         callback_bind_addr = (case env_var vars ''CALLBACK_BIND_ADDR'' of
            Inr v \<Rightarrow> if trim v \<noteq> [] then Some v else None | Inl _ \<Rightarrow> None),
         token_inactivity_days = (case env_var vars ''TOKEN_INACTIVITY_DAYS'' of
            Inr v \<Rightarrow> (case parse_i64 v of Some n \<Rightarrow> n | None \<Rightarrow> 90) | Inl _ \<Rightarrow> 90),
         refresh_interval_secs = (case env_var vars ''REFRESH_INTERVAL_SECS'' of
            Inr v \<Rightarrow> (case parse_u64 v of Some n \<Rightarrow> n | None \<Rightarrow> 21600) | Inl _ \<Rightarrow> 21600)\<rparr>))))"

definition tenant_for_key :: "config \<Rightarrow> string \<Rightarrow> string option" where
  "tenant_for_key C key = map_of (api_keys C) key"

definition callback_addr :: "env \<Rightarrow> config \<Rightarrow> (string \<times> 16 word) result" where
  "callback_addr E C =
     (case callback_bind_addr C of
        Some addr \<Rightarrow>
          (case parse_socket_addr E addr of
             Inl e \<Rightarrow> Inl (Config (''invalid CALLBACK_BIND_ADDR '' @ [CHR 0x27] @ addr @ [CHR 0x27] @ '': '' @ e))
           | Inr (ip, port) \<Rightarrow> Inr (ip, port))
      | None \<Rightarrow>
          (case parse_url E (redirect_uri C) of
             Inl e \<Rightarrow> Inl (Config (''invalid REDIRECT_URI: '' @ e))
           | Inr url \<Rightarrow>
               (let host = (case url_host url of Some h \<Rightarrow> h | None \<Rightarrow> ''127.0.0.1'');
                    port = (case url_port url of Some p \<Rightarrow> p
                            | None \<Rightarrow> if url_scheme url = ''https'' then 443 else 80)
                in Inr (if host = ''localhost'' then ''127.0.0.1'' else host, port))))"

section \<open>Properties of the key parser\<close>

lemma hex_pairs_length: "hex_pairs bs = Some out \<Longrightarrow> even (length bs) \<Longrightarrow> 2 * length out = length bs"
  by (induction bs arbitrary: out rule: hex_pairs.induct) (auto split: option.splits)

lemma parse_key_length: "parse_key E raw = Inr key \<Longrightarrow> length key = 32"
  by (auto simp: parse_key_def hex_decode_def Let_def dest: hex_pairs_length
      split: if_splits option.splits)

text \<open>Rendering a key: lower-case hexadecimal, high half first.\<close>

definition hex_digit :: "8 word \<Rightarrow> char" where
  "hex_digit v = char_at (if v < 10 then 0x30 + v else 0x61 + (v - 10))"

definition to_hex :: "bytes \<Rightarrow> string" where
  "to_hex bs = concat (map (\<lambda>b. [hex_digit (drop_bit 4 b), hex_digit (b AND 0xF)]) bs)"

lemma nibble_cases:
  fixes v :: "8 word"
  assumes "v < 16"
  shows "v \<in> {0, 1, 2, 3, 4, 5, 6, 7, 8, 9, 10, 11, 12, 13, 14, 15}"
proof -
  have "unat v < 16" using assms by (simp add: word_less_nat_alt)
  then have "unat v = 0 \<or> unat v = 1 \<or> unat v = 2 \<or> unat v = 3 \<or> unat v = 4 \<or> unat v = 5 \<or> unat v = 6 \<or> unat v = 7 \<or> unat v = 8 \<or> unat v = 9 \<or> unat v = 10 \<or> unat v = 11 \<or> unat v = 12 \<or> unat v = 13 \<or> unat v = 14 \<or> unat v = 15"
    by arith
  moreover have "v = word_of_nat (unat v)" by simp
  ultimately show ?thesis by (elim disjE) (simp_all only: insert_iff, simp_all)
qed

lemma hex_val_digit: "v < 16 \<Longrightarrow> hex_val (byte_of (hex_digit v)) = Some v"
proof -
  assume "v < 16"
  from nibble_cases [OF this] show ?thesis
    unfolding insert_iff empty_iff
    by (elim disjE) (simp_all add: hex_val_def hex_digit_def)
qed

lemma nibbles_join: "push_bit 4 (drop_bit 4 b) OR (b AND 0xF) = (b :: 8 word)"
proof -
  have "b AND 0xF = take_bit 4 b" by (simp add: take_bit_eq_mask mask_eq_exp_minus_1)
  then show ?thesis by (auto intro!: bit_word_eqI simp: bit_simps)
qed

lemma nibble_bounds: "drop_bit 4 b < (16 :: 8 word)" "b AND 0xF < (16 :: 8 word)"
proof -
  have "unat b < 256" using unsigned_less [where ?'a = nat, of b] by simp
  then have "unat b div 16 < 16" by simp
  then show "drop_bit 4 b < 16" by (simp add: word_less_nat_alt unat_drop_bit_eq drop_bit_eq_div unat_div)
  have "b AND 0xF \<le> 0xF" by (rule word_and_le1)
  then show "b AND 0xF < 16" by (simp add: word_less_nat_alt word_le_nat_alt)
qed

lemma hex_pairs_to_hex: "hex_pairs (as_bytes (to_hex bs)) = Some bs"
  by (induction bs)
    (simp_all add: to_hex_def as_bytes_def hex_val_digit nibble_bounds nibbles_join)

lemma length_to_hex [simp]: "length (to_hex bs) = 2 * length bs"
  by (induction bs) (simp_all add: to_hex_def)

section \<open>Properties of the API key parser\<close>

text \<open>Printable ASCII without the space: such text is its own \<open>trim\<close>.\<close>

definition graphic :: "char \<Rightarrow> bool" where
  "graphic c \<longleftrightarrow> (of_char c :: nat) \<in> {0x21..0x7E}"

lemma strip_one_graphic:
  assumes "\<forall>c \<in> set s. graphic c" and "\<forall>q \<in> set qs. \<exists>c r. q = c # r \<and> \<not> graphic c"
  shows "strip_one qs s = None"
  unfolding strip_one_None
proof
  fix q assume "q \<in> set qs"
  with assms(2) obtain c r where "q = c # r" "\<not> graphic c" by blast
  with assms(1) show "strip_prefix q s = None" by (cases s) auto
qed

lemma strip_all_graphic:
  "\<forall>c \<in> set s. graphic c \<Longrightarrow> \<forall>q \<in> set qs. \<exists>c r. q = c # r \<and> \<not> graphic c \<Longrightarrow> strip_all qs s = s"
  by (cases "length s") (auto simp: strip_all_def strip_one_graphic)

lemma trim_graphic: "\<forall>c \<in> set s. graphic c \<Longrightarrow> trim s = s"
proof -
  assume g: "\<forall>c \<in> set s. graphic c"
  have "\<forall>q \<in> set ws_seqs. \<exists>c r. q = c # r \<and> \<not> graphic c" by (simp add: ws_seqs_def graphic_def)
  with g have start: "trim_start s = s" by (simp add: trim_start_def strip_all_graphic)
  have "\<forall>q \<in> set (map rev ws_seqs). \<exists>c r. q = c # r \<and> \<not> graphic c"
    by (simp add: ws_seqs_def graphic_def)
  with g have "strip_all (map rev ws_seqs) (rev s) = rev s" by (intro strip_all_graphic) simp_all
  with start show ?thesis by (simp add: trim_def trim_end_def)
qed

text \<open>An entry as the documentation writes it, and the tenant it stands for.\<close>

definition render_entry :: "string \<times> string option \<Rightarrow> string" where
  "render_entry e = (case e of (k, Some t) \<Rightarrow> k @ ''='' @ t | (k, None) \<Rightarrow> k)"

definition clean_entry :: "string \<times> string option \<Rightarrow> bool" where
  "clean_entry e \<longleftrightarrow> fst e \<noteq> [] \<and>
     (\<forall>c \<in> set (fst e). graphic c \<and> c \<noteq> CHR '','' \<and> c \<noteq> CHR ''='') \<and>
     (\<forall>t. snd e = Some t \<longrightarrow> (\<forall>c \<in> set t. graphic c \<and> c \<noteq> CHR '',''))"

definition entry_value :: "string \<times> string option \<Rightarrow> string \<times> string" where
  "entry_value e = (fst e, case snd e of Some t \<Rightarrow> t | None \<Rightarrow> [])"

lemma api_key_entry_render: "clean_entry e \<Longrightarrow> api_key_entry (render_entry e) = entry_value e"
proof (cases e)
  case (Pair k m)
  assume c: "clean_entry e"
  show ?thesis
  proof (cases m)
    case None
    with c Pair have "split_once (CHR ''='') k = None" by (auto simp: split_once_None clean_entry_def)
    with None Pair show ?thesis by (simp add: render_entry_def api_key_entry_def entry_value_def)
  next
    case (Some t)
    with c Pair have "split_once (CHR ''='') (k @ CHR ''='' # t) = Some (k, t)" "trim k = k" "trim t = t"
      by (auto simp: split_once_Some clean_entry_def trim_graphic)
    with Some Pair show ?thesis by (simp add: render_entry_def api_key_entry_def entry_value_def)
  qed
qed

lemma graphic_eq [simp]: "graphic (CHR ''='')"
  by (simp add: graphic_def)

lemma set_render_entry:
  assumes "clean_entry e" and "c \<in> set (render_entry e)"
  shows "graphic c \<and> c \<noteq> CHR '',''"
proof -
  obtain k m where e: "e = (k, m)" by (cases e)
  show ?thesis
  proof (cases m)
    case None
    with e assms show ?thesis by (simp add: render_entry_def clean_entry_def)
  next
    case (Some t)
    with e assms(2) have "c \<in> set k \<or> c = CHR ''='' \<or> c \<in> set t"
      by (auto simp: render_entry_def)
    moreover from e Some assms(1)
    have "\<forall>x \<in> set k. graphic x \<and> x \<noteq> CHR '',''" "\<forall>x \<in> set t. graphic x \<and> x \<noteq> CHR '',''"
      by (simp_all add: clean_entry_def)
    ultimately show ?thesis by (elim disjE) simp_all
  qed
qed

lemma render_entry_part:
  assumes "clean_entry e"
  shows "render_entry e \<noteq> []" "CHR '','' \<notin> set (render_entry e)" "trim (render_entry e) = render_entry e"
proof -
  from assms show "CHR '','' \<notin> set (render_entry e)" "trim (render_entry e) = render_entry e"
    using set_render_entry trim_graphic by blast+
  from assms show "render_entry e \<noteq> []"
    by (cases e; cases "snd e") (simp_all add: render_entry_def clean_entry_def)
qed

lemma map_of_foldl_update:
  "map_of (foldl (\<lambda>m part. let (k, t) = f part in AList.update k t m) m0 ps) =
   map_of m0 ++ map_of (rev (map f ps))"
proof (induction ps arbitrary: m0)
  case (Cons p ps)
  show ?case
    by (simp only: foldl.simps Cons.IH)
      (auto simp: update_conv' map_add_def fun_eq_iff split: option.splits prod.splits)
qed simp

lemma parse_api_keys_lookup:
  "map_of (parse_api_keys raw) = map_of (rev (map api_key_entry (api_key_parts raw)))"
  unfolding parse_api_keys_def map_of_foldl_update by simp

lemma distinct_parse_api_keys: "distinct (map fst (parse_api_keys raw))"
proof -
  have "distinct (map fst m) \<Longrightarrow>
      distinct (map fst (foldl (\<lambda>m part. let (k, t) = f part in AList.update k t m) m ps))"
    for f :: "string \<Rightarrow> string \<times> string" and m ps
    by (induction ps arbitrary: m) (auto simp: distinct_update split: prod.splits)
  then show ?thesis by (simp add: parse_api_keys_def)
qed

lemma api_key_parts_render:
  assumes "es \<noteq> []" and "\<forall>e \<in> set es. clean_entry e"
  shows "api_key_parts (join '','' (map render_entry es)) = map render_entry es"
proof -
  have "split_on (CHR '','') (join '','' (map render_entry es)) = map render_entry es"
    using assms render_entry_part(2) by (intro split_on_join) auto
  moreover have "map trim (map render_entry es) = map render_entry es"
    using assms(2) render_entry_part(3) by (intro map_idI) auto
  moreover have "filter (\<lambda>p. p \<noteq> []) (map render_entry es) = map render_entry es"
    using assms(2) render_entry_part(1) by (intro filter_True) auto
  ultimately show ?thesis by (simp only: api_key_parts_def)
qed

section \<open>Rendered keys\<close>

lemma graphic_hex_digit: "v < 16 \<Longrightarrow> graphic (hex_digit v)"
proof -
  assume "v < 16"
  from nibble_cases [OF this] show ?thesis
    unfolding insert_iff empty_iff
    by (elim disjE) (simp_all add: graphic_def hex_digit_def char_at_def)
qed

lemma to_hex_Cons: "to_hex (b # bs) = hex_digit (drop_bit 4 b) # hex_digit (b AND 0xF) # to_hex bs"
  by (simp add: to_hex_def)

lemma to_hex_Nil: "to_hex [] = []"
  by (simp add: to_hex_def)

lemma to_hex_shape: "length (to_hex bs) = 2 * length bs" "\<forall>c \<in> set (to_hex bs). graphic c"
  by (induction bs) (simp_all add: to_hex_Nil to_hex_Cons graphic_hex_digit nibble_bounds)

lemma parse_key_to_hex:
  assumes "length key = 32"
  shows "parse_key E (to_hex key) = Inr key"
  using trim_graphic [OF to_hex_shape(2)] to_hex_shape(1) [of key] assms
  by (simp add: parse_key_def hex_decode_def hex_pairs_to_hex)

text \<open>The documented form of \<open>API_KEYS\<close>.\<close>

lemma parse_rendered_api_keys:
  assumes "es \<noteq> []" and "\<forall>e \<in> set es. clean_entry e" and "distinct (map fst es)"
  shows "map_of (parse_api_keys (join '','' (map render_entry es))) = map_of (map entry_value es)"
proof -
  have "map api_key_entry (map render_entry es) = map entry_value es"
    using assms(2) by (simp add: api_key_entry_render)
  moreover have "distinct (map fst (map entry_value es))" using assms(3) by (simp add: entry_value_def comp_def)
  ultimately show ?thesis
    using map_of_rev_distinct [of "map entry_value es"]
    by (simp only: parse_api_keys_lookup api_key_parts_render [OF assms(1,2)] )
qed

section \<open>What is accepted\<close>

definition non_blank :: "string \<Rightarrow> bool" where
  "non_blank s \<longleftrightarrow> trim s \<noteq> []"

text \<open>
  The invariant of an accepted configuration: a key of 32 bytes, no blank setting, numbers in the
  ranges of their types, API keys that are distinct and, like their tenants, trimmed and free of the
  separators.
\<close>

definition config_ok :: "config \<Rightarrow> bool" where
  "config_ok C \<longleftrightarrow>
     length (encryption_key C) = 32 \<and>
     (\<forall>s \<in> {client_id C, client_secret C, redirect_uri C, auth_url C, token_url C, graph_base_url C,
        database_path C, default_tenant_id C, api_bind_addr C}. non_blank s) \<and>
     pred_option non_blank (callback_bind_addr C) \<and>
     - (2 ^ 63) \<le> token_inactivity_days C \<and> token_inactivity_days C < 2 ^ 63 \<and>
     refresh_interval_secs C < 2 ^ 64 \<and>
     distinct (map fst (api_keys C)) \<and>
     (\<forall>(k, t) \<in> set (api_keys C). trim k = k \<and> trim t = t \<and> CHR '','' \<notin> set k \<union> set t \<and> CHR ''='' \<notin> set k)"

lemma parse_u64_range: "parse_u64 s = Some n \<Longrightarrow> n < 2 ^ 64"
  by (auto simp: parse_u64_def split: option.splits if_splits)

lemma env_var_non_blank: "env_var vars key = Inr v \<Longrightarrow> non_blank v"
  by (auto simp: env_var_def non_blank_def split: option.splits if_splits)

lemma env_or_non_blank: "non_blank dflt \<Longrightarrow> non_blank (env_or vars key dflt)"
  by (auto simp: env_or_def dest: env_var_non_blank split: sum.splits)

lemma non_blank_graphic: "\<forall>c \<in> set s. graphic c \<Longrightarrow> s \<noteq> [] \<Longrightarrow> non_blank s"
  by (simp add: non_blank_def trim_graphic)

lemma api_key_entry_clean:
  assumes "p \<in> set (api_key_parts raw)" and "api_key_entry p = (k, t)"
  shows "trim k = k \<and> trim t = t \<and> CHR '','' \<notin> set k \<union> set t \<and> CHR ''='' \<notin> set k"
proof -
  from assms(1) obtain x where x: "x \<in> set (split_on (CHR '','') raw)" "p = trim x" by (auto simp: api_key_parts_def)
  have comma: "CHR '','' \<notin> set p" using split_on_no_sep [OF x(1)] set_trim [of x] x(2) by blast
  show ?thesis
  proof (cases "split_once (CHR ''='') p")
    case None
    with assms(2) have kt: "k = p" "t = []" by (simp_all add: api_key_entry_def)
    have "trim ([] :: string) = []" using trim_graphic [of "[]"] by simp
    with kt None comma x(2) show ?thesis by (simp add: split_once_None)
  next
    case (Some ab)
    obtain a b where ab: "ab = (a, b)" by force
    with Some have p: "p = a @ CHR ''='' # b" "CHR ''='' \<notin> set a" by (simp_all add: split_once_Some)
    have "k = trim a" "t = trim b" using assms(2) Some ab by (simp_all add: api_key_entry_def)
    with p comma set_trim [of a] set_trim [of b] show ?thesis by auto
  qed
qed

lemma parse_api_keys_entries: "(k, t) \<in> set (parse_api_keys raw) \<Longrightarrow> \<exists>p \<in> set (api_key_parts raw). api_key_entry p = (k, t)"
proof -
  assume kt: "(k, t) \<in> set (parse_api_keys raw)"
  have "map_of (parse_api_keys raw) k = Some t" by (rule map_of_is_SomeI [OF distinct_parse_api_keys kt])
  then have "(k, t) \<in> set (rev (map api_key_entry (api_key_parts raw)))"
    unfolding parse_api_keys_lookup by (rule map_of_SomeD)
  then show ?thesis by (auto intro: HOL.sym)
qed

lemma setting_ranges:
  "- (2 ^ 63) \<le> (case x of Inr v \<Rightarrow> (case parse_i64 v of Some n \<Rightarrow> n | None \<Rightarrow> 90) | Inl _ \<Rightarrow> 90)"
  "(case x of Inr v \<Rightarrow> (case parse_i64 v of Some n \<Rightarrow> n | None \<Rightarrow> 90) | Inl _ \<Rightarrow> 90) < 2 ^ 63"
  "(case x of Inr v \<Rightarrow> (case parse_u64 v of Some n \<Rightarrow> n | None \<Rightarrow> 21600) | Inl _ \<Rightarrow> 21600) < 2 ^ 64"
  by (auto dest: parse_i64_range parse_u64_range split: sum.splits option.splits)

lemma callback_setting:
  "pred_option non_blank (case env_var vars key of Inr v \<Rightarrow> if trim v \<noteq> [] then Some v else None | Inl _ \<Rightarrow> None)"
  by (auto simp: non_blank_def split: sum.splits)

lemma default_settings_non_blank:
  "non_blank ''http://localhost''" "non_blank COMMON_AUTH_URL" "non_blank COMMON_TOKEN_URL"
  "non_blank GRAPH_BASE_URL" "non_blank ''./unimail.db''" "non_blank ''default''" "non_blank ''0.0.0.0:8080''"
  by (rule non_blank_graphic; simp add: COMMON_AUTH_URL_def COMMON_TOKEN_URL_def GRAPH_BASE_URL_def graphic_def)+

lemma from_env_ok: "from_env E vars = Inr C \<Longrightarrow> config_ok C"
proof -
  assume run: "from_env E vars = Inr C"
  then obtain cid secret raw key where r: "env_var vars ''CLIENT_ID'' = Inr cid"
    "env_var vars ''CLIENT_SECRET'' = Inr secret" "env_var vars ''ENCRYPTION_KEY'' = Inr raw" "parse_key E raw = Inr key"
    by (auto simp: from_env_def split: sum.splits)
  let ?ks = "parse_api_keys (env_or vars ''API_KEYS'' [])"
  have entries: "\<forall>(k, t) \<in> set ?ks. trim k = k \<and> trim t = t \<and> CHR '','' \<notin> set k \<union> set t \<and> CHR ''='' \<notin> set k"
    using parse_api_keys_entries api_key_entry_clean by fast
  from run r have C: "C = \<lparr>client_id = cid, client_secret = secret,
         redirect_uri = env_or vars ''REDIRECT_URI'' ''http://localhost'',
         auth_url = env_or vars ''AUTH_URL'' COMMON_AUTH_URL,
         token_url = env_or vars ''TOKEN_URL'' COMMON_TOKEN_URL,
         graph_base_url = env_or vars ''GRAPH_BASE_URL'' GRAPH_BASE_URL,
         encryption_key = key,
         database_path = env_or vars ''DATABASE_PATH'' ''./unimail.db'',
         api_keys = ?ks,
         default_tenant_id = env_or vars ''DEFAULT_TENANT_ID'' ''default'',
         api_bind_addr = env_or vars ''API_BIND_ADDR'' ''0.0.0.0:8080'',
         callback_bind_addr = callback_bind_addr C, token_inactivity_days = token_inactivity_days C,
         refresh_interval_secs = refresh_interval_secs C\<rparr>"
    and cb: "pred_option non_blank (callback_bind_addr C)"
    and days: "- (2 ^ 63) \<le> token_inactivity_days C" "token_inactivity_days C < 2 ^ 63"
    and secs: "refresh_interval_secs C < 2 ^ 64"
    using setting_ranges callback_setting by (auto simp: from_env_def)
  have ks: "api_keys C = ?ks" and key: "encryption_key C = key" by (subst C, simp)+
  have texts: "\<forall>s \<in> {client_id C, client_secret C, redirect_uri C, auth_url C, token_url C, graph_base_url C,
        database_path C, default_tenant_id C, api_bind_addr C}. non_blank s"
    by (subst (1 2 3 4 5 6 7 8 9) C)
      (simp add: default_settings_non_blank env_or_non_blank env_var_non_blank [OF r(1)] env_var_non_blank [OF r(2)])
  show ?thesis unfolding config_ok_def
    using texts cb days secs entries distinct_parse_api_keys parse_key_length [OF r(4)] ks key by simp
qed

text \<open>Settings of \<open>API_KEYS\<close> that are not blank and still leave the API open, or open to an empty key.\<close>

lemma api_keys_separators_open: "parse_api_keys '',,'' = []"
  by (simp add: parse_api_keys_def api_key_parts_def trim_def trim_start_def trim_end_def strip_all_def)

lemma api_keys_empty_key: "parse_api_keys ''=acme'' = [([], ''acme'')]"
  by (simp add: parse_api_keys_def api_key_parts_def trim_graphic graphic_def api_key_entry_def)

end
