(* ===== verification/OAuth.thy ===== *)
theory OAuth
  imports Configuration
begin

text \<open>
  \<open>src/auth/oauth.rs\<close>: the OAuth client. The protocol itself is the \<open>oauth2\<close> crate's
  (\<open>auth_link\<close> and \<open>idp\<close> of the environment); modelled here are the configuration of the
  client, the scopes, the error each step reports and the mapping of the answer.
\<close>

definition SCOPES :: "string list" where
  "SCOPES = [''offline_access'', ''User.Read'', ''Mail.Read'', ''Mail.ReadWrite'', ''Mail.Send'',
     ''openid'', ''profile'', ''email'']"

record token_set =
  ts_access :: string
  ts_refresh :: "string option"
  ts_expires :: "int option"
  ts_scopes :: "string list option"

text \<open>\<open>OAuthClient::client\<close>.\<close>

definition oauth_client :: "env \<Rightarrow> config \<Rightarrow> oauth_config result" where
  "oauth_client E C =
     (case parse_url E (auth_url C) of
        Inl e \<Rightarrow> Inl (Config (''invalid AUTH_URL: '' @ e))
      | Inr auth \<Rightarrow>
     (case parse_url E (token_url C) of
        Inl e \<Rightarrow> Inl (Config (''invalid TOKEN_URL: '' @ e))
      | Inr token \<Rightarrow>
     (case parse_url E (redirect_uri C) of
        Inl e \<Rightarrow> Inl (Config (''invalid REDIRECT_URI: '' @ e))
      | Inr redirect \<Rightarrow>
        Inr \<lparr>oc_client_id = client_id C, oc_client_secret = client_secret C,
             oc_auth_url = auth, oc_token_url = token, oc_redirect = redirect\<rparr>)))"

text \<open>\<open>authorize_url\<close>: the consent URL, the PKCE verifier, the CSRF state.\<close>

definition authorize_url :: "env \<Rightarrow> config \<Rightarrow> world \<Rightarrow> (url \<times> string \<times> string) result \<times> world" where
  "authorize_url E C w =
     (let (challenge, verifier) = pkces E (tick w); w = tock w
      in case oauth_client E C of
           Inl e \<Rightarrow> (Inl e, w)
         | Inr client \<Rightarrow>
             (let csrf = csrfs E (tick w)
              in (Inr (auth_link E client SCOPES challenge csrf, verifier, csrf), tock w)))"

text \<open>\<open>token_set_from\<close>: the expiry counts from now; a lifetime that \<open>chrono\<close> cannot hold is taken
  for an hour. The addition panics when it leaves the range of \<open>DateTime\<close>: \<open>token_set_from_checked\<close> is
  \<open>None\<close> then. The operations below use \<open>token_set_from\<close>, which adds without bound; the two agree on the
  answers \<open>idp_ok\<close> admits (\<open>answers_never_panic\<close>).\<close>

definition HOUR :: int where
  "HOUR = 3600 * 10 ^ 9"

definition token_set_from :: "env \<Rightarrow> token_response \<Rightarrow> world \<Rightarrow> token_set \<times> world" where
  "token_set_from E response w =
     (let (expires, w) =
        (case tp_expires_in response of
           None \<Rightarrow> (None, w)
         | Some d \<Rightarrow>
             (let (t, w) = utc_now E w
              in (Some (t + (case chrono_from_std E d of Some s \<Rightarrow> s | None \<Rightarrow> HOUR)), w)))
      in (\<lparr>ts_access = tp_access response, ts_refresh = tp_refresh response,
           ts_expires = expires, ts_scopes = tp_scopes response\<rparr>, w))"

definition token_set_from_checked :: "env \<Rightarrow> token_response \<Rightarrow> world \<Rightarrow> (token_set \<times> world) option" where
  "token_set_from_checked E response w =
     (case tp_expires_in response of
        None \<Rightarrow> Some (\<lparr>ts_access = tp_access response, ts_refresh = tp_refresh response,
           ts_expires = None, ts_scopes = tp_scopes response\<rparr>, w)
      | Some d \<Rightarrow>
          (let (t, w) = utc_now E w
           in case utc_plus E t (case chrono_from_std E d of Some s \<Rightarrow> s | None \<Rightarrow> HOUR) of
                None \<Rightarrow> None
              | Some e \<Rightarrow> Some (\<lparr>ts_access = tp_access response, ts_refresh = tp_refresh response,
                  ts_expires = Some e, ts_scopes = tp_scopes response\<rparr>, w)))"

text \<open>Additions whose sum lies in \<open>T\<close> do not panic.\<close>

definition utc_plus_ok :: "env \<Rightarrow> (int \<Rightarrow> bool) \<Rightarrow> bool" where
  "utc_plus_ok E T \<longleftrightarrow> (\<forall>t d. T (t + d) \<longrightarrow> utc_plus E t d = Some (t + d))"

lemma token_set_from_checked_eq:
  assumes "utc_plus_ok E T"
    and "\<And>d. tp_expires_in response = Some d \<Longrightarrow>
      T (clock E (tick w) + (case chrono_from_std E d of Some s \<Rightarrow> s | None \<Rightarrow> HOUR))"
  shows "token_set_from_checked E response w = Some (token_set_from E response w)"
  using assms
  by (cases "tp_expires_in response") (simp_all add: token_set_from_checked_def token_set_from_def utc_now_def utc_plus_ok_def)

lemma token_set_from_panics:
  assumes "tp_expires_in response = Some d" and "chrono_from_std E d = Some s" and "utc_plus E (clock E (tick w)) s = None"
  shows "token_set_from_checked E response w = None"
  using assms by (simp add: token_set_from_checked_def utc_now_def)

definition exchange_code ::
    "env \<Rightarrow> config \<Rightarrow> string \<Rightarrow> string \<Rightarrow> world \<Rightarrow> token_set result \<times> world" where
  "exchange_code E C code verifier w =
     (case oauth_client E C of
        Inl e \<Rightarrow> (Inl e, w)
      | Inr client \<Rightarrow>
          (case call_idp E (ExchangeCode client code verifier) w of
             (Inl e, w) \<Rightarrow> (Inl (Auth (''token exchange failed: '' @ e)), w)
           | (Inr response, w) \<Rightarrow> (let (ts, w) = token_set_from E response w in (Inr ts, w))))"

definition refresh_tokens :: "env \<Rightarrow> config \<Rightarrow> string \<Rightarrow> world \<Rightarrow> token_set result \<times> world" where
  "refresh_tokens E C refresh_token w =
     (case oauth_client E C of
        Inl e \<Rightarrow> (Inl e, w)
      | Inr client \<Rightarrow>
          (case call_idp E (ExchangeRefresh client refresh_token) w of
             (Inl e, w) \<Rightarrow> (Inl (TokenExpired (''refresh failed: '' @ e)), w)
           | (Inr response, w) \<Rightarrow> (let (ts, w) = token_set_from E response w in (Inr ts, w))))"

lemma token_set_from_frame [simp]:
  "db (snd (token_set_from E r w)) = db w" "wire (snd (token_set_from E r w)) = wire w"
  by (simp_all add: token_set_from_def utc_now_def Let_def split: option.splits)

lemma token_set_from_fields [simp]:
  "ts_access (fst (token_set_from E r w)) = tp_access r"
  "ts_refresh (fst (token_set_from E r w)) = tp_refresh r"
  "ts_scopes (fst (token_set_from E r w)) = tp_scopes r"
  by (simp_all add: token_set_from_def utc_now_def Let_def split: option.splits)

lemma token_set_from_expires:
  "ts_expires (fst (token_set_from E r w)) =
     map_option (\<lambda>d. clock E (tick w) + (case chrono_from_std E d of Some s \<Rightarrow> s | None \<Rightarrow> HOUR))
       (tp_expires_in r)"
  by (simp add: token_set_from_def utc_now_def Let_def split: option.splits)

text \<open>Neither token request touches the database, and each sends at most one message.\<close>

lemma exchange_code_frame:
  "db (snd (exchange_code E C code v w)) = db w"
  "wire (snd (exchange_code E C code v w)) = wire w @
     (case oauth_client E C of Inl _ \<Rightarrow> [] | Inr cl \<Rightarrow> [ToIdp (ExchangeCode cl code v)])"
  by (auto simp: exchange_code_def call_idp_def case_prod_unfold Let_def split: sum.splits)

lemma refresh_tokens_frame:
  "db (snd (refresh_tokens E C rt w)) = db w"
  "wire (snd (refresh_tokens E C rt w)) = wire w @
     (case oauth_client E C of Inl _ \<Rightarrow> [] | Inr cl \<Rightarrow> [ToIdp (ExchangeRefresh cl rt)])"
  by (auto simp: refresh_tokens_def call_idp_def case_prod_unfold Let_def split: sum.splits)

lemma refresh_tokens_Inr:
  assumes "fst (refresh_tokens E C rt w) = Inr ts"
  shows "\<exists>cl resp. oauth_client E C = Inr cl \<and> idp E (tick w) (ExchangeRefresh cl rt) = Inr resp \<and>
    ts_access ts = tp_access resp \<and> ts_refresh ts = tp_refresh resp \<and> ts_scopes ts = tp_scopes resp \<and>
    ts_expires ts = map_option (\<lambda>d. clock E (Suc (tick w)) +
      (case chrono_from_std E d of Some s \<Rightarrow> s | None \<Rightarrow> HOUR)) (tp_expires_in resp)"
  using assms
  by (auto simp: refresh_tokens_def call_idp_def case_prod_unfold Let_def token_set_from_expires
      split: sum.splits)

lemma exchange_code_Inr:
  assumes "fst (exchange_code E C code v w) = Inr ts"
  shows "\<exists>cl resp. oauth_client E C = Inr cl \<and> idp E (tick w) (ExchangeCode cl code v) = Inr resp \<and>
    ts_access ts = tp_access resp \<and> ts_refresh ts = tp_refresh resp \<and> ts_scopes ts = tp_scopes resp \<and>
    ts_expires ts = map_option (\<lambda>d. clock E (Suc (tick w)) +
      (case chrono_from_std E d of Some s \<Rightarrow> s | None \<Rightarrow> HOUR)) (tp_expires_in resp)"
  using assms
  by (auto simp: exchange_code_def call_idp_def case_prod_unfold Let_def token_set_from_expires
      split: sum.splits)

lemma refresh_tokens_Inl:
  "fst (refresh_tokens E C rt w) = Inl e \<Longrightarrow>
   (\<exists>m. e = Config m) \<or> (\<exists>m. e = TokenExpired (''refresh failed: '' @ m))"
  by (auto simp: refresh_tokens_def oauth_client_def call_idp_def case_prod_unfold Let_def split: sum.splits)

lemma authorize_url_frame [simp]:
  "db (snd (authorize_url E C w)) = db w" "wire (snd (authorize_url E C w)) = wire w"
  by (simp_all add: authorize_url_def case_prod_unfold Let_def split: sum.splits)

end
