(* ===== verification/Crypto.thy ===== *)
theory Crypto
  imports World
begin

text \<open>
  \<open>src/storage/crypto.rs\<close>: a blob is the 12-byte nonce followed by ciphertext and tag. The
  cipher itself is \<open>aead_seal\<close> and \<open>aead_open\<close> of the environment.
\<close>

definition NONCE_LEN :: nat where
  "NONCE_LEN = 12"

definition encrypt :: "env \<Rightarrow> bytes \<Rightarrow> bytes \<Rightarrow> world \<Rightarrow> (string + bytes) \<times> world" where
  "encrypt E key plaintext w =
     (let nonce_bytes = nonces E (tick w); w = tock w
      in case aead_seal E key nonce_bytes plaintext of
           Inl e \<Rightarrow> (Inl e, w)
         | Inr ciphertext \<Rightarrow> (Inr (nonce_bytes @ ciphertext), w))"

definition decrypt :: "env \<Rightarrow> bytes \<Rightarrow> bytes \<Rightarrow> string + bytes" where
  "decrypt E key blob =
     (if length blob \<le> NONCE_LEN then Inl ''ciphertext is too short to contain a nonce''
      else aead_open E key (take NONCE_LEN blob) (drop NONCE_LEN blob))"

lemma encrypt_frame [simp]:
  "db (snd (encrypt E k p w)) = db w" "wire (snd (encrypt E k p w)) = wire w"
  "tick (snd (encrypt E k p w)) = Suc (tick w)"
  by (simp_all add: encrypt_def Let_def split: sum.splits)

lemma encrypt_Inr:
  "fst (encrypt E k p w) = Inr b \<longleftrightarrow>
     (\<exists>c. aead_seal E k (nonces E (tick w)) p = Inr c \<and> b = nonces E (tick w) @ c)"
  by (auto simp: encrypt_def Let_def split: sum.splits)

text \<open>What \<open>encrypt\<close> wrote, \<open>decrypt\<close> reads back under the same key.\<close>

lemma decrypt_encrypt:
  assumes "aead_ok E" and "fst (encrypt E k p w) = Inr blob"
  shows "decrypt E k blob = Inr p"
proof -
  from assms(2) obtain c where c: "aead_seal E k (nonces E (tick w)) p = Inr c"
    and blob: "blob = nonces E (tick w) @ c" by (auto simp: encrypt_Inr)
  from assms(1) c have "length (nonces E (tick w)) = 12" "length c = length p + 16"
    "aead_open E k (nonces E (tick w)) c = Inr p" by (auto simp: aead_ok_def)
  with blob show ?thesis by (simp add: decrypt_def NONCE_LEN_def)
qed

lemma encrypt_length:
  assumes "aead_ok E" and "fst (encrypt E k p w) = Inr blob"
  shows "length blob = length p + 28"
  using assms by (auto simp: encrypt_Inr aead_ok_def)

text \<open>Blobs under different nonces differ, whatever was encrypted.\<close>

lemma encrypt_distinct:
  assumes "aead_ok E" and "nonces E (tick w) \<noteq> nonces E (tick w')"
    and "fst (encrypt E k p w) = Inr b" and "fst (encrypt E k' p' w') = Inr b'"
  shows "b \<noteq> b'"
proof
  assume "b = b'"
  with assms(3,4) have "take 12 (nonces E (tick w) @ drop 12 b) = take 12 b'"
    and "take 12 b = nonces E (tick w)" and "take 12 b' = nonces E (tick w')"
    using assms(1) by (auto simp: encrypt_Inr aead_ok_def)
  with \<open>b = b'\<close> assms(2) show False by simp
qed

end
