(* ===== verification/Db.thy ===== *)
theory Db
  imports Crypto
begin

text \<open>
  \<open>src/storage/db.rs\<close>: the schema and its constraints, the lock around the connection, and
  the SQL statements of the three stores as functions on the tables. A table is the list of
  its rows in rowid order, which is also the order in which a \<open>SELECT\<close> without \<open>ORDER BY\<close>
  gives them. A statement either runs and gives its result, or fails and changes nothing: with the engine's error when \<open>faults\<close> says so, or with the constraint it violates.
  The schema's constraints are the invariant \<open>wf_db\<close>.
\<close>

datatype sql_error = ConstraintViolation string | SqlFailure string

fun sql_error_text :: "sql_error \<Rightarrow> string" where
  "sql_error_text (ConstraintViolation m) = m"
| "sql_error_text (SqlFailure m) = m"

definition storage_error :: "sql_error \<Rightarrow> app_error" where
  "storage_error e = Storage (sql_error_text e)"

definition lock_poisoned :: string where
  "lock_poisoned = ''database lock poisoned''"

section \<open>Running statements\<close>

text \<open>One statement: the engine's schedule decides whether it fails.\<close>

definition exec_sql ::
    "(database \<Rightarrow> (sql_error + 'a) \<times> database) \<Rightarrow> database \<Rightarrow> (sql_error + 'a) \<times> database" where
  "exec_sql stmt d =
     (case faults d of
        [] \<Rightarrow> stmt d
      | None # fs \<Rightarrow> stmt (d\<lparr>faults := fs\<rparr>)
      | Some m # fs \<Rightarrow> (Inl (SqlFailure m), d\<lparr>faults := fs\<rparr>))"

text \<open>\<open>conn.lock().map_err(...)?\<close>, then the critical section.\<close>

definition with_lock :: "(database \<Rightarrow> 'a result \<times> database) \<Rightarrow> database \<Rightarrow> 'a result \<times> database" where
  "with_lock body d =
     (if poisoned d then (Inl (Storage lock_poisoned), d) else body d)"

text \<open>\<open>conn.execute(...).map_err(|e| AppError::Storage(e.to_string()))\<close>.\<close>

definition run_sql ::
    "(database \<Rightarrow> (sql_error + 'a) \<times> database) \<Rightarrow> database \<Rightarrow> 'a result \<times> database" where
  "run_sql stmt d = (let (r, d) = exec_sql stmt d in (map_err storage_error r, d))"

section \<open>Statements on \<open>accounts\<close>\<close>

text \<open>\<open>INSERT INTO accounts\<close>, with \<open>PRIMARY KEY (id)\<close> and \<open>UNIQUE (tenant_id, email_address)\<close>.\<close>

definition insert_account :: "account_row \<Rightarrow> database \<Rightarrow> (sql_error + unit) \<times> database" where
  "insert_account r d =
     (if \<exists>q \<in> set (accounts d). ar_id q = ar_id r then
        (Inl (ConstraintViolation ''UNIQUE constraint failed: accounts.id''), d)
      else if \<exists>q \<in> set (accounts d). ar_tenant q = ar_tenant r \<and> ar_email q = ar_email r then
        (Inl (ConstraintViolation
           ''UNIQUE constraint failed: accounts.tenant_id, accounts.email_address''), d)
      else (Inr (), d\<lparr>accounts := accounts d @ [r]\<rparr>))"

definition select_accounts ::
    "(account_row \<Rightarrow> bool) \<Rightarrow> database \<Rightarrow> (sql_error + account_row list) \<times> database" where
  "select_accounts P d = (Inr (filter P (accounts d)), d)"

text \<open>\<open>ORDER BY updated_at DESC\<close>: descending by the bytes of the text, rows with the same text
  in rowid order.\<close>

fun insert_desc :: "account_row \<Rightarrow> account_row list \<Rightarrow> account_row list" where
  "insert_desc r [] = [r]"
| "insert_desc r (q # qs) =
     (if ar_updated r \<ge> ar_updated q then r # q # qs else q # insert_desc r qs)"

definition order_updated_desc :: "account_row list \<Rightarrow> account_row list" where
  "order_updated_desc rs = foldr insert_desc rs []"

definition update_status ::
    "string \<Rightarrow> string \<Rightarrow> string \<Rightarrow> string \<Rightarrow> database \<Rightarrow> (sql_error + nat) \<times> database" where
  "update_status status now_text tenant i d =
     (let P = (\<lambda>r. ar_tenant r = tenant \<and> ar_id r = i)
      in (Inr (length (filter P (accounts d))),
          d\<lparr>accounts := map (\<lambda>r. if P r then r\<lparr>ar_status := status, ar_updated := now_text\<rparr> else r)
              (accounts d)\<rparr>))"

definition update_touch :: "string \<Rightarrow> string \<Rightarrow> database \<Rightarrow> (sql_error + nat) \<times> database" where
  "update_touch now_text i d =
     (Inr (length (filter (\<lambda>r. ar_id r = i) (accounts d))),
      d\<lparr>accounts := map (\<lambda>r. if ar_id r = i then r\<lparr>ar_updated := now_text\<rparr> else r) (accounts d)\<rparr>)"

text \<open>\<open>DELETE FROM accounts\<close>; \<open>ON DELETE CASCADE\<close> takes the tokens of the rows along.\<close>

definition delete_account :: "string \<Rightarrow> string \<Rightarrow> database \<Rightarrow> (sql_error + nat) \<times> database" where
  "delete_account tenant i d =
     (let P = (\<lambda>r. ar_tenant r = tenant \<and> ar_id r = i);
          gone = map ar_id (filter P (accounts d))
      in (Inr (length gone),
          d\<lparr>accounts := filter (\<lambda>r. \<not> P r) (accounts d),
            tokens := filter (\<lambda>t. tr_account t \<notin> set gone) (tokens d)\<rparr>))"

section \<open>Statements on \<open>tokens\<close>\<close>

text \<open>\<open>INSERT ... ON CONFLICT(account_id) DO UPDATE\<close>, with the foreign key to \<open>accounts\<close>.\<close>

definition upsert_token :: "token_row \<Rightarrow> database \<Rightarrow> (sql_error + unit) \<times> database" where
  "upsert_token t d =
     (if \<exists>q \<in> set (tokens d). tr_account q = tr_account t then
        (Inr (), d\<lparr>tokens := map (\<lambda>q. if tr_account q = tr_account t then t else q) (tokens d)\<rparr>)
      else if \<exists>r \<in> set (accounts d). ar_id r = tr_account t then
        (Inr (), d\<lparr>tokens := tokens d @ [t]\<rparr>)
      else (Inl (ConstraintViolation ''FOREIGN KEY constraint failed''), d))"

definition select_token :: "string \<Rightarrow> database \<Rightarrow> (sql_error + token_row option) \<times> database" where
  "select_token i d = (Inr (List.find (\<lambda>t. tr_account t = i) (tokens d)), d)"

definition delete_token :: "string \<Rightarrow> database \<Rightarrow> (sql_error + unit) \<times> database" where
  "delete_token i d = (Inr (), d\<lparr>tokens := filter (\<lambda>t. tr_account t \<noteq> i) (tokens d)\<rparr>)"

definition select_inactive :: "string \<Rightarrow> database \<Rightarrow> (sql_error + string list) \<times> database" where
  "select_inactive cutoff d =
     (Inr (map tr_account (filter
        (\<lambda>t. case tr_last_used t of None \<Rightarrow> True | Some u \<Rightarrow> u < cutoff) (tokens d))), d)"

section \<open>Statements on \<open>oauth_flows\<close>\<close>

definition purge_flows :: "int \<Rightarrow> database \<Rightarrow> (sql_error + unit) \<times> database" where
  "purge_flows limit d = (Inr (), d\<lparr>oauth_flows := filter (\<lambda>f. \<not> fr_created f \<le> limit) (oauth_flows d)\<rparr>)"

definition insert_flow :: "flow_row \<Rightarrow> database \<Rightarrow> (sql_error + unit) \<times> database" where
  "insert_flow f d =
     (if \<exists>g \<in> set (oauth_flows d). fr_state g = fr_state f then
        (Inl (ConstraintViolation ''UNIQUE constraint failed: oauth_flows.state''), d)
      else (Inr (), d\<lparr>oauth_flows := oauth_flows d @ [f]\<rparr>))"

definition select_flow :: "string \<Rightarrow> database \<Rightarrow> (sql_error + flow_row option) \<times> database" where
  "select_flow s d = (Inr (List.find (\<lambda>f. fr_state f = s) (oauth_flows d)), d)"

definition delete_flow :: "string \<Rightarrow> database \<Rightarrow> (sql_error + unit) \<times> database" where
  "delete_flow s d = (Inr (), d\<lparr>oauth_flows := filter (\<lambda>f. fr_state f \<noteq> s) (oauth_flows d)\<rparr>)"

lemmas stmt_defs = insert_account_def select_accounts_def update_status_def update_touch_def
  delete_account_def upsert_token_def select_token_def delete_token_def select_inactive_def
  purge_flows_def insert_flow_def select_flow_def delete_flow_def

section \<open>Opening the database\<close>

text \<open>\<open>Database::open\<close>. The file is \<open>None\<close> before the first migration, else its tables: every
  statement of the schema is \<open>IF NOT EXISTS\<close>, so \<open>migrate\<close> keeps what is there.\<close>

definition empty_tables :: tables where
  "empty_tables = \<lparr>accounts = [], tokens = [], oauth_flows = []\<rparr>"

definition with_tables :: "tables \<Rightarrow> string option list \<Rightarrow> database" where
  "with_tables t fs = \<lparr>accounts = accounts t, tokens = tokens t, oauth_flows = oauth_flows t,
     faults = fs, poisoned = False\<rparr>"

definition migrate :: "tables option \<Rightarrow> tables" where
  "migrate file = (case file of None \<Rightarrow> empty_tables | Some t \<Rightarrow> t)"

text \<open>Three things can fail: opening the file, the pragmas, the migration.\<close>

fun open_db :: "tables option \<Rightarrow> string option list \<Rightarrow> database result" where
  "open_db file (Some m # fs) = Inl (Storage m)"
| "open_db file (None # Some m # fs) = Inl (Storage m)"
| "open_db file (None # None # Some m # fs) = Inl (Storage (''migration failed: '' @ m))"
| "open_db file (None # None # None # fs) = Inr (with_tables (migrate file) fs)"
| "open_db file _ = Inr (with_tables (migrate file) [])"

section \<open>The invariant of the schema\<close>

definition wf_tables :: "'a tables_scheme \<Rightarrow> bool" where
  "wf_tables d \<longleftrightarrow>
     distinct (map ar_id (accounts d)) \<and>
     distinct (map (\<lambda>r. (ar_tenant r, ar_email r)) (accounts d)) \<and>
     distinct (map tr_account (tokens d)) \<and>
     set (map tr_account (tokens d)) \<subseteq> set (map ar_id (accounts d)) \<and>
     distinct (map fr_state (oauth_flows d))"

definition wf_db :: "database \<Rightarrow> bool" where
  "wf_db d \<longleftrightarrow> wf_tables d"

lemma wf_dbD:
  assumes "wf_db d"
  shows wf_ids: "distinct (map ar_id (accounts d))"
    and wf_emails: "distinct (map (\<lambda>r. (ar_tenant r, ar_email r)) (accounts d))"
    and wf_token_ids: "distinct (map tr_account (tokens d))"
    and wf_fk: "t \<in> set (tokens d) \<Longrightarrow> \<exists>r \<in> set (accounts d). ar_id r = tr_account t"
    and wf_states: "distinct (map fr_state (oauth_flows d))"
proof -
  from assms show "distinct (map ar_id (accounts d))"
    "distinct (map (\<lambda>r. (ar_tenant r, ar_email r)) (accounts d))"
    "distinct (map tr_account (tokens d))" "distinct (map fr_state (oauth_flows d))"
    by (simp_all add: wf_db_def wf_tables_def)
next
  assume "t \<in> set (tokens d)"
  with assms have "tr_account t \<in> ar_id ` set (accounts d)"
    unfolding wf_db_def wf_tables_def by auto
  then show "\<exists>r \<in> set (accounts d). ar_id r = tr_account t" by auto
qed

text \<open>The invariant only depends on the key columns.\<close>

lemma wf_db_cong:
  assumes "map ar_id (accounts d') = map ar_id (accounts d)"
    and "map (\<lambda>r. (ar_tenant r, ar_email r)) (accounts d') = map (\<lambda>r. (ar_tenant r, ar_email r)) (accounts d)"
    and "map tr_account (tokens d') = map tr_account (tokens d)"
    and "map fr_state (oauth_flows d') = map fr_state (oauth_flows d)"
  shows "wf_db d' = wf_db d"
  unfolding wf_db_def wf_tables_def assms ..

lemma wf_db_faults [simp]: "wf_db (d\<lparr>faults := fs\<rparr>) = wf_db d"
  by (simp add: wf_db_def wf_tables_def)

lemma wf_insert_account [preserve]: "wf_db d \<Longrightarrow> wf_db (snd (insert_account r d))"
  by (auto simp: wf_db_def wf_tables_def insert_account_def)

lemma wf_update_status [preserve]: "wf_db d \<Longrightarrow> wf_db (snd (update_status s n t i d))"
  by (subst wf_db_cong [where d = d]) (simp_all add: update_status_def Let_def)

lemma wf_update_touch [preserve]: "wf_db d \<Longrightarrow> wf_db (snd (update_touch n i d))"
  by (subst wf_db_cong [where d = d]) (simp_all add: update_touch_def Let_def)

lemma wf_delete_account [preserve]: "wf_db d \<Longrightarrow> wf_db (snd (delete_account t i d))"
  by (auto simp: wf_db_def wf_tables_def delete_account_def Let_def distinct_map_filterI subset_iff image_iff)

lemma wf_upsert_token [preserve]: "wf_db d \<Longrightarrow> wf_db (snd (upsert_token t d))"
proof (cases "\<exists>q \<in> set (tokens d). tr_account q = tr_account t")
  case True
  assume "wf_db d"
  with True show ?thesis
    by (subst wf_db_cong [where d = d]) (simp_all add: upsert_token_def)
next
  case False
  assume "wf_db d"
  with False show ?thesis
    by (auto simp: wf_db_def wf_tables_def upsert_token_def intro: rev_image_eqI)
qed

lemma wf_delete_token [preserve]: "wf_db d \<Longrightarrow> wf_db (snd (delete_token i d))"
  by (auto simp: wf_db_def wf_tables_def delete_token_def distinct_map_filterI)

lemma wf_purge_flows [preserve]: "wf_db d \<Longrightarrow> wf_db (snd (purge_flows l d))"
  by (auto simp: wf_db_def wf_tables_def purge_flows_def distinct_map_filterI)

lemma wf_insert_flow [preserve]: "wf_db d \<Longrightarrow> wf_db (snd (insert_flow f d))"
  by (auto simp: wf_db_def wf_tables_def insert_flow_def)

lemma wf_delete_flow [preserve]: "wf_db d \<Longrightarrow> wf_db (snd (delete_flow s d))"
  by (auto simp: wf_db_def wf_tables_def delete_flow_def distinct_map_filterI)

lemma wf_select [preserve]:
  "wf_db d \<Longrightarrow> wf_db (snd (select_accounts P d))" "wf_db d \<Longrightarrow> wf_db (snd (select_token i d))"
  "wf_db d \<Longrightarrow> wf_db (snd (select_inactive c d))" "wf_db d \<Longrightarrow> wf_db (snd (select_flow s d))"
  by (simp_all add: stmt_defs)

text \<open>The wrappers keep what their statement keeps.\<close>

lemma exec_sql_keeps:
  assumes "\<And>d. P d \<Longrightarrow> P (snd (stmt d))" and "\<And>fs. P (d\<lparr>faults := fs\<rparr>) = P d" and "P d"
  shows "P (snd (exec_sql stmt d))"
  using assms by (auto simp: exec_sql_def split: list.splits option.splits)

lemma snd_run_sql [simp]: "snd (run_sql stmt d) = snd (exec_sql stmt d)"
  by (simp add: run_sql_def case_prod_unfold Let_def)

lemma wf_exec_sql [preserve]:
  "(\<And>d. wf_db d \<Longrightarrow> wf_db (snd (stmt d))) \<Longrightarrow> wf_db d \<Longrightarrow> wf_db (snd (exec_sql stmt d))"
  by (rule exec_sql_keeps) auto

lemma wf_with_lock [preserve]:
  "(wf_db d \<Longrightarrow> wf_db (snd (body d))) \<Longrightarrow> wf_db d \<Longrightarrow> wf_db (snd (with_lock body d))"
  by (simp add: with_lock_def)

section \<open>What a statement does when it runs\<close>

text \<open>\<open>same_tables\<close>: nothing but the schedule moved.\<close>

definition same_tables :: "database \<Rightarrow> database \<Rightarrow> bool" where
  "same_tables d d' \<longleftrightarrow>
     accounts d' = accounts d \<and> tokens d' = tokens d \<and> oauth_flows d' = oauth_flows d \<and>
     poisoned d' = poisoned d"

lemma same_tables_refl [simp]: "same_tables d d"
  by (simp add: same_tables_def)

lemma same_tables_faults [simp]: "same_tables d (d\<lparr>faults := fs\<rparr>)"
  by (simp add: same_tables_def)

lemma same_tables_trans: "same_tables a b \<Longrightarrow> same_tables b c \<Longrightarrow> same_tables a c"
  by (simp add: same_tables_def)

lemma exec_sql_cases:
  assumes "exec_sql stmt d = (r, d')"
  obtains (failed) m fs where "r = Inl (SqlFailure m)" "d' = d\<lparr>faults := fs\<rparr>"
    | (ran) fs where "stmt (d\<lparr>faults := fs\<rparr>) = (r, d')"
proof (cases "faults d")
  case Nil
  then have "d\<lparr>faults := []\<rparr> = d" by simp
  with Nil assms ran[of "[]"] show ?thesis by (simp add: exec_sql_def)
next
  case (Cons f fs)
  with assms failed ran show ?thesis by (cases f) (auto simp: exec_sql_def)
qed

lemma exec_sql_quiet [simp]: "faults d = [] \<Longrightarrow> exec_sql stmt d = stmt d"
  by (simp add: exec_sql_def)

lemma run_sql_quiet: "faults d = [] \<Longrightarrow> run_sql stmt d = (map_err storage_error (fst (stmt d)), snd (stmt d))"
  by (simp add: run_sql_def case_prod_unfold Let_def)

lemma with_lock_ok [simp]: "\<not> poisoned d \<Longrightarrow> with_lock body d = body d"
  by (simp add: with_lock_def)

text \<open>A query leaves the tables alone, and what it returns is what its statement computes.\<close>

lemma query_result:
  assumes "\<And>d. stmt d = (Inr (f d), d)" and "\<And>fs. f (d\<lparr>faults := fs\<rparr>) = f d"
    and "run_sql stmt d = (r, d')"
  shows "same_tables d d' \<and> ((\<exists>m. r = Inl (Storage m)) \<or> r = Inr (f d))"
proof -
  from assms(3) obtain r0 where ex: "exec_sql stmt d = (r0, d')" and r: "r = map_err storage_error r0"
    by (auto simp: run_sql_def case_prod_unfold Let_def prod_eq_iff)
  from ex show ?thesis
    by (cases rule: exec_sql_cases) (use assms(1,2) r in \<open>auto simp: storage_error_def\<close>)
qed

text \<open>An update either failed, and the tables are as before, or ran on the tables as they are.\<close>

lemma update_result:
  assumes "exec_sql stmt d = (r, d')"
    and "\<And>d e d'. stmt d = (Inl e, d') \<Longrightarrow> d' = d"
    and "\<And>fs. stmt (d\<lparr>faults := fs\<rparr>) = (map_prod id (\<lambda>d. d\<lparr>faults := fs\<rparr>) (stmt d))"
  shows "(\<exists>e. r = Inl e \<and> same_tables d d') \<or>
         (\<exists>a fs. r = Inr a \<and> stmt d = (Inr a, snd (stmt d)) \<and> d' = (snd (stmt d))\<lparr>faults := fs\<rparr>)"
  using assms(1)
proof (cases rule: exec_sql_cases)
  case (failed m fs)
  then show ?thesis by simp
next
  case (ran fs)
  then show ?thesis
  proof (cases r)
    case (Inl e)
    with assms(2)[of "d\<lparr>faults := fs\<rparr>" e d'] ran show ?thesis by simp
  next
    case (Inr a)
    with ran assms(3)[of fs] show ?thesis by (cases "stmt d") auto
  qed
qed

lemma stmt_faults:
  "insert_account r (d\<lparr>faults := fs\<rparr>) = map_prod id (\<lambda>d. d\<lparr>faults := fs\<rparr>) (insert_account r d)"
  "update_status s n t i (d\<lparr>faults := fs\<rparr>) = map_prod id (\<lambda>d. d\<lparr>faults := fs\<rparr>) (update_status s n t i d)"
  "update_touch n i (d\<lparr>faults := fs\<rparr>) = map_prod id (\<lambda>d. d\<lparr>faults := fs\<rparr>) (update_touch n i d)"
  "delete_account t i (d\<lparr>faults := fs\<rparr>) = map_prod id (\<lambda>d. d\<lparr>faults := fs\<rparr>) (delete_account t i d)"
  "upsert_token k (d\<lparr>faults := fs\<rparr>) = map_prod id (\<lambda>d. d\<lparr>faults := fs\<rparr>) (upsert_token k d)"
  "delete_token i (d\<lparr>faults := fs\<rparr>) = map_prod id (\<lambda>d. d\<lparr>faults := fs\<rparr>) (delete_token i d)"
  "purge_flows l (d\<lparr>faults := fs\<rparr>) = map_prod id (\<lambda>d. d\<lparr>faults := fs\<rparr>) (purge_flows l d)"
  "insert_flow f (d\<lparr>faults := fs\<rparr>) = map_prod id (\<lambda>d. d\<lparr>faults := fs\<rparr>) (insert_flow f d)"
  "delete_flow st (d\<lparr>faults := fs\<rparr>) = map_prod id (\<lambda>d. d\<lparr>faults := fs\<rparr>) (delete_flow st d)"
  by (auto simp: stmt_defs Let_def)

lemma stmt_err:
  "insert_account r d = (Inl e, d') \<Longrightarrow> d' = d"
  "update_status s n t i d = (Inl e, d') \<Longrightarrow> d' = d"
  "update_touch n i d = (Inl e, d') \<Longrightarrow> d' = d"
  "delete_account t i d = (Inl e, d') \<Longrightarrow> d' = d"
  "upsert_token k d = (Inl e, d') \<Longrightarrow> d' = d"
  "delete_token i d = (Inl e, d') \<Longrightarrow> d' = d"
  "purge_flows l d = (Inl e, d') \<Longrightarrow> d' = d"
  "insert_flow f d = (Inl e, d') \<Longrightarrow> d' = d"
  "delete_flow st d = (Inl e, d') \<Longrightarrow> d' = d"
  by (auto simp: stmt_defs Let_def split: if_splits)

text \<open>The same under the lock, as the stores call them.\<close>

lemma locked_query:
  assumes "\<And>d. stmt d = (Inr (f d), d)" and "\<And>fs. f (d\<lparr>faults := fs\<rparr>) = f d"
    and "with_lock (run_sql stmt) d = (r, d')"
  shows "same_tables d d' \<and> ((\<exists>m. r = Inl (Storage m)) \<or> r = Inr (f d))"
proof (cases "poisoned d")
  case True
  with assms(3) show ?thesis by (auto simp: with_lock_def)
next
  case False
  with assms(3) query_result [OF assms(1,2)] show ?thesis by simp
qed

lemma run_update:
  assumes "run_sql stmt d = (r, d')"
    and "\<And>d e d'. stmt d = (Inl e, d') \<Longrightarrow> d' = d"
    and "\<And>fs. stmt (d\<lparr>faults := fs\<rparr>) = (map_prod id (\<lambda>d. d\<lparr>faults := fs\<rparr>) (stmt d))"
  shows "(\<exists>m. r = Inl (Storage m) \<and> same_tables d d') \<or>
         (\<exists>a fs. r = Inr a \<and> stmt d = (Inr a, snd (stmt d)) \<and> d' = (snd (stmt d))\<lparr>faults := fs\<rparr>)"
proof -
  from assms(1) obtain r0 where ex: "exec_sql stmt d = (r0, d')" and r: "r = map_err storage_error r0"
    by (auto simp: run_sql_def case_prod_unfold Let_def prod_eq_iff)
  have "(\<exists>e. r0 = Inl e \<and> same_tables d d') \<or>
         (\<exists>a fs. r0 = Inr a \<and> stmt d = (Inr a, snd (stmt d)) \<and> d' = (snd (stmt d))\<lparr>faults := fs\<rparr>)"
    by (rule update_result [OF ex]) (use assms(2,3) in blast)+
  with r show ?thesis by (auto simp: storage_error_def)
qed

lemma locked_update:
  assumes "with_lock (run_sql stmt) d = (r, d')"
    and "\<And>d e d'. stmt d = (Inl e, d') \<Longrightarrow> d' = d"
    and "\<And>fs. stmt (d\<lparr>faults := fs\<rparr>) = (map_prod id (\<lambda>d. d\<lparr>faults := fs\<rparr>) (stmt d))"
  shows "(\<exists>m. r = Inl (Storage m) \<and> same_tables d d') \<or>
         (\<exists>a fs. r = Inr a \<and> stmt d = (Inr a, snd (stmt d)) \<and> d' = (snd (stmt d))\<lparr>faults := fs\<rparr>)"
proof (cases "poisoned d")
  case True
  with assms(1) show ?thesis by (auto simp: with_lock_def)
next
  case False
  with assms(1) have "run_sql stmt d = (r, d')" by simp
  then show ?thesis by (rule run_update) (use assms(2,3) in blast)+
qed

lemma wf_locked_sql [preserve]:
  "(\<And>d. wf_db d \<Longrightarrow> wf_db (snd (stmt d))) \<Longrightarrow> wf_db d \<Longrightarrow> wf_db (snd (with_lock (run_sql stmt) d))"
  by (simp add: wf_with_lock wf_exec_sql)

section \<open>Ordering\<close>

lemma set_insert_desc [simp]: "set (insert_desc r rs) = insert r (set rs)"
  by (induction rs) auto

lemma set_order_updated_desc [simp]: "set (order_updated_desc rs) = set rs"
  by (induction rs) (auto simp: order_updated_desc_def)

lemma sorted_insert_desc:
  "sorted_wrt (\<lambda>a b. ar_updated a \<ge> ar_updated b) rs \<Longrightarrow>
   sorted_wrt (\<lambda>a b. ar_updated a \<ge> ar_updated b) (insert_desc r rs)"
  by (induction rs) auto

lemma sorted_order_updated_desc:
  "sorted_wrt (\<lambda>a b. ar_updated a \<ge> ar_updated b) (order_updated_desc rs)"
  by (induction rs) (auto simp: order_updated_desc_def sorted_insert_desc)

lemma length_order_updated_desc [simp]: "length (order_updated_desc rs) = length rs"
proof -
  have "length (insert_desc r qs) = Suc (length qs)" for r qs by (induction qs) auto
  then show ?thesis by (induction rs) (auto simp: order_updated_desc_def)
qed

lemma distinct_order_updated_desc:
  "distinct (map ar_id rs) \<Longrightarrow> distinct (map ar_id (order_updated_desc rs))"
proof -
  have ins: "distinct (map ar_id (insert_desc r qs)) \<longleftrightarrow> ar_id r \<notin> ar_id ` set qs \<and> distinct (map ar_id qs)"
    for r qs by (induction qs) auto
  have "distinct (map ar_id rs) \<Longrightarrow> distinct (map ar_id (foldr insert_desc rs []))"
  proof (induction rs)
    case (Cons r rs)
    have "set (foldr insert_desc rs []) = set rs"
      using set_order_updated_desc by (simp add: order_updated_desc_def)
    with Cons show ?case by (simp add: ins)
  qed simp
  then show "distinct (map ar_id rs) \<Longrightarrow> ?thesis" by (simp add: order_updated_desc_def)
qed

end
