(* ===== verification/Accounts.thy ===== *)
theory Accounts
  imports Db
begin

text \<open>
  \<open>src/storage/models.rs\<close> and \<open>src/storage/accounts.rs\<close>: the account, its connection state,
  and the SQLite account store. The trait \<open>AccountStore\<close> is the locale \<open>account_store\<close>, what
  the token manager, the REST API, the MCP server and the CLI may assume of it; the SQLite
  store is interpreted in it at the end.
\<close>

section \<open>Accounts\<close>

datatype account_status = Active | Disconnected

definition parse_status :: "string \<Rightarrow> account_status" where
  "parse_status s = (if s = ''disconnected'' then Disconnected else Active)"

fun status_str :: "account_status \<Rightarrow> string" where
  "status_str Active = ''active''"
| "status_str Disconnected = ''disconnected''"

lemma parse_status_str [simp]: "parse_status (status_str s) = s"
  by (cases s) (auto simp: parse_status_def)

record account =
  acc_id :: string
  acc_tenant :: string
  acc_email :: string
  acc_name :: "string option"
  acc_provider :: string
  acc_status :: account_status
  acc_created :: string
  acc_updated :: string

text \<open>The parameters of the \<open>INSERT\<close>, and the row closure of \<open>query_accounts\<close>.\<close>

definition to_row :: "account \<Rightarrow> account_row" where
  "to_row a = \<lparr>ar_id = acc_id a, ar_tenant = acc_tenant a, ar_email = acc_email a,
     ar_name = acc_name a, ar_provider = acc_provider a, ar_status = status_str (acc_status a),
     ar_created = acc_created a, ar_updated = acc_updated a\<rparr>"

definition of_row :: "account_row \<Rightarrow> account" where
  "of_row r = \<lparr>acc_id = ar_id r, acc_tenant = ar_tenant r, acc_email = ar_email r,
     acc_name = ar_name r, acc_provider = ar_provider r, acc_status = parse_status (ar_status r),
     acc_created = ar_created r, acc_updated = ar_updated r\<rparr>"

lemma of_row_simps [simp]:
  "acc_id (of_row r) = ar_id r" "acc_tenant (of_row r) = ar_tenant r"
  "acc_email (of_row r) = ar_email r" "acc_updated (of_row r) = ar_updated r"
  "acc_status (of_row r) = parse_status (ar_status r)" "acc_name (of_row r) = ar_name r"
  by (simp_all add: of_row_def)

lemma to_row_simps [simp]:
  "ar_id (to_row a) = acc_id a" "ar_tenant (to_row a) = acc_tenant a"
  "ar_email (to_row a) = acc_email a"
  by (simp_all add: to_row_def)

lemma of_row_to_row [simp]: "of_row (to_row a) = a"
  by (simp add: of_row_def to_row_def)

text \<open>SQLite's \<open>lower\<close>, which folds the ASCII letters.\<close>

definition sql_lower_char :: "char \<Rightarrow> char" where
  "sql_lower_char c = (let n = of_char c :: nat in if 65 \<le> n \<and> n \<le> 90 then char_of (n + 32) else c)"

definition sql_lower :: "string \<Rightarrow> string" where
  "sql_lower s = map sql_lower_char s"

section \<open>The SQLite store\<close>

definition query_accounts ::
    "(account_row \<Rightarrow> bool) \<Rightarrow> (account_row list \<Rightarrow> account_row list) \<Rightarrow> database \<Rightarrow>
     account list result \<times> database" where
  "query_accounts P order d =
     bindE (run_sql (select_accounts P) d) (\<lambda>rows d. (Inr (map of_row (order rows)), d))"

definition head_opt :: "'a list \<Rightarrow> 'a option" where
  "head_opt xs = (case xs of [] \<Rightarrow> None | x # _ \<Rightarrow> Some x)"

definition account_create :: "account \<Rightarrow> world \<Rightarrow> unit result \<times> world" where
  "account_create a = on_db (with_lock (\<lambda>d.
     let (r, d) = exec_sql (insert_account (to_row a)) d
     in (map_err (\<lambda>e. case e of
           ConstraintViolation _ \<Rightarrow>
             InvalidRequest (''account '' @ acc_email a @ '' is already connected for this tenant'')
         | SqlFailure m \<Rightarrow> Storage m) r, d)))"

definition account_list :: "string \<Rightarrow> world \<Rightarrow> account list result \<times> world" where
  "account_list tenant = on_db (with_lock
     (query_accounts (\<lambda>r. ar_tenant r = tenant) order_updated_desc))"

definition account_get :: "string \<Rightarrow> string \<Rightarrow> world \<Rightarrow> account result \<times> world" where
  "account_get tenant i = on_db (with_lock (\<lambda>d.
     bindE (query_accounts (\<lambda>r. ar_tenant r = tenant \<and> ar_id r = i) id d)
       (\<lambda>found d. (ok_or (not_found (''account '' @ i @ '' not found'')) (head_opt found), d))))"

definition account_get_by_email :: "string \<Rightarrow> string \<Rightarrow> world \<Rightarrow> account result \<times> world" where
  "account_get_by_email tenant email = on_db (with_lock (\<lambda>d.
     bindE (query_accounts (\<lambda>r. ar_tenant r = tenant \<and> sql_lower (ar_email r) = sql_lower email) id d)
       (\<lambda>found d. (ok_or (not_found (''account '' @ email @ '' not found'')) (head_opt found), d))))"

definition account_set_status ::
    "env \<Rightarrow> string \<Rightarrow> string \<Rightarrow> account_status \<Rightarrow> world \<Rightarrow> unit result \<times> world" where
  "account_set_status E tenant i status w =
     (let (now_text, w) = now E w
      in on_db (with_lock (\<lambda>d.
           bindE (run_sql (update_status (status_str status) now_text tenant i) d)
             (\<lambda>n d. if n = 0 then (Inl (not_found (''account '' @ i @ '' not found'')), d)
                    else (Inr (), d)))) w)"

definition account_delete :: "string \<Rightarrow> string \<Rightarrow> world \<Rightarrow> bool result \<times> world" where
  "account_delete tenant i = on_db (with_lock (\<lambda>d.
     bindE (run_sql (delete_account tenant i) d) (\<lambda>n d. (Inr (n > 0), d))))"

definition account_list_all :: "world \<Rightarrow> account list result \<times> world" where
  "account_list_all = on_db (with_lock (query_accounts (\<lambda>_. True) order_updated_desc))"

definition account_touch :: "env \<Rightarrow> string \<Rightarrow> world \<Rightarrow> unit result \<times> world" where
  "account_touch E i w =
     (let (now_text, w) = now E w
      in on_db (with_lock (\<lambda>d. bindE (run_sql (update_touch now_text i) d) (\<lambda>_ d. (Inr (), d)))) w)"

lemmas account_store_defs = account_create_def account_list_def account_get_def
  account_get_by_email_def account_set_status_def account_delete_def account_list_all_def
  account_touch_def

text \<open>The store's contents as accounts, in rowid order.\<close>

definition account_rows :: "world \<Rightarrow> account list" where
  "account_rows w = map of_row (accounts (db w))"

definition set_row_status :: "string \<Rightarrow> string \<Rightarrow> account_status \<Rightarrow> string \<Rightarrow> account \<Rightarrow> account" where
  "set_row_status tenant i status now_text a =
     (if acc_tenant a = tenant \<and> acc_id a = i
      then a\<lparr>acc_status := status, acc_updated := now_text\<rparr> else a)"

section \<open>Every operation keeps the schema's invariant\<close>

lemma wf_on_db [preserve]:
  "(wf_db (db w) \<Longrightarrow> wf_db (snd (f (db w)))) \<Longrightarrow> wf_db (db w) \<Longrightarrow> wf_db (db (snd (on_db f w)))"
  by simp

lemma wf_bindE_db [preserve]:
  "wf_db (snd r) \<Longrightarrow> (\<And>a d. wf_db d \<Longrightarrow> wf_db (snd (k a d))) \<Longrightarrow> wf_db (snd (bindE r k))"
  by (rule snd_bindE_keeps) auto

lemma now_frame [simp]: "db (snd (now E w)) = db w" "wire (snd (now E w)) = wire w"
  "tick (snd (now E w)) = Suc (tick w)" "fst (now E w) = to_rfc3339 E (clock E (tick w))"
  by (simp_all add: now_def utc_now_def)

lemma wf_query_accounts [preserve]: "wf_db d \<Longrightarrow> wf_db (snd (query_accounts P ord d))"
  unfolding query_accounts_def by (rule wf_bindE_db) (simp_all add: preserve)

lemma wf_account_create [preserve]: "wf_db (db w) \<Longrightarrow> wf_db (db (snd (account_create a w)))"
  unfolding account_create_def
  by (intro wf_on_db wf_with_lock) (simp_all add: case_prod_unfold Let_def preserve)

lemma wf_account_reads [preserve]:
  "wf_db (db w) \<Longrightarrow> wf_db (db (snd (account_list t w)))"
  "wf_db (db w) \<Longrightarrow> wf_db (db (snd (account_get t i w)))"
  "wf_db (db w) \<Longrightarrow> wf_db (db (snd (account_get_by_email t e w)))"
  "wf_db (db w) \<Longrightarrow> wf_db (db (snd (account_list_all w)))"
  unfolding account_store_defs
  by (auto intro!: wf_on_db wf_with_lock wf_bindE_db wf_query_accounts)

lemma wf_account_set_status [preserve]:
  "wf_db (db w) \<Longrightarrow> wf_db (db (snd (account_set_status E t i s w)))"
  unfolding account_set_status_def case_prod_unfold Let_def
  by (intro wf_on_db wf_with_lock wf_bindE_db) (simp_all add: preserve)

lemma wf_account_delete [preserve]: "wf_db (db w) \<Longrightarrow> wf_db (db (snd (account_delete t i w)))"
  unfolding account_delete_def by (intro wf_on_db wf_with_lock wf_bindE_db) (simp_all add: preserve)

lemma wf_account_touch [preserve]: "wf_db (db w) \<Longrightarrow> wf_db (db (snd (account_touch E i w)))"
  unfolding account_touch_def case_prod_unfold Let_def
  by (intro wf_on_db wf_with_lock wf_bindE_db) (simp_all add: preserve)

section \<open>What the operations return and change\<close>

lemma query_accounts_result:
  assumes "with_lock (query_accounts P ord) d = (r, d')"
  shows "same_tables d d' \<and>
    ((\<exists>m. r = Inl (Storage m)) \<or> r = Inr (map of_row (ord (filter P (accounts d)))))"
proof (cases "poisoned d")
  case True
  with assms show ?thesis by (auto simp: with_lock_def)
next
  case False
  then have q: "query_accounts P ord d = (r, d')" using assms by simp
  obtain r0 d0 where r0: "run_sql (select_accounts P) d = (r0, d0)" by force
  have "same_tables d d0 \<and> ((\<exists>m. r0 = Inl (Storage m)) \<or> r0 = Inr (filter P (accounts d)))"
    by (rule query_result [OF _ _ r0]) (simp_all add: select_accounts_def)
  with q r0 show ?thesis by (auto simp: query_accounts_def)
qed

lemma on_db_eq: "on_db f w = (fst (f (db w)), w\<lparr>db := snd (f (db w))\<rparr>)"
  by (simp add: on_db_def case_prod_unfold Let_def)

lemma account_list_result:
  assumes "account_list t w = (r, w')"
  shows "same_tables (db w) (db w') \<and> wire w' = wire w \<and> tick w' = tick w \<and>
    ((\<exists>m. r = Inl (Storage m)) \<or>
     r = Inr (map of_row (order_updated_desc (filter (\<lambda>q. ar_tenant q = t) (accounts (db w))))))"
proof -
  obtain d' where "with_lock (query_accounts (\<lambda>q. ar_tenant q = t) order_updated_desc) (db w) = (r, d')"
    and "w' = w\<lparr>db := d'\<rparr>"
    using assms by (auto simp: account_list_def on_db_eq prod_eq_iff)
  with query_accounts_result show ?thesis by fastforce
qed

lemma account_list_all_result:
  assumes "account_list_all w = (r, w')"
  shows "same_tables (db w) (db w') \<and> wire w' = wire w \<and> tick w' = tick w \<and>
    ((\<exists>m. r = Inl (Storage m)) \<or>
     r = Inr (map of_row (order_updated_desc (accounts (db w)))))"
proof -
  obtain d' where "with_lock (query_accounts (\<lambda>_. True) order_updated_desc) (db w) = (r, d')"
    and "w' = w\<lparr>db := d'\<rparr>"
    using assms by (auto simp: account_list_all_def on_db_eq prod_eq_iff)
  with query_accounts_result show ?thesis by fastforce
qed

text \<open>The two lookups share their shape: first row of the table that satisfies a predicate.\<close>

lemma lookup_result:
  assumes "on_db (with_lock (\<lambda>d. bindE (query_accounts P id d)
      (\<lambda>found d. (ok_or e (head_opt found), d)))) w = (r, w')"
  shows "same_tables (db w) (db w') \<and> wire w' = wire w \<and> tick w' = tick w \<and>
    ((\<exists>m. r = Inl (Storage m)) \<or> r = ok_or e (map_option of_row (List.find P (accounts (db w)))))"
proof (cases "poisoned (db w)")
  case True
  with assms show ?thesis by (auto simp: with_lock_def on_db_eq)
next
  case False
  obtain r0 d0 where q: "query_accounts P id (db w) = (r0, d0)" by force
  with False query_accounts_result [of P id "db w" r0 d0]
  have *: "same_tables (db w) d0 \<and>
    ((\<exists>m. r0 = Inl (Storage m)) \<or> r0 = Inr (map of_row (filter P (accounts (db w)))))" by simp
  have "head_opt (map of_row (filter P (accounts (db w)))) =
      map_option of_row (List.find P (accounts (db w)))"
    by (simp add: head_opt_def filter_hd_find [symmetric] split: list.splits)
  with assms False q * show ?thesis by (auto simp: on_db_eq)
qed

lemma account_get_result:
  assumes "account_get t i w = (r, w')"
  shows "same_tables (db w) (db w') \<and> wire w' = wire w \<and> tick w' = tick w \<and>
    ((\<exists>m. r = Inl (Storage m)) \<or>
     r = ok_or (NotFound (''account '' @ i @ '' not found''))
           (map_option of_row (List.find (\<lambda>q. ar_tenant q = t \<and> ar_id q = i) (accounts (db w)))))"
  using lookup_result assms unfolding account_get_def not_found_def by blast

lemma account_get_by_email_result:
  assumes "account_get_by_email t e w = (r, w')"
  shows "same_tables (db w) (db w') \<and> wire w' = wire w \<and> tick w' = tick w \<and>
    ((\<exists>m. r = Inl (Storage m)) \<or>
     r = ok_or (NotFound (''account '' @ e @ '' not found''))
           (map_option of_row (List.find
              (\<lambda>q. ar_tenant q = t \<and> sql_lower (ar_email q) = sql_lower e) (accounts (db w)))))"
  using lookup_result assms unfolding account_get_by_email_def not_found_def by blast

lemma account_create_result:
  assumes "account_create a w = (r, w')"
  shows "wire w' = wire w \<and> tick w' = tick w \<and> tokens (db w') = tokens (db w) \<and>
    oauth_flows (db w') = oauth_flows (db w) \<and>
    ((\<exists>e. r = Inl e \<and> same_tables (db w) (db w')) \<or>
     (r = Inr () \<and> accounts (db w') = accounts (db w) @ [to_row a]))"
proof (cases "poisoned (db w)")
  case True
  with assms show ?thesis by (auto simp: with_lock_def account_create_def on_db_eq)
next
  case False
  obtain r0 d0 where ex: "exec_sql (insert_account (to_row a)) (db w) = (r0, d0)" by force
  have "(\<exists>e. r0 = Inl e \<and> same_tables (db w) d0) \<or>
     (\<exists>x fs. r0 = Inr x \<and> insert_account (to_row a) (db w) = (Inr x, snd (insert_account (to_row a) (db w)))
        \<and> d0 = (snd (insert_account (to_row a) (db w)))\<lparr>faults := fs\<rparr>)"
    by (rule update_result [OF ex]) (auto simp: stmt_faults dest: stmt_err)
  then show ?thesis
    using assms False ex
    by (auto simp: account_create_def on_db_eq case_prod_unfold Let_def same_tables_def insert_account_def
        split: if_splits)
qed

lemma account_set_status_result:
  assumes "account_set_status E t i s w = (r, w')"
  shows "wire w' = wire w \<and> tick w' = Suc (tick w) \<and> tokens (db w') = tokens (db w) \<and>
    oauth_flows (db w') = oauth_flows (db w) \<and>
    ((\<exists>m. r = Inl (Storage m) \<and> same_tables (db w) (db w')) \<or>
     (r = Inl (NotFound (''account '' @ i @ '' not found'')) \<and> accounts (db w') = accounts (db w) \<and>
        \<not> (\<exists>q \<in> set (accounts (db w)). ar_tenant q = t \<and> ar_id q = i)) \<or>
     (r = Inr () \<and> (\<exists>q \<in> set (accounts (db w)). ar_tenant q = t \<and> ar_id q = i) \<and>
        accounts (db w') = map (\<lambda>q. if ar_tenant q = t \<and> ar_id q = i
          then q\<lparr>ar_status := status_str s, ar_updated := to_rfc3339 E (clock E (tick w))\<rparr> else q)
          (accounts (db w))))"
proof (cases "poisoned (db w)")
  case True
  with assms show ?thesis
    by (auto simp: with_lock_def account_set_status_def on_db_eq case_prod_unfold Let_def now_def utc_now_def)
next
  case False
  let ?n = "to_rfc3339 E (clock E (tick w))"
  let ?stmt = "update_status (status_str s) ?n t i"
  obtain r0 d0 where ex: "run_sql ?stmt (db w) = (r0, d0)" by force
  have "(\<exists>m. r0 = Inl (Storage m) \<and> same_tables (db w) d0) \<or>
     (\<exists>x fs. r0 = Inr x \<and> ?stmt (db w) = (Inr x, snd (?stmt (db w)))
        \<and> d0 = (snd (?stmt (db w)))\<lparr>faults := fs\<rparr>)"
    by (rule run_update [OF ex]) (auto simp: stmt_faults dest: stmt_err)
  then show ?thesis
  proof (elim disjE exE conjE)
    fix m assume "r0 = Inl (Storage m)" "same_tables (db w) d0"
    then show ?thesis using assms False ex
      by (auto simp: account_set_status_def on_db_eq case_prod_unfold Let_def now_def utc_now_def same_tables_def)
  next
    fix x fs
    assume x: "r0 = Inr x" "?stmt (db w) = (Inr x, snd (?stmt (db w)))"
      "d0 = (snd (?stmt (db w)))\<lparr>faults := fs\<rparr>"
    then have n: "x = length (filter (\<lambda>r. ar_tenant r = t \<and> ar_id r = i) (accounts (db w)))"
      by (simp add: update_status_def Let_def)
    show ?thesis
    proof (cases "\<exists>q \<in> set (accounts (db w)). ar_tenant q = t \<and> ar_id q = i")
      case True
      then have "x \<noteq> 0" using n by (auto simp: filter_empty_conv)
      with True assms False ex x show ?thesis
        by (auto simp: account_set_status_def on_db_eq case_prod_unfold Let_def now_def utc_now_def
            update_status_def)
    next
      case none: False
      then have "x = 0" using n by (auto simp: filter_empty_conv)
      moreover have "map (\<lambda>q. if ar_tenant q = t \<and> ar_id q = i
          then q\<lparr>ar_status := status_str s, ar_updated := ?n\<rparr> else q) (accounts (db w)) = accounts (db w)"
        using none by (intro map_idI) auto
      ultimately show ?thesis using none assms False ex x
        by (auto simp: account_set_status_def on_db_eq case_prod_unfold Let_def now_def utc_now_def
            update_status_def not_found_def)
    qed
  qed
qed

lemma account_delete_result:
  assumes "account_delete t i w = (r, w')"
  shows "wire w' = wire w \<and> tick w' = tick w \<and> oauth_flows (db w') = oauth_flows (db w) \<and>
    ((\<exists>m. r = Inl (Storage m) \<and> same_tables (db w) (db w')) \<or>
     (r = Inr (\<exists>q \<in> set (accounts (db w)). ar_tenant q = t \<and> ar_id q = i) \<and>
        accounts (db w') = filter (\<lambda>q. \<not> (ar_tenant q = t \<and> ar_id q = i)) (accounts (db w)) \<and>
        tokens (db w') = filter (\<lambda>k. tr_account k \<notin>
           ar_id ` {q \<in> set (accounts (db w)). ar_tenant q = t \<and> ar_id q = i}) (tokens (db w))))"
proof (cases "poisoned (db w)")
  case True
  with assms show ?thesis by (auto simp: with_lock_def account_delete_def on_db_eq)
next
  case False
  obtain r0 d0 where ex: "run_sql (delete_account t i) (db w) = (r0, d0)" by force
  have "(\<exists>m. r0 = Inl (Storage m) \<and> same_tables (db w) d0) \<or>
     (\<exists>x fs. r0 = Inr x \<and> delete_account t i (db w) = (Inr x, snd (delete_account t i (db w)))
        \<and> d0 = (snd (delete_account t i (db w)))\<lparr>faults := fs\<rparr>)"
    by (rule run_update [OF ex]) (auto simp: stmt_faults dest: stmt_err)
  then show ?thesis
    using assms False ex
    by (auto simp: account_delete_def on_db_eq same_tables_def delete_account_def Let_def filter_empty_conv)
qed

section \<open>The \<open>AccountStore\<close> interface\<close>

text \<open>The way the MCP server and the CLI find an account: by id, and by email address when that
  fails for whatever reason.\<close>

definition lookup_either ::
    "(string \<Rightarrow> string \<Rightarrow> 'w \<Rightarrow> account result \<times> 'w) \<Rightarrow> (string \<Rightarrow> string \<Rightarrow> 'w \<Rightarrow> account result \<times> 'w) \<Rightarrow>
     string \<Rightarrow> string \<Rightarrow> 'w \<Rightarrow> account result \<times> 'w" where
  "lookup_either get by_email tenant x w =
     (case get tenant x w of
        (Inr a, w) \<Rightarrow> (Inr a, w)
      | (Inl _, w) \<Rightarrow> by_email tenant x w)"

text \<open>A sequence of changing requests to the store, whatever becomes of each.\<close>

datatype account_cmd =
    CreateCmd account
  | StatusCmd string string account_status
  | DeleteCmd string string

fun cmd_tenant :: "account_cmd \<Rightarrow> string" where
  "cmd_tenant (CreateCmd a) = acc_tenant a"
| "cmd_tenant (StatusCmd t _ _) = t"
| "cmd_tenant (DeleteCmd t _) = t"

fun run_cmds ::
    "(account \<Rightarrow> 'w \<Rightarrow> unit result \<times> 'w) \<Rightarrow> (string \<Rightarrow> string \<Rightarrow> account_status \<Rightarrow> 'w \<Rightarrow> unit result \<times> 'w) \<Rightarrow>
     (string \<Rightarrow> string \<Rightarrow> 'w \<Rightarrow> bool result \<times> 'w) \<Rightarrow> account_cmd list \<Rightarrow> 'w \<Rightarrow> 'w" where
  "run_cmds create set_status delete [] w = w"
| "run_cmds create set_status delete (c # cs) w =
     run_cmds create set_status delete cs
       (case c of CreateCmd a \<Rightarrow> snd (create a w)
        | StatusCmd t i s \<Rightarrow> snd (set_status t i s w)
        | DeleteCmd t i \<Rightarrow> snd (delete t i w))"

locale account_store =
  fixes rows :: "'w \<Rightarrow> account list"
    and create :: "account \<Rightarrow> 'w \<Rightarrow> unit result \<times> 'w"
    and list_of :: "string \<Rightarrow> 'w \<Rightarrow> account list result \<times> 'w"
    and get :: "string \<Rightarrow> string \<Rightarrow> 'w \<Rightarrow> account result \<times> 'w"
    and by_email :: "string \<Rightarrow> string \<Rightarrow> 'w \<Rightarrow> account result \<times> 'w"
    and set_status :: "string \<Rightarrow> string \<Rightarrow> account_status \<Rightarrow> 'w \<Rightarrow> unit result \<times> 'w"
    and delete :: "string \<Rightarrow> string \<Rightarrow> 'w \<Rightarrow> bool result \<times> 'w"
  assumes list_law: "list_of t w = (rl, w') \<Longrightarrow>
      rows w' = rows w \<and> (\<forall>as. rl = Inr as \<longrightarrow> set as = {a \<in> set (rows w). acc_tenant a = t})"
    and get_law: "get t i w = (r, w') \<Longrightarrow>
      rows w' = rows w \<and> (\<forall>a. r = Inr a \<longrightarrow> a \<in> set (rows w) \<and> acc_tenant a = t \<and> acc_id a = i)"
    and email_law: "by_email t e w = (r, w') \<Longrightarrow>
      rows w' = rows w \<and> (\<forall>a. r = Inr a \<longrightarrow>
        a \<in> set (rows w) \<and> acc_tenant a = t \<and> sql_lower (acc_email a) = sql_lower e)"
    and create_law: "create a w = (ru, w') \<Longrightarrow>
      rows w' = (case ru of Inl _ \<Rightarrow> rows w | Inr _ \<Rightarrow> rows w @ [a])"
    and status_law: "set_status t i s w = (ru, w') \<Longrightarrow>
      \<exists>n. rows w' = (case ru of Inl _ \<Rightarrow> rows w | Inr _ \<Rightarrow> map (set_row_status t i s n) (rows w))"
    and delete_law: "delete t i w = (rb, w') \<Longrightarrow>
      rows w' = (case rb of Inl _ \<Rightarrow> rows w
        | Inr _ \<Rightarrow> filter (\<lambda>a. \<not> (acc_tenant a = t \<and> acc_id a = i)) (rows w))"
begin

text \<open>Finding an account either way stays within the tenant and changes nothing.\<close>

lemma either_sound:
  assumes "lookup_either get by_email t x w = (r, w')"
  shows "rows w' = rows w \<and> (\<forall>a. r = Inr a \<longrightarrow> a \<in> set (rows w) \<and> acc_tenant a = t \<and>
    (acc_id a = x \<or> sql_lower (acc_email a) = sql_lower x))"
proof -
  obtain r1 w1 where g: "get t x w = (r1, w1)" by force
  note l1 = get_law [OF g]
  show ?thesis
  proof (cases r1)
    case (Inr a)
    with assms g l1 show ?thesis by (auto simp: lookup_either_def)
  next
    case (Inl e)
    with assms g have "by_email t x w1 = (r, w')" by (simp add: lookup_either_def)
    from email_law [OF this] l1 show ?thesis by auto
  qed
qed

text \<open>A change made for one tenant leaves the rows of every other tenant alone, in any sequence
  and whether or not the single changes succeed.\<close>

lemma create_other:
  "acc_tenant a \<noteq> u \<Longrightarrow>
   filter (\<lambda>b. acc_tenant b = u) (rows (snd (create a w))) = filter (\<lambda>b. acc_tenant b = u) (rows w)"
  using create_law [of a w "fst (create a w)" "snd (create a w)"] by (auto split: sum.splits)

lemma status_other:
  assumes "t \<noteq> u"
  shows "filter (\<lambda>b. acc_tenant b = u) (rows (snd (set_status t i s w))) =
    filter (\<lambda>b. acc_tenant b = u) (rows w)"
proof -
  have upd: "filter (\<lambda>b. acc_tenant b = u) (map (set_row_status t i s n) xs) =
      filter (\<lambda>b. acc_tenant b = u) xs" for n xs
    using assms by (induction xs) (auto simp: set_row_status_def)
  obtain n where "rows (snd (set_status t i s w)) = (case fst (set_status t i s w) of
      Inl _ \<Rightarrow> rows w | Inr _ \<Rightarrow> map (set_row_status t i s n) (rows w))"
    using status_law [of t i s w "fst (set_status t i s w)" "snd (set_status t i s w)"] by auto
  with upd show ?thesis by (auto split: sum.splits)
qed

lemma delete_other:
  "t \<noteq> u \<Longrightarrow>
   filter (\<lambda>b. acc_tenant b = u) (rows (snd (delete t i w))) = filter (\<lambda>b. acc_tenant b = u) (rows w)"
  using delete_law [of t i w "fst (delete t i w)" "snd (delete t i w)"]
  by (auto split: sum.splits intro: filter_cong)

lemma run_other:
  "(\<And>c. c \<in> set cs \<Longrightarrow> cmd_tenant c \<noteq> u) \<Longrightarrow>
   filter (\<lambda>b. acc_tenant b = u) (rows (run_cmds create set_status delete cs w)) =
   filter (\<lambda>b. acc_tenant b = u) (rows w)"
proof (induction cs arbitrary: w)
  case (Cons c cs)
  from Cons.prems have "cmd_tenant c \<noteq> u" by simp
  then have "filter (\<lambda>b. acc_tenant b = u) (rows (case c of CreateCmd a \<Rightarrow> snd (create a w)
        | StatusCmd t i s \<Rightarrow> snd (set_status t i s w) | DeleteCmd t i \<Rightarrow> snd (delete t i w))) =
      filter (\<lambda>b. acc_tenant b = u) (rows w)"
    by (cases c) (simp_all add: create_other status_other delete_other)
  with Cons show ?case by simp
qed simp

end

lemma set_find_row:
  "map_option of_row (List.find P rs) = Some a \<Longrightarrow> \<exists>r \<in> set rs. P r \<and> a = of_row r"
  by (auto dest: find_Some_in)

interpretation sqlite_accounts:
  account_store account_rows account_create account_list account_get account_get_by_email
    "account_set_status E" account_delete for E
proof (unfold_locales, goal_cases)
  case (1 t w r w')
  from account_list_result [OF 1] show ?case
    by (auto simp: account_rows_def same_tables_def)
next
  case (2 t i w r w')
  from account_get_result [OF 2] show ?case
    by (auto simp: account_rows_def same_tables_def ok_or_def dest: find_Some_in split: option.splits)
next
  case (3 t e w r w')
  from account_get_by_email_result [OF 3] show ?case
    by (auto simp: account_rows_def same_tables_def ok_or_def dest: find_Some_in split: option.splits)
next
  case (4 a w r w')
  from account_create_result [OF 4] show ?case
    by (auto simp: account_rows_def same_tables_def)
next
  case (5 t i s w r w')
  let ?n = "to_rfc3339 E (clock E (tick w))"
  from account_set_status_result [OF 5] show ?case
    by (intro exI [of _ ?n])
      (auto simp: account_rows_def same_tables_def set_row_status_def of_row_def)
next
  case (6 t i w r w')
  have "filter (\<lambda>a. \<not> (acc_tenant a = t \<and> acc_id a = i)) (map of_row xs) =
      map of_row (filter (\<lambda>q. \<not> (ar_tenant q = t \<and> ar_id q = i)) xs)" for xs
    by (simp add: filter_map comp_def)
  with account_delete_result [OF 6] show ?case
    by (auto simp: account_rows_def same_tables_def)
qed

end
