(* ===== verification/Tokens.thy ===== *)
theory Tokens
  imports Accounts
begin

text \<open>
  \<open>src/storage/tokens.rs\<close>: the token store, encrypted at rest. \<open>encodes\<close> relates a row to
  the token it holds, \<open>tokens_ok\<close> says that every row holds one, and \<open>token_view\<close> reads the
  table as a map from account ids to tokens. The trait \<open>TokenStore\<close> is the locale
  \<open>token_store\<close>: its operations are those of that map.
\<close>

record stored_token =
  st_access :: string
  st_refresh :: string
  st_scope :: "string option"
  st_expires :: "int option"
  st_last_used :: "int option"
  st_updated :: int

definition parse_time :: "env \<Rightarrow> string \<Rightarrow> int option" where
  "parse_time E s = parse_rfc3339 E s"

text \<open>From a row to a token; the last argument stands for \<open>Utc::now\<close> where \<open>updated_at\<close> does
  not parse.\<close>

definition decode_row :: "env \<Rightarrow> bytes \<Rightarrow> token_row \<Rightarrow> int \<Rightarrow> stored_token result" where
  "decode_row E K t fallback =
     (case decrypt E K (tr_access t) of
        Inl e \<Rightarrow> Inl (Storage e)
      | Inr access_token \<Rightarrow>
     (case decrypt E K (tr_refresh t) of
        Inl e \<Rightarrow> Inl (Storage e)
      | Inr refresh_token \<Rightarrow>
     (case from_utf8 access_token of
        None \<Rightarrow> Inl (Storage (''access token is not UTF-8: '' @ utf8_error E access_token))
      | Some a \<Rightarrow>
     (case from_utf8 refresh_token of
        None \<Rightarrow> Inl (Storage (''refresh token is not UTF-8: '' @ utf8_error E refresh_token))
      | Some r \<Rightarrow>
        Inr \<lparr>st_access = a, st_refresh = r, st_scope = tr_scope t,
          st_expires = Option.bind (tr_expires t) (parse_time E),
          st_last_used = Option.bind (tr_last_used t) (parse_time E),
          st_updated = (case parse_time E (tr_updated t) of Some u \<Rightarrow> u | None \<Rightarrow> fallback)\<rparr>))))"

definition token_get :: "env \<Rightarrow> bytes \<Rightarrow> string \<Rightarrow> world \<Rightarrow> stored_token option result \<times> world" where
  "token_get E K i w =
     bindE (on_db (with_lock (run_sql (select_token i))) w)
       (\<lambda>row w. case row of
          None \<Rightarrow> (Inr None, w)
        | Some t \<Rightarrow>
            (case decode_row E K t (clock E (tick w)) of
               Inl e \<Rightarrow> (Inl e, w)
             | Inr tok \<Rightarrow> (Inr (Some tok), if parse_time E (tr_updated t) = None then tock w else w)))"

definition encrypt_field :: "env \<Rightarrow> bytes \<Rightarrow> string \<Rightarrow> world \<Rightarrow> bytes result \<times> world" where
  "encrypt_field E K s w = (let (r, w) = encrypt E K (as_bytes s) w in (map_err Storage r, w))"

definition token_row_of :: "env \<Rightarrow> string \<Rightarrow> bytes \<Rightarrow> bytes \<Rightarrow> stored_token \<Rightarrow> token_row" where
  "token_row_of E i access_blob refresh_blob tok =
     \<lparr>tr_account = i, tr_access = access_blob, tr_refresh = refresh_blob,
      tr_scope = st_scope tok,
      tr_expires = map_option (to_rfc3339 E) (st_expires tok),
      tr_last_used = map_option (to_rfc3339 E) (st_last_used tok),
      tr_updated = to_rfc3339 E (st_updated tok)\<rparr>"

definition token_upsert :: "env \<Rightarrow> bytes \<Rightarrow> string \<Rightarrow> stored_token \<Rightarrow> world \<Rightarrow> unit result \<times> world" where
  "token_upsert E K i tok w =
     bindE (encrypt_field E K (st_access tok) w) (\<lambda>access_blob w.
     bindE (encrypt_field E K (st_refresh tok) w) (\<lambda>refresh_blob w.
       on_db (with_lock (run_sql (upsert_token (token_row_of E i access_blob refresh_blob tok)))) w))"

definition token_delete :: "string \<Rightarrow> world \<Rightarrow> unit result \<times> world" where
  "token_delete i = on_db (with_lock (run_sql (delete_token i)))"

definition token_list_inactive :: "env \<Rightarrow> int \<Rightarrow> world \<Rightarrow> string list result \<times> world" where
  "token_list_inactive E cutoff = on_db (with_lock (run_sql (select_inactive (to_rfc3339 E cutoff))))"

section \<open>Rows and the tokens they hold\<close>

text \<open>A token as the program builds one: its strings are Rust strings, its times are times RFC 3339
  renders faithfully.\<close>

definition token_valid :: "(int \<Rightarrow> bool) \<Rightarrow> stored_token \<Rightarrow> bool" where
  "token_valid T tok \<longleftrightarrow> rust_str (st_access tok) \<and> rust_str (st_refresh tok) \<and>
     pred_option T (st_expires tok) \<and> pred_option T (st_last_used tok) \<and> T (st_updated tok)"

definition encodes :: "env \<Rightarrow> bytes \<Rightarrow> (int \<Rightarrow> bool) \<Rightarrow> token_row \<Rightarrow> stored_token \<Rightarrow> bool" where
  "encodes E K T t tok \<longleftrightarrow> token_valid T tok \<and>
     decrypt E K (tr_access t) = Inr (as_bytes (st_access tok)) \<and>
     decrypt E K (tr_refresh t) = Inr (as_bytes (st_refresh tok)) \<and>
     tr_scope t = st_scope tok \<and>
     tr_expires t = map_option (to_rfc3339 E) (st_expires tok) \<and>
     tr_last_used t = map_option (to_rfc3339 E) (st_last_used tok) \<and>
     tr_updated t = to_rfc3339 E (st_updated tok)"

definition tokens_ok :: "env \<Rightarrow> bytes \<Rightarrow> (int \<Rightarrow> bool) \<Rightarrow> database \<Rightarrow> bool" where
  "tokens_ok E K T d \<longleftrightarrow> (\<forall>t \<in> set (tokens d). \<exists>tok. encodes E K T t tok)"

definition crypto_ok :: "env \<Rightarrow> (int \<Rightarrow> bool) \<Rightarrow> bool" where
  "crypto_ok E T \<longleftrightarrow> aead_ok E \<and> rfc3339_ok E T \<and> rfc3339_mono E T"

definition store_ok :: "env \<Rightarrow> bytes \<Rightarrow> (int \<Rightarrow> bool) \<Rightarrow> world \<Rightarrow> bool" where
  "store_ok E K T w \<longleftrightarrow> crypto_ok E T \<and> wf_db (db w) \<and> tokens_ok E K T (db w)"

definition token_view :: "env \<Rightarrow> bytes \<Rightarrow> world \<Rightarrow> string \<Rightarrow> stored_token option" where
  "token_view E K w i =
     (case List.find (\<lambda>t. tr_account t = i) (tokens (db w)) of
        None \<Rightarrow> None
      | Some t \<Rightarrow> (case decode_row E K t 0 of Inr tok \<Rightarrow> Some tok | Inl _ \<Rightarrow> None))"

lemma parse_time_option:
  assumes "rfc3339_ok E T" and "pred_option T x"
  shows "Option.bind (map_option (to_rfc3339 E) x) (parse_time E) = x"
  using assms by (cases x) (auto simp: rfc3339_ok_def parse_time_def)

text \<open>A row that holds a token decodes to it, whatever the clock says.\<close>

lemma decode_encodes:
  assumes "rfc3339_ok E T" and "encodes E K T t tok"
  shows "decode_row E K t n = Inr tok" and "parse_time E (tr_updated t) = Some (st_updated tok)"
proof -
  from assms have upd: "parse_time E (tr_updated t) = Some (st_updated tok)"
    by (auto simp: encodes_def token_valid_def rfc3339_ok_def parse_time_def)
  then show "parse_time E (tr_updated t) = Some (st_updated tok)" .
  show "decode_row E K t n = Inr tok"
    using assms upd by (simp add: decode_row_def encodes_def token_valid_def parse_time_option)
qed

lemma encodes_row_of:
  assumes "aead_ok E" and "token_valid T tok"
    and "fst (encrypt_field E K (st_access tok) w) = Inr a"
    and "fst (encrypt_field E K (st_refresh tok) w') = Inr r"
  shows "encodes E K T (token_row_of E i a r tok) tok"
proof -
  have dec: "decrypt E K b = Inr (as_bytes s)" if "fst (encrypt_field E K s v) = Inr b" for s b v
    using that assms(1) by (auto simp: encrypt_field_def case_prod_unfold Let_def intro: decrypt_encrypt)
  show ?thesis
    using assms(2) dec [OF assms(3)] dec [OF assms(4)] by (simp add: encodes_def token_row_of_def)
qed

lemma encrypt_field_frame [simp]:
  "db (snd (encrypt_field E K s w)) = db w" "wire (snd (encrypt_field E K s w)) = wire w"
  by (simp_all add: encrypt_field_def case_prod_unfold Let_def)

lemma encrypt_field_eq: "encrypt_field E K s w = (r, w') \<Longrightarrow> db w' = db w \<and> wire w' = wire w"
  using encrypt_field_frame [of E K s w] by simp

section \<open>What the operations do\<close>

lemma wf_token_get [preserve]: "wf_db (db w) \<Longrightarrow> wf_db (db (snd (token_get E K i w)))"
  unfolding token_get_def
  by (rule snd_bindE_keeps [where P = "\<lambda>w. wf_db (db w)"])
    (auto simp: wf_locked_sql wf_select split: option.splits sum.splits)

lemma wf_token_upsert [preserve]: "wf_db (db w) \<Longrightarrow> wf_db (db (snd (token_upsert E K i tok w)))"
  unfolding token_upsert_def
  by (rule snd_bindE_keeps [where P = "\<lambda>w. wf_db (db w)"], simp,
      rule snd_bindE_keeps [where P = "\<lambda>w. wf_db (db w)"])
    (simp_all add: wf_locked_sql wf_upsert_token)

lemma wf_token_delete [preserve]: "wf_db (db w) \<Longrightarrow> wf_db (db (snd (token_delete i w)))"
  unfolding token_delete_def by (simp add: wf_locked_sql wf_delete_token)

lemma wf_token_list_inactive [preserve]:
  "wf_db (db w) \<Longrightarrow> wf_db (db (snd (token_list_inactive E c w)))"
  unfolding token_list_inactive_def by (simp add: wf_locked_sql wf_select)

lemma on_db_run:
  assumes "on_db f w = (r, w')"
  obtains d' where "f (db w) = (r, d')" "w' = w\<lparr>db := d'\<rparr>"
  using assms by (auto simp: on_db_eq prod_eq_iff)

lemma token_get_result:
  assumes "token_get E K i w = (r, w')"
  shows "same_tables (db w) (db w') \<and> wire w' = wire w \<and>
    ((\<exists>m. r = Inl (Storage m)) \<or>
     (r = Inr None \<and> List.find (\<lambda>t. tr_account t = i) (tokens (db w)) = None) \<or>
     (\<exists>t tok n. r = Inr (Some tok) \<and> List.find (\<lambda>t. tr_account t = i) (tokens (db w)) = Some t \<and>
        decode_row E K t n = Inr tok))"
proof -
  obtain r0 w0 where q: "on_db (with_lock (run_sql (select_token i))) w = (r0, w0)" by force
  then obtain d0 where d0: "with_lock (run_sql (select_token i)) (db w) = (r0, d0)" "w0 = w\<lparr>db := d0\<rparr>"
    by (rule on_db_run)
  have q0: "same_tables (db w) d0 \<and> ((\<exists>m. r0 = Inl (Storage m)) \<or>
      r0 = Inr (List.find (\<lambda>t. tr_account t = i) (tokens (db w))))"
    by (rule locked_query [OF _ _ d0(1)]) (simp_all add: select_token_def)
  from d0(2) have w0: "db w0 = d0" "wire w0 = wire w" by simp_all
  show ?thesis
  proof (cases r0)
    case (Inl e)
    with assms q have "r = Inl e" "w' = w0" by (simp_all add: token_get_def)
    with Inl q0 w0 show ?thesis by auto
  next
    case (Inr row)
    with q0 have row: "row = List.find (\<lambda>t. tr_account t = i) (tokens (db w))" by simp
    show ?thesis
    proof (cases row)
      case None
      with assms q Inr have "r = Inr None" "w' = w0" by (simp_all add: token_get_def)
      with None row q0 w0 show ?thesis by simp
    next
      case (Some t)
      have err: "decode_row E K t n = Inl e \<Longrightarrow> \<exists>m. e = Storage m" for n e
        by (auto simp: decode_row_def split: sum.splits option.splits)
      from assms q Inr Some have g: "(case decode_row E K t (clock E (tick w0)) of
          Inl e \<Rightarrow> (Inl e, w0)
        | Inr tok \<Rightarrow> (Inr (Some tok), if parse_time E (tr_updated t) = None then tock w0 else w0)) = (r, w')"
        by (simp add: token_get_def)
      show ?thesis
      proof (cases "decode_row E K t (clock E (tick w0))")
        case (Inl e)
        with g have "r = Inl e" "w' = w0" by simp_all
        with Inl err q0 w0 show ?thesis by blast
      next
        case dec: (Inr tok)
        with g have r: "r = Inr (Some tok)" and w': "db w' = db w0" "wire w' = wire w0" by auto
        from row Some have "List.find (\<lambda>t. tr_account t = i) (tokens (db w)) = Some t" by simp
        with dec r w' q0 w0 show ?thesis by auto
      qed
    qed
  qed
qed

lemma token_upsert_result:
  assumes "token_upsert E K i tok w = (r, w')"
  shows "wire w' = wire w \<and> accounts (db w') = accounts (db w) \<and>
    oauth_flows (db w') = oauth_flows (db w) \<and>
    ((\<exists>m. r = Inl (Storage m) \<and> same_tables (db w) (db w')) \<or>
     (r = Inr () \<and> (\<exists>a b v v'. fst (encrypt_field E K (st_access tok) v) = Inr a \<and>
        fst (encrypt_field E K (st_refresh tok) v') = Inr b \<and>
        upsert_token (token_row_of E i a b tok) (db w) =
          (Inr (), snd (upsert_token (token_row_of E i a b tok) (db w))) \<and>
        tokens (db w') = tokens (snd (upsert_token (token_row_of E i a b tok) (db w))))))"
proof -
  obtain ra w1 where ea: "encrypt_field E K (st_access tok) w = (ra, w1)" by force
  obtain rb w2 where eb: "encrypt_field E K (st_refresh tok) w1 = (rb, w2)" by force
  note fr = encrypt_field_eq [OF ea] encrypt_field_eq [OF eb]
  have err: "\<exists>m. e = Storage m" if "encrypt_field E K s v = (Inl e, v')" for s v v' e
    using that by (auto simp: encrypt_field_def case_prod_unfold Let_def map_err_Inl_iff)
  show ?thesis
  proof (cases ra)
    case (Inl e)
    with assms ea have "r = Inl e" "w' = w1" by (simp_all add: token_upsert_def)
    with Inl err ea fr show ?thesis by auto
  next
    case (Inr a)
    note ra = this
    show ?thesis
    proof (cases rb)
      case (Inl e)
      with assms ra ea eb have "r = Inl e" "w' = w2" by (simp_all add: token_upsert_def)
      with Inl err eb fr show ?thesis by auto
    next
      case (Inr b)
      let ?s = "upsert_token (token_row_of E i a b tok)"
      from assms ra Inr ea eb have "on_db (with_lock (run_sql ?s)) w2 = (r, w')"
        by (simp add: token_upsert_def)
      then obtain d' where d': "with_lock (run_sql ?s) (db w2) = (r, d')" "w' = w2\<lparr>db := d'\<rparr>"
        by (rule on_db_run)
      from d'(2) have w': "db w' = d'" "wire w' = wire w2" by simp_all
      have "(\<exists>m. r = Inl (Storage m) \<and> same_tables (db w2) d') \<or>
         (\<exists>x fs. r = Inr x \<and> ?s (db w2) = (Inr x, snd (?s (db w2))) \<and> d' = (snd (?s (db w2)))\<lparr>faults := fs\<rparr>)"
        by (rule locked_update [OF d'(1)]) (auto simp: stmt_faults dest: stmt_err)
      then show ?thesis
      proof (elim disjE exE conjE)
        fix m assume "r = Inl (Storage m)" "same_tables (db w2) d'"
        with w' fr show ?thesis by (simp add: same_tables_def)
      next
        fix x fs
        assume run: "r = Inr x" "?s (db w2) = (Inr x, snd (?s (db w2)))" "d' = (snd (?s (db w2)))\<lparr>faults := fs\<rparr>"
        have "fst (encrypt_field E K (st_access tok) w) = Inr a"
          "fst (encrypt_field E K (st_refresh tok) w1) = Inr b" using ea eb ra Inr by simp_all
        moreover have "accounts (snd (?s d)) = accounts d" "oauth_flows (snd (?s d)) = oauth_flows d" for d
          by (simp_all add: upsert_token_def)
        ultimately have "\<exists>a b v v'. fst (encrypt_field E K (st_access tok) v) = Inr a \<and>
            fst (encrypt_field E K (st_refresh tok) v') = Inr b \<and>
            upsert_token (token_row_of E i a b tok) (db w) =
              (Inr (), snd (upsert_token (token_row_of E i a b tok) (db w))) \<and>
            tokens (db w') = tokens (snd (upsert_token (token_row_of E i a b tok) (db w)))"
          and "accounts (db w') = accounts (db w)" "oauth_flows (db w') = oauth_flows (db w)"
          using run w' fr by auto
        with run w' fr show ?thesis by simp
      qed
    qed
  qed
qed

lemma token_delete_result:
  assumes "token_delete i w = (r, w')"
  shows "wire w' = wire w \<and> tick w' = tick w \<and> accounts (db w') = accounts (db w) \<and>
    oauth_flows (db w') = oauth_flows (db w) \<and>
    ((\<exists>m. r = Inl (Storage m) \<and> same_tables (db w) (db w')) \<or>
     (r = Inr () \<and> tokens (db w') = filter (\<lambda>t. tr_account t \<noteq> i) (tokens (db w))))"
proof -
  obtain d' where d': "with_lock (run_sql (delete_token i)) (db w) = (r, d')" "w' = w\<lparr>db := d'\<rparr>"
    using assms unfolding token_delete_def by (rule on_db_run)
  have "(\<exists>m. r = Inl (Storage m) \<and> same_tables (db w) d') \<or>
     (\<exists>x fs. r = Inr x \<and> delete_token i (db w) = (Inr x, snd (delete_token i (db w)))
        \<and> d' = (snd (delete_token i (db w)))\<lparr>faults := fs\<rparr>)"
    by (rule locked_update [OF d'(1)]) (auto simp: stmt_faults dest: stmt_err)
  with d'(2) show ?thesis by (auto simp: same_tables_def delete_token_def)
qed

lemma token_list_inactive_result:
  assumes "token_list_inactive E cutoff w = (r, w')"
  shows "same_tables (db w) (db w') \<and> wire w' = wire w \<and> tick w' = tick w \<and>
    ((\<exists>m. r = Inl (Storage m)) \<or>
     r = Inr (map tr_account (filter (\<lambda>t. case tr_last_used t of None \<Rightarrow> True
       | Some u \<Rightarrow> u < to_rfc3339 E cutoff) (tokens (db w)))))"
proof -
  obtain d' where d': "with_lock (run_sql (select_inactive (to_rfc3339 E cutoff))) (db w) = (r, d')"
    and w': "w' = w\<lparr>db := d'\<rparr>"
    using assms unfolding token_list_inactive_def by (rule on_db_run)
  have "same_tables (db w) d' \<and> ((\<exists>m. r = Inl (Storage m)) \<or>
      r = Inr (map tr_account (filter (\<lambda>t. case tr_last_used t of None \<Rightarrow> True
       | Some u \<Rightarrow> u < to_rfc3339 E cutoff) (tokens (db w)))))"
    by (rule locked_query [OF _ _ d'(1)]) (simp_all add: select_inactive_def)
  with w' show ?thesis by simp
qed

end
