(* ===== verification/TokenStore.thy ===== *)
theory TokenStore
  imports Tokens
begin

text \<open>
  The trait \<open>TokenStore\<close> as a locale: the store is a finite map from account ids to tokens, a
  failed operation changes nothing, and \<open>list_inactive\<close> names the ids whose token is idle. The
  client's lemma is the refinement of a whole run of writes to the run on the abstract map. The
  encrypted SQLite store is an interpretation.
\<close>

text \<open>\<open>last_used_at IS NULL OR last_used_at < cutoff\<close>, on tokens.\<close>

definition idle :: "int \<Rightarrow> stored_token \<Rightarrow> bool" where
  "idle cutoff tok = (case st_last_used tok of None \<Rightarrow> True | Some u \<Rightarrow> u < cutoff)"

datatype token_cmd = PutCmd string stored_token | DropCmd string

fun run_token_cmds ::
    "(string \<Rightarrow> stored_token \<Rightarrow> 'w \<Rightarrow> unit result \<times> 'w) \<Rightarrow> (string \<Rightarrow> 'w \<Rightarrow> unit result \<times> 'w) \<Rightarrow>
     token_cmd list \<Rightarrow> 'w \<Rightarrow> bool list \<times> 'w" where
  "run_token_cmds put del [] w = ([], w)"
| "run_token_cmds put del (c # cs) w =
     (let (r, w) = (case c of PutCmd i t \<Rightarrow> put i t w | DropCmd i \<Rightarrow> del i w);
          (bs, w) = run_token_cmds put del cs w
      in ((\<not> is_err r) # bs, w))"

text \<open>The same run on the abstract map, given which writes succeeded.\<close>

fun replay :: "token_cmd list \<Rightarrow> bool list \<Rightarrow> (string \<rightharpoonup> stored_token) \<Rightarrow> (string \<rightharpoonup> stored_token)" where
  "replay (PutCmd i t # cs) (b # bs) m = replay cs bs (if b then m(i \<mapsto> t) else m)"
| "replay (DropCmd i # cs) (b # bs) m = replay cs bs (if b then m(i := None) else m)"
| "replay _ _ m = m"

locale token_store =
  fixes ok :: "'w \<Rightarrow> bool"
    and valid :: "stored_token \<Rightarrow> bool"
    and time_ok :: "int \<Rightarrow> bool"
    and look :: "'w \<Rightarrow> string \<rightharpoonup> stored_token"
    and get :: "string \<Rightarrow> 'w \<Rightarrow> stored_token option result \<times> 'w"
    and put :: "string \<Rightarrow> stored_token \<Rightarrow> 'w \<Rightarrow> unit result \<times> 'w"
    and del :: "string \<Rightarrow> 'w \<Rightarrow> unit result \<times> 'w"
    and inactive :: "int \<Rightarrow> 'w \<Rightarrow> string list result \<times> 'w"
  assumes get_law: "ok w \<Longrightarrow> get i w = (rg, w') \<Longrightarrow>
      ok w' \<and> look w' = look w \<and> (\<forall>x. rg = Inr x \<longrightarrow> x = look w i)"
    and put_law: "ok w \<Longrightarrow> valid tok \<Longrightarrow> put i tok w = (ru, w') \<Longrightarrow>
      ok w' \<and> look w' = (if is_err ru then look w else (look w)(i \<mapsto> tok))"
    and del_law: "ok w \<Longrightarrow> del i w = (ru, w') \<Longrightarrow>
      ok w' \<and> look w' = (if is_err ru then look w else (look w)(i := None))"
    and inactive_law: "ok w \<Longrightarrow> time_ok c \<Longrightarrow> inactive c w = (rl, w') \<Longrightarrow>
      ok w' \<and> look w' = look w \<and>
      (\<forall>ids. rl = Inr ids \<longrightarrow> set ids = {i. \<exists>t. look w i = Some t \<and> idle c t})"
begin

lemma get_after_put:
  assumes "ok w" and "valid tok" and "put i tok w = (Inr (), w1)" and "get i w1 = (Inr x, w2)"
  shows "x = Some tok"
  using put_law [OF assms(1-3)] get_law [of w1 i "Inr x" w2] assms(4) by simp

lemma get_after_del:
  assumes "ok w" and "del i w = (Inr (), w1)" and "get i w1 = (Inr x, w2)"
  shows "x = None"
  using del_law [OF assms(1,2)] get_law [of w1 i "Inr x" w2] assms(3) by simp

lemma put_frame:
  assumes "ok w" and "valid tok" and "j \<noteq> i"
  shows "look (snd (put i tok w)) j = look w j"
  using put_law [OF assms(1,2), of i "fst (put i tok w)" "snd (put i tok w)"] assms(3) by simp

lemma run_refines:
  assumes "ok w" and "\<And>i t. PutCmd i t \<in> set cs \<Longrightarrow> valid t"
    and "run_token_cmds put del cs w = (bs, w')"
  shows "ok w' \<and> look w' = replay cs bs (look w)"
  using assms
proof (induction cs arbitrary: w bs w')
  case (Cons c cs)
  let ?p = "case c of PutCmd i t \<Rightarrow> put i t w | DropCmd i \<Rightarrow> del i w"
  obtain r w1 where p: "?p = (r, w1)" by force
  obtain bs1 w2 where rest: "run_token_cmds put del cs w1 = (bs1, w2)" by force
  from Cons.prems(3) p rest have bs: "bs = (\<not> is_err r) # bs1" "w' = w2" by simp_all
  have step: "ok w1 \<and> look w1 = (case c of PutCmd i t \<Rightarrow> if is_err r then look w else (look w)(i \<mapsto> t)
      | DropCmd i \<Rightarrow> if is_err r then look w else (look w)(i := None))"
  proof (cases c)
    case (PutCmd i t)
    with Cons.prems(2) [of i t] have "valid t" by simp
    with put_law [OF Cons.prems(1) this, of i r w1] p PutCmd show ?thesis by simp
  next
    case (DropCmd i)
    with del_law [OF Cons.prems(1), of i r w1] p show ?thesis by simp
  qed
  have "ok w2 \<and> look w2 = replay cs bs1 (look w1)"
    by (rule Cons.IH [OF _ _ rest]) (use step Cons.prems(2) in auto)
  with step bs show ?case by (cases c) auto
qed simp

end

section \<open>The SQLite store is one\<close>

lemma token_view_cong: "tokens (db w') = tokens (db w) \<Longrightarrow> token_view E K w' = token_view E K w"
  by (rule ext) (simp add: token_view_def)

lemma store_ok_cong:
  "same_tables (db w) (db w') \<Longrightarrow> store_ok E K T w \<Longrightarrow> store_ok E K T w'"
  by (simp add: store_ok_def same_tables_def tokens_ok_def wf_db_def wf_tables_def)

lemma token_view_Some:
  assumes "store_ok E K T w" and "List.find (\<lambda>t. tr_account t = i) (tokens (db w)) = Some t"
  shows "\<exists>tok. encodes E K T t tok \<and> token_view E K w i = Some tok \<and> (\<forall>n. decode_row E K t n = Inr tok)"
proof -
  from assms obtain tok where "encodes E K T t tok"
    by (auto simp: store_ok_def tokens_ok_def dest: find_Some_in)
  moreover have "rfc3339_ok E T" using assms(1) by (simp add: store_ok_def crypto_ok_def)
  ultimately show ?thesis using assms(2) decode_encodes(1) by (fastforce simp: token_view_def)
qed

lemma token_get_view:
  assumes "store_ok E K T w" and "token_get E K i w = (r, w')"
  shows "store_ok E K T w'" and "token_view E K w' = token_view E K w"
    and "r = Inr x \<Longrightarrow> x = token_view E K w i" and "wire w' = wire w"
    and "r = Inl e \<Longrightarrow> \<exists>m. e = Storage m"
proof -
  note res = token_get_result [OF assms(2)]
  from res assms(1) show "store_ok E K T w'" by (blast intro: store_ok_cong)
  from res show "token_view E K w' = token_view E K w"
    by (intro token_view_cong) (simp add: same_tables_def)
  show "r = Inr x \<Longrightarrow> x = token_view E K w i"
  proof -
    assume r: "r = Inr x"
    show ?thesis
    proof (cases x)
      case None
      with res r have "List.find (\<lambda>t. tr_account t = i) (tokens (db w)) = None" by auto
      with None show ?thesis by (simp add: token_view_def)
    next
      case (Some tok)
      with res r obtain t n where "List.find (\<lambda>t. tr_account t = i) (tokens (db w)) = Some t"
        "decode_row E K t n = Inr tok" by auto
      with token_view_Some [OF assms(1)] Some show ?thesis by fastforce
    qed
  qed
  from res show "wire w' = wire w" by blast
  from res show "r = Inl e \<Longrightarrow> \<exists>m. e = Storage m" by auto
qed

lemma tokens_ok_upsert:
  assumes "tokens_ok E K T d" and "encodes E K T row tok"
  shows "tokens_ok E K T (snd (upsert_token row d))"
  using assms by (auto simp: tokens_ok_def upsert_token_def)

lemma find_upsert:
  assumes "upsert_token row d = (Inr (), d')"
  shows "List.find (\<lambda>t. tr_account t = j) (tokens d') =
    (if j = tr_account row then Some row else List.find (\<lambda>t. tr_account t = j) (tokens d))"
proof (cases "\<exists>q \<in> set (tokens d). tr_account q = tr_account row")
  case True
  let ?f = "\<lambda>q. if tr_account q = tr_account row then row else q"
  from True assms have d': "tokens d' = map ?f (tokens d)" by (auto simp: upsert_token_def)
  have find: "List.find (\<lambda>t. tr_account t = j) (map ?f (tokens d)) =
      map_option ?f (List.find (\<lambda>t. tr_account t = j) (tokens d))"
    by (rule find_map_same) auto
  show ?thesis
  proof (cases "j = tr_account row")
    case True
    then obtain q where "List.find (\<lambda>t. tr_account t = j) (tokens d) = Some q"
      using \<open>\<exists>q \<in> set (tokens d). _\<close> find_None_iff_all [of "\<lambda>t. tr_account t = j" "tokens d"] by fastforce
    with True d' find show ?thesis by (auto dest: find_Some_in)
  next
    case False
    with d' find show ?thesis
      by (cases "List.find (\<lambda>t. tr_account t = j) (tokens d)") (auto dest: find_Some_in)
  qed
next
  case False
  with assms have d': "tokens d' = tokens d @ [row]"
    by (auto simp: upsert_token_def split: if_splits)
  from False have "List.find (\<lambda>t. tr_account t = tr_account row) (tokens d) = None"
    by (simp add: find_None_iff_all)
  then show ?thesis by (auto simp: d' find_append split: option.splits)
qed

lemma token_upsert_view:
  assumes ok: "store_ok E K T w" and valid: "token_valid T tok"
    and run: "token_upsert E K i tok w = (r, w')"
  shows "store_ok E K T w'"
    and "token_view E K w' = (if is_err r then token_view E K w else (token_view E K w)(i \<mapsto> tok))"
proof -
  note res = token_upsert_result [OF run]
  from ok have env: "aead_ok E" "rfc3339_ok E T" by (simp_all add: store_ok_def crypto_ok_def)
  have wf: "wf_db (db w')" using wf_token_upsert [of w E K i tok] run ok by (simp add: store_ok_def)
  have "store_ok E K T w' \<and>
    token_view E K w' = (if is_err r then token_view E K w else (token_view E K w)(i \<mapsto> tok))"
  proof (cases r)
    case (Inl e)
    with res have "same_tables (db w) (db w')" by auto
    with ok Inl show ?thesis by (auto intro: store_ok_cong token_view_cong simp: same_tables_def)
  next
    case (Inr u)
    with res obtain a b v v' where enc: "fst (encrypt_field E K (st_access tok) v) = Inr a"
        "fst (encrypt_field E K (st_refresh tok) v') = Inr b"
      and up: "upsert_token (token_row_of E i a b tok) (db w) =
          (Inr (), snd (upsert_token (token_row_of E i a b tok) (db w)))"
      and toks: "tokens (db w') = tokens (snd (upsert_token (token_row_of E i a b tok) (db w)))"
      by auto
    let ?row = "token_row_of E i a b tok"
    have row: "encodes E K T ?row tok" by (rule encodes_row_of [OF env(1) valid enc])
    have "tokens_ok E K T (db w')"
      using tokens_ok_upsert [OF _ row, of "db w"] ok toks by (simp add: store_ok_def tokens_ok_def)
    moreover have "token_view E K w' j = ((token_view E K w)(i \<mapsto> tok)) j" for j
      using find_upsert [OF up, of j] decode_encodes(1) [OF env(2) row] toks
      by (simp add: token_view_def token_row_of_def)
    ultimately show ?thesis using ok wf Inr by (auto simp: store_ok_def)
  qed
  then show "store_ok E K T w'"
    and "token_view E K w' = (if is_err r then token_view E K w else (token_view E K w)(i \<mapsto> tok))"
    by blast+
qed

lemma token_delete_view:
  assumes ok: "store_ok E K T w" and run: "token_delete i w = (r, w')"
  shows "store_ok E K T w'"
    and "token_view E K w' = (if is_err r then token_view E K w else (token_view E K w)(i := None))"
proof -
  note res = token_delete_result [OF run]
  have wf: "wf_db (db w')" using wf_token_delete [of w i] run ok by (simp add: store_ok_def)
  have "store_ok E K T w' \<and>
    token_view E K w' = (if is_err r then token_view E K w else (token_view E K w)(i := None))"
  proof (cases r)
    case (Inl e)
    with res have "same_tables (db w) (db w')" by auto
    with ok Inl show ?thesis by (auto intro: store_ok_cong token_view_cong simp: same_tables_def)
  next
    case (Inr u)
    with res have toks: "tokens (db w') = filter (\<lambda>t. tr_account t \<noteq> i) (tokens (db w))" by auto
    have "token_view E K w' j = ((token_view E K w)(i := None)) j" for j
      by (cases "j = i") (simp_all add: token_view_def toks find_filter_none find_filter_other)
    moreover have "tokens_ok E K T (db w')" using ok toks by (auto simp: store_ok_def tokens_ok_def)
    ultimately show ?thesis using ok wf Inr by (auto simp: store_ok_def)
  qed
  then show "store_ok E K T w'"
    and "token_view E K w' = (if is_err r then token_view E K w else (token_view E K w)(i := None))"
    by blast+
qed

text \<open>The text comparison of the query is the comparison of times.\<close>

lemma idle_row:
  assumes "encodes E K T t tok" and "rfc3339_mono E T" and "T cutoff"
  shows "(case tr_last_used t of None \<Rightarrow> True | Some u \<Rightarrow> u < to_rfc3339 E cutoff) = idle cutoff tok"
  using assms
  by (cases "st_last_used tok") (auto simp: encodes_def idle_def token_valid_def rfc3339_mono_def)

lemma token_list_inactive_view:
  assumes ok: "store_ok E K T w" and "T cutoff" and run: "token_list_inactive E cutoff w = (Inr ids, w')"
  shows "set ids = {i. \<exists>t. token_view E K w i = Some t \<and> idle cutoff t}"
proof -
  let ?P = "\<lambda>t. case tr_last_used t of None \<Rightarrow> True | Some u \<Rightarrow> u < to_rfc3339 E cutoff"
  have mono: "rfc3339_mono E T" using ok by (simp add: store_ok_def crypto_ok_def)
  from token_list_inactive_result [OF run] have ids: "ids = map tr_account (filter ?P (tokens (db w)))" by simp
  have row: "\<exists>tok. token_view E K w (tr_account t) = Some tok \<and> ?P t = idle cutoff tok"
    if t: "t \<in> set (tokens (db w))" for t
  proof -
    from ok t have "List.find (\<lambda>u. tr_account u = tr_account t) (tokens (db w)) = Some t"
      by (intro find_unique_key) (auto simp: store_ok_def dest: wf_token_ids)
    from token_view_Some [OF ok this] idle_row [OF _ mono assms(2)] show ?thesis by blast
  qed
  have key: "\<exists>t \<in> set (tokens (db w)). tr_account t = i" if "token_view E K w i = Some tok" for i tok
    using that by (auto simp: token_view_def dest: find_Some_in split: option.splits)
  show ?thesis unfolding ids using row key by fastforce
qed

interpretation sqlite_tokens:
  token_store "store_ok E K T" "token_valid T" T "token_view E K" "token_get E K" "token_upsert E K"
    token_delete "token_list_inactive E" for E K T
proof (unfold_locales, goal_cases)
  case (1 w i rg w')
  then show ?case using token_get_view [OF 1] by blast
next
  case (2 w tok i ru w')
  then show ?case using token_upsert_view [OF 2] by simp
next
  case (3 w i ru w')
  then show ?case using token_delete_view [OF 3] by simp
next
  case (4 w c rl w')
  have "same_tables (db w) (db w')" using token_list_inactive_result [OF 4(3)] by simp
  then have "store_ok E K T w'" "token_view E K w' = token_view E K w"
    using 4(1) by (auto intro: store_ok_cong token_view_cong simp: same_tables_def)
  then show ?case using token_list_inactive_view [OF 4(1,2)] 4(3) by auto
qed

section \<open>A healthy engine\<close>

text \<open>With no failure scheduled and the lock not poisoned, reading a token cannot fail.\<close>

definition healthy :: "world \<Rightarrow> bool" where
  "healthy w \<longleftrightarrow> faults (db w) = [] \<and> \<not> poisoned (db w)"

lemma token_get_healthy:
  assumes ok: "store_ok E K T w" and "healthy w"
  shows "token_get E K i w = (Inr (token_view E K w i), w)"
proof -
  from assms(2) have q: "on_db (with_lock (run_sql (select_token i))) w =
      (Inr (List.find (\<lambda>t. tr_account t = i) (tokens (db w))), w)"
    by (simp add: healthy_def on_db_def run_sql_quiet select_token_def)
  show ?thesis
  proof (cases "List.find (\<lambda>t. tr_account t = i) (tokens (db w))")
    case None
    with q show ?thesis by (simp add: token_get_def token_view_def)
  next
    case (Some t)
    from token_view_Some [OF ok Some] obtain tok where tok: "encodes E K T t tok"
      "token_view E K w i = Some tok" "\<forall>n. decode_row E K t n = Inr tok" by blast
    have "rfc3339_ok E T" using ok by (simp add: store_ok_def crypto_ok_def)
    from decode_encodes(2) [OF this tok(1)] q Some tok(2,3) show ?thesis
      by (simp add: token_get_def)
  qed
qed

text \<open>AES-256-GCM encrypts whatever fits in memory.\<close>

definition seals :: "env \<Rightarrow> bool" where
  "seals E \<longleftrightarrow> (\<forall>k n p. \<exists>c. aead_seal E k n p = Inr c)"

lemma encrypt_field_seals: "seals E \<Longrightarrow> \<exists>b. encrypt_field E K s w = (Inr b, tock w)"
proof -
  assume "seals E"
  then obtain c where "aead_seal E K (nonces E (tick w)) (as_bytes s) = Inr c"
    unfolding seals_def by blast
  then show ?thesis by (simp add: encrypt_field_def encrypt_def)
qed

lemma token_upsert_healthy:
  assumes "seals E" and "healthy w" and "\<exists>r \<in> set (accounts (db w)). ar_id r = i"
  shows "\<exists>w'. token_upsert E K i tok w = (Inr (), w') \<and> healthy w'"
proof -
  obtain a where a: "encrypt_field E K (st_access tok) w = (Inr a, tock w)"
    using encrypt_field_seals [OF assms(1)] by blast
  obtain b where b: "encrypt_field E K (st_refresh tok) (tock w) = (Inr b, tock (tock w))"
    using encrypt_field_seals [OF assms(1)] by blast
  let ?s = "upsert_token (token_row_of E i a b tok)"
  have s: "fst (?s (db w)) = Inr ()" "faults (snd (?s (db w))) = faults (db w)"
    "poisoned (snd (?s (db w))) = poisoned (db w)"
    using assms(3) by (auto simp: upsert_token_def token_row_of_def)
  from assms(2) have "with_lock (run_sql ?s) (db w) = (Inr (), snd (?s (db w)))"
    using s(1) by (simp add: healthy_def run_sql_quiet)
  with a b have "token_upsert E K i tok w = (Inr (), (tock (tock w))\<lparr>db := snd (?s (db w))\<rparr>)"
    by (simp add: token_upsert_def on_db_eq)
  with s(2,3) assms(2) show ?thesis by (simp add: healthy_def)
qed

end
