(* ===== verification/Flows.thy ===== *)
theory Flows
  imports Accounts
begin

text \<open>
  \<open>src/storage/flows.rs\<close>: the registry of pending OAuth flows. A flow is stored under its
  CSRF state with the PKCE verifier encrypted, is consumed by the first callback that names the
  state, and is refused when it is older than ten minutes. The locale \<open>single_use\<close> is what the
  token manager needs of it.
\<close>

definition FLOW_TTL_SECS :: int where
  "FLOW_TTL_SECS = 600"

record pending_flow =
  pf_verifier :: string
  pf_tenant :: string
  pf_created :: int

datatype flow_error = UnknownState | Expired | FlowStorage string

text \<open>\<open>SystemTime::now().duration_since(UNIX_EPOCH)\<close>, in seconds as \<open>i64\<close>; 0 before the epoch.\<close>

definition unix_now :: "env \<Rightarrow> world \<Rightarrow> int \<times> world" where
  "unix_now E w =
     (let (t, w) = utc_now E w
      in (if t < 0 then 0 else sint (word_of_int (t div 10 ^ 9) :: 64 word), w))"

definition saturating_sub :: "int \<Rightarrow> int \<Rightarrow> int" where
  "saturating_sub a b = max (- (2 ^ 63)) (min (2 ^ 63 - 1) (a - b))"

text \<open>\<open>insert\<close>: panics (\<open>None\<close>) if encryption fails or the lock is poisoned; the two statements'
  results are dropped.\<close>

definition flow_insert ::
    "env \<Rightarrow> bytes \<Rightarrow> string \<Rightarrow> string \<Rightarrow> string \<Rightarrow> world \<Rightarrow> world option" where
  "flow_insert E K verifier tenant_id state w =
     (let (created_at, w) = unix_now E w;
          (blob, w) = encrypt E K (as_bytes verifier) w
      in case blob of
           Inl _ \<Rightarrow> None
         | Inr verifier_blob \<Rightarrow>
             if poisoned (db w) then None
             else Some (let (_, d) = exec_sql (purge_flows (created_at - FLOW_TTL_SECS)) (db w);
                            (_, d) = exec_sql (insert_flow \<lparr>fr_state = state, fr_verifier = verifier_blob,
                                        fr_tenant = tenant_id, fr_created = created_at\<rparr>) d
                        in w\<lparr>db := d\<rparr>))"

text \<open>The part of \<open>take\<close> under the lock: find the row and consume it.\<close>

definition take_row :: "string \<Rightarrow> database \<Rightarrow> (flow_error + flow_row) \<times> database" where
  "take_row state d =
     (if poisoned d then (Inl (FlowStorage lock_poisoned), d)
      else case exec_sql (select_flow state) d of
        (Inl e, d) \<Rightarrow> (Inl (FlowStorage (sql_error_text e)), d)
      | (Inr None, d) \<Rightarrow> (Inl UnknownState, d)
      | (Inr (Some row), d) \<Rightarrow>
          (case exec_sql (delete_flow state) d of
             (Inl e, d) \<Rightarrow> (Inl (FlowStorage (sql_error_text e)), d)
           | (Inr _, d) \<Rightarrow> (Inr row, d)))"

definition flow_take :: "env \<Rightarrow> bytes \<Rightarrow> string \<Rightarrow> world \<Rightarrow> (flow_error + pending_flow) \<times> world" where
  "flow_take E K state w =
     bindE (on_db (take_row state) w) (\<lambda>row w.
       let (t, w) = unix_now E w
       in if saturating_sub t (fr_created row) > FLOW_TTL_SECS then (Inl Expired, w)
          else (case decrypt E K (fr_verifier row) of
                  Inl e \<Rightarrow> (Inl (FlowStorage (''decrypt verifier: '' @ e)), w)
                | Inr bs \<Rightarrow>
                    (case from_utf8 bs of
                       None \<Rightarrow> (Inl (FlowStorage (''verifier is not valid UTF-8: '' @ utf8_error E bs)), w)
                     | Some verifier \<Rightarrow>
                         (Inr \<lparr>pf_verifier = verifier, pf_tenant = fr_tenant row,
                               pf_created = fr_created row\<rparr>, w))))"

section \<open>The table as a map\<close>

definition flow_view :: "world \<Rightarrow> string \<Rightarrow> flow_row option" where
  "flow_view w s = List.find (\<lambda>f. fr_state f = s) (oauth_flows (db w))"

lemma unix_now_frame [simp]: "db (snd (unix_now E w)) = db w" "wire (snd (unix_now E w)) = wire w"
  by (simp_all add: unix_now_def utc_now_def)

definition unix_time :: "env \<Rightarrow> nat \<Rightarrow> int" where
  "unix_time E n = (let t = clock E n in if t < 0 then 0 else sint (word_of_int (t div 10 ^ 9) :: 64 word))"

lemma unix_now_eq: "unix_now E w = (unix_time E (tick w), tock w)"
  by (simp add: unix_now_def utc_now_def unix_time_def Let_def)

lemma take_row_result:
  assumes "take_row s d = (r, d')"
  shows "accounts d' = accounts d \<and> tokens d' = tokens d \<and> poisoned d' = poisoned d \<and>
    ((\<exists>m. r = Inl (FlowStorage m) \<and> oauth_flows d' = oauth_flows d) \<or>
     (r = Inl UnknownState \<and> oauth_flows d' = oauth_flows d \<and>
        List.find (\<lambda>f. fr_state f = s) (oauth_flows d) = None) \<or>
     (\<exists>row. r = Inr row \<and> List.find (\<lambda>f. fr_state f = s) (oauth_flows d) = Some row \<and>
        oauth_flows d' = filter (\<lambda>f. fr_state f \<noteq> s) (oauth_flows d)))"
proof (cases "poisoned d")
  case True
  with assms show ?thesis by (auto simp: take_row_def)
next
  case False
  obtain r1 d1 where sel: "exec_sql (select_flow s) d = (r1, d1)" by force
  from sel have sel': "same_tables d d1 \<and> ((\<exists>m. r1 = Inl (SqlFailure m)) \<or>
      r1 = Inr (List.find (\<lambda>f. fr_state f = s) (oauth_flows d)))"
    by (cases rule: exec_sql_cases) (auto simp: select_flow_def)
  have eqs: "accounts d1 = accounts d" "tokens d1 = tokens d" "oauth_flows d1 = oauth_flows d"
    "poisoned d1 = poisoned d" using sel' by (simp_all add: same_tables_def)
  consider (err) e where "r1 = Inl e" | (none) "r1 = Inr None" | (row) row where "r1 = Inr (Some row)"
    by (cases r1) (auto split: option.splits)
  then show ?thesis
  proof cases
    case err
    with assms sel False have "r = Inl (FlowStorage (sql_error_text e))" "d' = d1"
      by (simp_all add: take_row_def)
    with eqs show ?thesis by simp
  next
    case none
    with assms sel False have "r = Inl UnknownState" "d' = d1" by (simp_all add: take_row_def)
    with eqs sel' none show ?thesis by simp
  next
    case row
    with sel' have find: "List.find (\<lambda>f. fr_state f = s) (oauth_flows d) = Some row" by simp
    obtain r2 d2 where del: "exec_sql (delete_flow s) d1 = (r2, d2)" by force
    have upd: "(\<exists>e. r2 = Inl e \<and> same_tables d1 d2) \<or>
       (\<exists>x fs. r2 = Inr x \<and> delete_flow s d1 = (Inr x, snd (delete_flow s d1)) \<and>
          d2 = (snd (delete_flow s d1))\<lparr>faults := fs\<rparr>)"
      by (rule update_result [OF del]) (auto simp: stmt_faults dest: stmt_err)
    show ?thesis
    proof (cases r2)
      case (Inl e)
      with assms sel row del False have "r = Inl (FlowStorage (sql_error_text e))" "d' = d2"
        by (simp_all add: take_row_def)
      with upd Inl eqs show ?thesis by (auto simp: same_tables_def)
    next
      case (Inr u)
      with assms sel row del False have "r = Inr row" "d' = d2" by (simp_all add: take_row_def)
      with upd Inr eqs find show ?thesis by (auto simp: delete_flow_def)
    qed
  qed
qed

lemma flow_take_result:
  assumes "flow_take E K s w = (r, w')"
  shows "accounts (db w') = accounts (db w) \<and> tokens (db w') = tokens (db w) \<and> wire w' = wire w \<and>
    ((\<exists>m. r = Inl (FlowStorage m) \<and> oauth_flows (db w') = oauth_flows (db w)) \<or>
     (r = Inl UnknownState \<and> oauth_flows (db w') = oauth_flows (db w) \<and> flow_view w s = None) \<or>
     (\<exists>row. flow_view w s = Some row \<and> r \<noteq> Inl UnknownState \<and>
        oauth_flows (db w') = filter (\<lambda>f. fr_state f \<noteq> s) (oauth_flows (db w)) \<and>
        (r = Inl Expired \<longleftrightarrow> saturating_sub (unix_time E (tick w)) (fr_created row) > FLOW_TTL_SECS) \<and>
        (\<forall>pf. r = Inr pf \<longrightarrow> pf_tenant pf = fr_tenant row \<and> pf_created pf = fr_created row \<and>
           (\<exists>bs. decrypt E K (fr_verifier row) = Inr bs \<and> from_utf8 bs = Some (pf_verifier pf)))))"
proof -
  obtain r0 d0 where tr: "take_row s (db w) = (r0, d0)" by force
  note res = take_row_result [OF tr]
  show ?thesis
  proof (cases r0)
    case (Inl e)
    with assms tr have "r = Inl e" "w' = w\<lparr>db := d0\<rparr>" by (simp_all add: flow_take_def on_db_eq)
    with res Inl show ?thesis by (auto simp: flow_view_def)
  next
    case (Inr row)
    with res have row: "flow_view w s = Some row"
      "oauth_flows d0 = filter (\<lambda>f. fr_state f \<noteq> s) (oauth_flows (db w))"
      "accounts d0 = accounts (db w)" "tokens d0 = tokens (db w)"
      by (auto simp: flow_view_def)
    from assms tr Inr have "w' = tock (w\<lparr>db := d0\<rparr>)"
      by (auto simp: flow_take_def on_db_eq unix_now_eq Let_def split: if_splits sum.splits option.splits)
    then have w': "db w' = d0" "wire w' = wire w" by simp_all
    from assms tr Inr have "r \<noteq> Inl UnknownState"
      and "r = Inl Expired \<longleftrightarrow> saturating_sub (unix_time E (tick w)) (fr_created row) > FLOW_TTL_SECS"
      and "\<forall>pf. r = Inr pf \<longrightarrow> pf_tenant pf = fr_tenant row \<and> pf_created pf = fr_created row \<and>
           (\<exists>bs. decrypt E K (fr_verifier row) = Inr bs \<and> from_utf8 bs = Some (pf_verifier pf))"
      by (auto simp: flow_take_def on_db_eq unix_now_eq split: if_splits sum.splits option.splits)
    with row w' show ?thesis by auto
  qed
qed

lemma wf_flow_take [preserve]: "wf_db (db w) \<Longrightarrow> wf_db (db (snd (flow_take E K s w)))"
proof -
  assume wf: "wf_db (db w)"
  obtain r w' where t: "flow_take E K s w = (r, w')" by force
  have "wf_db (db w')"
    using flow_take_result [OF t] wf by (auto simp: wf_db_def wf_tables_def distinct_map_filterI)
  with t show ?thesis by simp
qed

lemma wf_flow_insert [preserve]:
  "wf_db (db w) \<Longrightarrow> flow_insert E K v t s w = Some w' \<Longrightarrow> wf_db (db w')"
  by (auto simp: flow_insert_def unix_now_eq case_prod_unfold Let_def wf_exec_sql wf_purge_flows
      wf_insert_flow split: sum.splits if_splits)

text \<open>The other tables, and the pending flows that have not expired, survive an insertion; the new
  flow is stored unless the engine fails or the state is taken.\<close>

definition unexpired :: "int \<Rightarrow> flow_row \<Rightarrow> bool" where
  "unexpired t f \<longleftrightarrow> \<not> fr_created f \<le> t - FLOW_TTL_SECS"

lemma unexpired_eq: "(\<lambda>f. \<not> fr_created f \<le> t - FLOW_TTL_SECS) = unexpired t"
  by (simp add: unexpired_def fun_eq_iff)

lemma flow_insert_result:
  assumes "flow_insert E K v t s w = Some w'"
  shows "accounts (db w') = accounts (db w) \<and> tokens (db w') = tokens (db w) \<and> wire w' = wire w \<and>
    (\<exists>kept. (kept = oauth_flows (db w) \<or> kept = filter (unexpired (unix_time E (tick w))) (oauth_flows (db w))) \<and>
       (oauth_flows (db w') = kept \<or>
        (\<exists>blob. fst (encrypt E K (as_bytes v) (tock w)) = Inr blob \<and>
           s \<notin> fr_state ` set kept \<and>
           oauth_flows (db w') = kept @ [\<lparr>fr_state = s, fr_verifier = blob, fr_tenant = t,
             fr_created = unix_time E (tick w)\<rparr>])))"
proof -
  let ?n = "unix_time E (tick w)"
  obtain blob where blob: "fst (encrypt E K (as_bytes v) (tock w)) = Inr blob"
    using assms by (auto simp: flow_insert_def unix_now_eq case_prod_unfold Let_def split: sum.splits)
  let ?row = "\<lparr>fr_state = s, fr_verifier = blob, fr_tenant = t, fr_created = ?n\<rparr>"
  let ?w = "snd (encrypt E K (as_bytes v) (tock w))"
  obtain r1 d1 where p: "exec_sql (purge_flows (?n - FLOW_TTL_SECS)) (db w) = (r1, d1)" by force
  obtain r2 d2 where i: "exec_sql (insert_flow ?row) d1 = (r2, d2)" by force
  have w': "w' = ?w\<lparr>db := d2\<rparr>"
    using assms blob p i by (auto simp: flow_insert_def unix_now_eq case_prod_unfold Let_def split: if_splits)
  have "(\<exists>e. r1 = Inl e \<and> same_tables (db w) d1) \<or>
     (\<exists>x fs. r1 = Inr x \<and> purge_flows (?n - FLOW_TTL_SECS) (db w) = (Inr x, snd (purge_flows (?n - FLOW_TTL_SECS) (db w)))
        \<and> d1 = (snd (purge_flows (?n - FLOW_TTL_SECS) (db w)))\<lparr>faults := fs\<rparr>)"
    by (rule update_result [OF p]) (auto simp: stmt_faults dest: stmt_err)
  then have d1: "accounts d1 = accounts (db w)" "tokens d1 = tokens (db w)"
    "oauth_flows d1 = oauth_flows (db w) \<or> oauth_flows d1 = filter (unexpired ?n) (oauth_flows (db w))"
    by (auto simp: same_tables_def purge_flows_def unexpired_eq)
  have "(\<exists>e. r2 = Inl e \<and> same_tables d1 d2) \<or>
     (\<exists>x fs. r2 = Inr x \<and> insert_flow ?row d1 = (Inr x, snd (insert_flow ?row d1))
        \<and> d2 = (snd (insert_flow ?row d1))\<lparr>faults := fs\<rparr>)"
    by (rule update_result [OF i]) (auto simp: stmt_faults dest: stmt_err)
  then have d2: "accounts d2 = accounts d1" "tokens d2 = tokens d1"
    "oauth_flows d2 = oauth_flows d1 \<or>
     (s \<notin> fr_state ` set (oauth_flows d1) \<and> oauth_flows d2 = oauth_flows d1 @ [?row])"
    by (auto simp: same_tables_def insert_flow_def split: if_splits)
  have "accounts (db w') = accounts (db w)" "tokens (db w') = tokens (db w)" "wire w' = wire w"
    "oauth_flows (db w') = oauth_flows d2" using w' d1 d2 by simp_all
  then show ?thesis using d1(3) d2(3) blob by (metis (no_types, lifting))
qed

section \<open>The registry as single-use tickets\<close>

text \<open>A run of callbacks: the requests in the order they arrive, and which of them got a flow.\<close>

fun run_takes :: "('q \<Rightarrow> 'w \<Rightarrow> ('e + 'v) \<times> 'w) \<Rightarrow> 'q list \<Rightarrow> 'w \<Rightarrow> bool list \<times> 'w" where
  "run_takes take_op [] w = ([], w)"
| "run_takes take_op (q # qs) w =
     (let (r, w) = take_op q w; (bs, w) = run_takes take_op qs w in ((\<not> is_err r) # bs, w))"

text \<open>How often a key was granted in such a run.\<close>

definition granted :: "('q \<Rightarrow> 'k) \<Rightarrow> 'k \<Rightarrow> 'q list \<Rightarrow> bool list \<Rightarrow> nat" where
  "granted key k qs bs = length (filter (\<lambda>(q, b). key q = k \<and> b) (zip qs bs))"

locale single_use =
  fixes ok :: "'w \<Rightarrow> bool"
    and pending :: "'w \<Rightarrow> 'k \<Rightarrow> 'r option"
    and key :: "'q \<Rightarrow> 'k"
    and take_op :: "'q \<Rightarrow> 'w \<Rightarrow> ('e + 'v) \<times> 'w"
  assumes ok_law: "ok w \<Longrightarrow> take_op q w = (r, w') \<Longrightarrow> ok w'"
    and granted_law: "ok w \<Longrightarrow> take_op q w = (Inr v, w') \<Longrightarrow>
      pending w (key q) \<noteq> None \<and> pending w' (key q) = None"
    and frame_law: "ok w \<Longrightarrow> take_op q w = (r, w') \<Longrightarrow> pending w' j = None \<or> pending w' j = pending w j"
begin

lemma run_absent:
  "ok w \<Longrightarrow> pending w k = None \<Longrightarrow> granted key k qs (fst (run_takes take_op qs w)) = 0"
proof (induction qs arbitrary: w)
  case Nil
  then show ?case by (simp add: granted_def)
next
  case (Cons q qs)
  obtain r w1 where t: "take_op q w = (r, w1)" by force
  note ok1 = ok_law [OF Cons.prems(1) t]
  from frame_law [OF Cons.prems(1) t, of k] Cons.prems(2) have w1: "pending w1 k = None" by metis
  have "\<not> (key q = k \<and> \<not> is_err r)"
    using granted_law [OF Cons.prems(1), of q _ w1] t Cons.prems(2) by (cases r) auto
  with Cons.IH [OF ok1 w1] t show ?case
    by (auto simp: granted_def case_prod_unfold Let_def)
qed

lemma run_single_use: "ok w \<Longrightarrow> granted key k qs (fst (run_takes take_op qs w)) \<le> 1"
proof (induction qs arbitrary: w)
  case Nil
  then show ?case by (simp add: granted_def)
next
  case (Cons q qs)
  obtain r w1 where t: "take_op q w = (r, w1)" by force
  note ok1 = ok_law [OF Cons.prems t]
  show ?case
  proof (cases "key q = k \<and> \<not> is_err r")
    case True
    then obtain v where "r = Inr v" by (cases r) auto
    with granted_law [OF Cons.prems, of q v w1] t True have "pending w1 k = None" by simp
    from run_absent [OF ok1 this, of qs] True t show ?thesis
      by (simp add: granted_def case_prod_unfold Let_def)
  next
    case False
    with Cons.IH [OF ok1] t show ?thesis by (auto simp: granted_def case_prod_unfold Let_def)
  qed
qed

end

lemma flow_view_take:
  assumes "flow_take E K s w = (r, w')"
  shows "flow_view w' j = (if flow_view w' j = None then None else flow_view w j)"
    and "\<not> (\<exists>m. r = Inl (FlowStorage m)) \<Longrightarrow> flow_view w' s = None"
    and "j \<noteq> s \<Longrightarrow> flow_view w' j = flow_view w j"
proof -
  have gone: "List.find (\<lambda>f. fr_state f = s) (filter (\<lambda>f. fr_state f \<noteq> s) xs) = None" for xs :: "flow_row list"
    by (rule find_filter_none) simp
  have other: "j \<noteq> s \<Longrightarrow> List.find (\<lambda>f. fr_state f = j) (filter (\<lambda>f. fr_state f \<noteq> s) xs) =
      List.find (\<lambda>f. fr_state f = j) xs" for xs :: "flow_row list"
    by (rule find_filter_other) simp
  note res = flow_take_result [OF assms]
  from res other show fr: "j \<noteq> s \<Longrightarrow> flow_view w' j = flow_view w j"
    unfolding flow_view_def by auto
  from res gone show "\<not> (\<exists>m. r = Inl (FlowStorage m)) \<Longrightarrow> flow_view w' s = None"
    unfolding flow_view_def by auto
  show "flow_view w' j = (if flow_view w' j = None then None else flow_view w j)"
  proof (cases "j = s")
    case True
    with res gone show ?thesis unfolding flow_view_def by auto
  next
    case False
    with fr show ?thesis by simp
  qed
qed

interpretation flow_tickets: single_use "\<lambda>_. True" flow_view "\<lambda>state. state" "flow_take E K" for E K
proof (unfold_locales, goal_cases)
  case (2 w k v w')
  from flow_take_result [OF 2(2)] flow_view_take(2) [OF 2(2)] show ?case by auto
next
  case (3 w k r w' j)
  from flow_view_take(1) [OF 3(2), of j] show ?case by metis
qed

end
