(* ===== verification/TokenManager.thy ===== *)
theory TokenManager
  imports OAuth TokenStore Flows
begin

text \<open>
  \<open>src/auth/token.rs\<close>: the token manager. It completes consent flows and hands out access
  tokens, refreshing them when they expire. Each operation is the handler as written, run
  without interruption; \<open>Concurrency\<close> cuts \<open>refresh_account\<close>, \<open>disconnect\<close> and the cached path
  at their suspension points.
\<close>

definition EXPIRY_SKEW :: int where
  "EXPIRY_SKEW = 5 * 60 * 10 ^ 9"

definition USAGE_WRITE_INTERVAL :: int where
  "USAGE_WRITE_INTERVAL = 6 * 3600 * 10 ^ 9"

record resolved_identity =
  id_email :: string
  id_name :: "string option"

text \<open>The trait \<open>ProfileResolver\<close>: a function of the access token.\<close>

type_synonym resolver = "string \<Rightarrow> world \<Rightarrow> resolved_identity result \<times> world"

section \<open>Starting and completing a flow\<close>

text \<open>\<open>begin_flow\<close>; \<open>None\<close> is the panic of \<open>FlowStore::insert\<close>.\<close>

definition begin_flow :: "env \<Rightarrow> config \<Rightarrow> string \<Rightarrow> world \<Rightarrow> (url result \<times> world) option" where
  "begin_flow E C tenant_id w =
     (case authorize_url E C w of
        (Inl e, w) \<Rightarrow> Some (Inl e, w)
      | (Inr (url, verifier, state), w) \<Rightarrow>
          (case flow_insert E (encryption_key C) verifier tenant_id state w of
             None \<Rightarrow> None
           | Some w \<Rightarrow> Some (Inr url, w)))"

fun flow_app_error :: "flow_error \<Rightarrow> app_error" where
  "flow_app_error UnknownState = Auth ''unknown or already-used state''"
| "flow_app_error Expired = Auth ''authorization flow expired''"
| "flow_app_error (FlowStorage msg) = Storage msg"

definition no_refresh_token :: string where
  "no_refresh_token = ''no refresh token returned (ensure the '' @ [CHR 0x27] @ ''offline_access'' @
     [CHR 0x27] @ '' scope was granted)''"

text \<open>The account a flow is for: the tenant's account with that email address, or a new one.\<close>

definition flow_account ::
    "env \<Rightarrow> string \<Rightarrow> resolved_identity \<Rightarrow> world \<Rightarrow> account result \<times> world" where
  "flow_account E tenant_id identity w =
     (case account_get_by_email tenant_id (id_email identity) w of
        (Inr existing, w) \<Rightarrow>
          (let (t, w) = now E w
           in (Inr (existing\<lparr>acc_name := id_name identity, acc_status := Active, acc_updated := t\<rparr>), w))
      | (Inl (NotFound _), w) \<Rightarrow>
          (let new_id = uuids E (tick w); w = tock w; (created, w) = now E w; (updated, w) = now E w
           in (Inr \<lparr>acc_id = new_id, acc_tenant = tenant_id, acc_email = id_email identity,
                 acc_name = id_name identity, acc_provider = ''microsoft'', acc_status = Active,
                 acc_created = created, acc_updated = updated\<rparr>, w))
      | (Inl e, w) \<Rightarrow> (Inl e, w))"

text \<open>The record a token set is stored as.\<close>

definition stored_from :: "token_set \<Rightarrow> string \<Rightarrow> int \<Rightarrow> int \<Rightarrow> stored_token" where
  "stored_from ts refresh_token used updated =
     \<lparr>st_access = ts_access ts, st_refresh = refresh_token,
      st_scope = map_option (join '' '') (ts_scopes ts), st_expires = ts_expires ts,
      st_last_used = Some used, st_updated = updated\<rparr>"

definition save_flow ::
    "env \<Rightarrow> bytes \<Rightarrow> string \<Rightarrow> account \<Rightarrow> token_set \<Rightarrow> string \<Rightarrow> world \<Rightarrow> account result \<times> world" where
  "save_flow E K tenant_id account ts refresh_token w =
     (let (used, w) = utc_now E w; (updated, w) = utc_now E w;
          stored = stored_from ts refresh_token used updated;
          (found, w) = account_get tenant_id (acc_id account) w
      in bindE (if is_err found then account_create account w else (Inr (), w)) (\<lambda>_ w.
         bindE (token_upsert E K (acc_id account) stored w) (\<lambda>_ w.
           (Inr account, w))))"

definition complete_flow ::
    "env \<Rightarrow> config \<Rightarrow> resolver \<Rightarrow> string \<Rightarrow> string \<Rightarrow> world \<Rightarrow> account result \<times> world" where
  "complete_flow E C resolve code state w =
     bindE (let (r, w) = flow_take E (encryption_key C) state w in (map_err flow_app_error r, w)) (\<lambda>flow w.
     bindE (exchange_code E C code (pf_verifier flow) w) (\<lambda>ts w.
     bindE (ok_or (Auth no_refresh_token) (ts_refresh ts), w) (\<lambda>refresh_token w.
     bindE (resolve (ts_access ts) w) (\<lambda>identity w.
     bindE (flow_account E (pf_tenant flow) identity w) (\<lambda>account w.
       save_flow E (encryption_key C) (pf_tenant flow) account ts refresh_token w)))))"

section \<open>Access tokens\<close>

definition no_token :: string where
  "no_token = ''account is not connected (no token stored)''"

text \<open>\<open>account_lock\<close>: get or create the mutex of an account.\<close>

definition account_lock :: "string \<Rightarrow> world \<Rightarrow> nat \<times> world" where
  "account_lock i w =
     (case map_of (refresh_locks w) i of
        Some m \<Rightarrow> (m, w)
      | None \<Rightarrow> (length (refresh_locks w),
                 w\<lparr>refresh_locks := refresh_locks w @ [(i, length (refresh_locks w))]\<rparr>))"

text \<open>The three parts of a refresh: read the token, ask the provider, store the answer.\<close>

definition refresh_read :: "env \<Rightarrow> config \<Rightarrow> string \<Rightarrow> world \<Rightarrow> stored_token result \<times> world" where
  "refresh_read E C i w =
     bindE (token_get E (encryption_key C) i w) (\<lambda>t w. (ok_or (token_expired no_token) t, w))"

definition refresh_store ::
    "env \<Rightarrow> config \<Rightarrow> string \<Rightarrow> stored_token \<Rightarrow> token_set \<Rightarrow> world \<Rightarrow> unit result \<times> world" where
  "refresh_store E C i current ts w =
     (let refresh_token = (case ts_refresh ts of Some r \<Rightarrow> r | None \<Rightarrow> st_refresh current);
          (used, w) = utc_now E w; (updated, w) = utc_now E w
      in token_upsert E (encryption_key C) i (stored_from ts refresh_token used updated) w)"

definition refresh_account :: "env \<Rightarrow> config \<Rightarrow> string \<Rightarrow> world \<Rightarrow> unit result \<times> world" where
  "refresh_account E C i w =
     (let (_, w) = account_lock i w
      in bindE (refresh_read E C i w) (\<lambda>current w.
         bindE (refresh_tokens E C (st_refresh current) w) (\<lambda>ts w.
           refresh_store E C i current ts w)))"

definition bump_last_used :: "env \<Rightarrow> config \<Rightarrow> string \<Rightarrow> stored_token \<Rightarrow> world \<Rightarrow> world" where
  "bump_last_used E C i token w =
     (let (should_write, w) =
        (case st_last_used token of
           None \<Rightarrow> (True, w)
         | Some last_used \<Rightarrow> (let (t, w) = utc_now E w in (t - last_used > USAGE_WRITE_INTERVAL, w)))
      in if \<not> should_write then w
         else (let (used, w) = utc_now E w; (updated, w) = utc_now E w
               in snd (token_upsert E (encryption_key C) i
                         (token\<lparr>st_last_used := Some used, st_updated := updated\<rparr>) w)))"

definition refresh_and_read :: "env \<Rightarrow> config \<Rightarrow> string \<Rightarrow> world \<Rightarrow> string result \<times> world" where
  "refresh_and_read E C i w =
     bindE (refresh_account E C i w) (\<lambda>_ w.
     bindE (token_get E (encryption_key C) i w) (\<lambda>t w.
       (ok_or (token_expired no_token) (map_option st_access t), w)))"

definition get_access_token :: "env \<Rightarrow> config \<Rightarrow> string \<Rightarrow> world \<Rightarrow> string result \<times> world" where
  "get_access_token E C i w =
     bindE (token_get E (encryption_key C) i w) (\<lambda>t w.
       case t of
         None \<Rightarrow> refresh_and_read E C i w
       | Some token \<Rightarrow>
           (case st_expires token of
              None \<Rightarrow> refresh_and_read E C i w
            | Some expires_at \<Rightarrow>
                (let (t, w) = utc_now E w
                 in if expires_at > t + EXPIRY_SKEW
                    then (Inr (st_access token), bump_last_used E C i token w)
                    else refresh_and_read E C i w)))"

section \<open>Batches\<close>

definition dummy_account :: account where
  "dummy_account = \<lparr>acc_id = [], acc_tenant = [], acc_email = ''unknown'', acc_name = None,
     acc_provider = ''microsoft'', acc_status = Active, acc_created = [], acc_updated = []\<rparr>"

fun refresh_each :: "env \<Rightarrow> config \<Rightarrow> account list \<Rightarrow> world \<Rightarrow> (account \<times> unit result) list \<times> world" where
  "refresh_each E C [] w = ([], w)"
| "refresh_each E C (a # as) w =
     (if acc_status a = Disconnected then refresh_each E C as w
      else let (r, w) = refresh_account E C (acc_id a) w;
               (outcomes, w) = refresh_each E C as w
           in ((a, r) # outcomes, w))"

definition refresh_all :: "env \<Rightarrow> config \<Rightarrow> world \<Rightarrow> (account \<times> unit result) list \<times> world" where
  "refresh_all E C w =
     (case account_list_all w of
        (Inl e, w) \<Rightarrow> ([(dummy_account, Inl e)], w)
      | (Inr accs, w) \<Rightarrow> refresh_each E C accs w)"

fun refresh_ids :: "env \<Rightarrow> config \<Rightarrow> string list \<Rightarrow> nat \<Rightarrow> world \<Rightarrow> nat \<times> world" where
  "refresh_ids E C [] refreshed w = (refreshed, w)"
| "refresh_ids E C (i # ids) refreshed w =
     (case refresh_account E C i w of
        (Inr _, w) \<Rightarrow> refresh_ids E C ids (refreshed + 1) w
      | (Inl _, w) \<Rightarrow> refresh_ids E C ids refreshed w)"

text \<open>\<open>refresh_stale\<close>; \<open>None\<close> is the panic of \<open>chrono\<close> on a threshold out of its range.\<close>

definition refresh_stale :: "env \<Rightarrow> config \<Rightarrow> int \<Rightarrow> world \<Rightarrow> (nat \<times> world) option" where
  "refresh_stale E C inactivity_days w =
     (let (t, w) = utc_now E w
      in case now_minus_days E t inactivity_days of
           None \<Rightarrow> None
         | Some cutoff \<Rightarrow>
             Some (case token_list_inactive E cutoff w of
                     (Inl _, w) \<Rightarrow> (0, w)
                   | (Inr ids, w) \<Rightarrow> refresh_ids E C ids 0 w))"

definition disconnect :: "env \<Rightarrow> account \<Rightarrow> world \<Rightarrow> unit result \<times> world" where
  "disconnect E a w =
     bindE (token_delete (acc_id a) w) (\<lambda>_ w.
       account_set_status E (acc_tenant a) (acc_id a) Disconnected w)"

section \<open>Locks\<close>

definition locks_ok :: "world \<Rightarrow> bool" where
  "locks_ok w \<longleftrightarrow> distinct (map fst (refresh_locks w)) \<and>
     map snd (refresh_locks w) = [0..<length (refresh_locks w)]"

lemma account_lock_frame [simp]:
  "db (snd (account_lock i w)) = db w" "wire (snd (account_lock i w)) = wire w"
  "tick (snd (account_lock i w)) = tick w"
  by (simp_all add: account_lock_def split: option.splits)

lemma account_lock_maps: "map_of (refresh_locks (snd (account_lock i w))) i = Some (fst (account_lock i w))"
  by (auto simp: account_lock_def map_add_def split: option.splits)

lemma account_lock_keeps:
  "map_of (refresh_locks w) j = Some m \<Longrightarrow> map_of (refresh_locks (snd (account_lock i w))) j = Some m"
  by (auto simp: account_lock_def map_add_def split: option.splits)

lemma locks_ok_account_lock: "locks_ok w \<Longrightarrow> locks_ok (snd (account_lock i w))"
  by (auto simp: locks_ok_def account_lock_def map_of_eq_None_iff split: option.splits)

lemma locks_ok_inj:
  assumes "locks_ok w" and "map_of (refresh_locks w) i = Some m" and "map_of (refresh_locks w) j = Some m"
  shows "i = j"
proof -
  have d: "distinct (map snd (refresh_locks w))" using assms(1) by (simp add: locks_ok_def)
  from assms(2,3) have "(i, m) \<in> set (refresh_locks w)" "(j, m) \<in> set (refresh_locks w)"
    by (auto dest: map_of_SomeD)
  with d show ?thesis by (metis distinct_map inj_onD prod.inject snd_conv)
qed

section \<open>The schema's invariant\<close>

text \<open>An operation on the world that keeps the invariant, in any schedule of failures.\<close>

lemma wf_refresh_store [preserve]: "wf_db (db w) \<Longrightarrow> wf_db (db (snd (refresh_store E C i cur ts w)))"
  by (simp add: refresh_store_def utc_now_def Let_def wf_token_upsert)

lemma wf_refresh_read [preserve]: "wf_db (db w) \<Longrightarrow> wf_db (db (snd (refresh_read E C i w)))"
  unfolding refresh_read_def
  by (rule snd_bindE_keeps [where P = "\<lambda>w. wf_db (db w)"]) (simp_all add: wf_token_get)

lemma wf_refresh_account [preserve]: "wf_db (db w) \<Longrightarrow> wf_db (db (snd (refresh_account E C i w)))"
  unfolding refresh_account_def case_prod_unfold Let_def
  by (rule snd_bindE_keeps [where P = "\<lambda>w. wf_db (db w)"], simp add: wf_refresh_read,
      rule snd_bindE_keeps [where P = "\<lambda>w. wf_db (db w)"])
    (simp_all add: refresh_tokens_frame wf_refresh_read wf_refresh_store)

lemma wf_bump [preserve]: "wf_db (db w) \<Longrightarrow> wf_db (db (bump_last_used E C i tok w))"
  by (auto simp: bump_last_used_def utc_now_def Let_def wf_token_upsert split: option.splits)

lemma wf_refresh_and_read [preserve]: "wf_db (db w) \<Longrightarrow> wf_db (db (snd (refresh_and_read E C i w)))"
  unfolding refresh_and_read_def
  by (rule snd_bindE_keeps [where P = "\<lambda>w. wf_db (db w)"], simp add: wf_refresh_account,
      rule snd_bindE_keeps [where P = "\<lambda>w. wf_db (db w)"])
    (simp_all add: wf_token_get wf_refresh_account)

lemma wf_get_access_token [preserve]: "wf_db (db w) \<Longrightarrow> wf_db (db (snd (get_access_token E C i w)))"
  unfolding get_access_token_def
  by (rule snd_bindE_keeps [where P = "\<lambda>w. wf_db (db w)"])
    (auto simp: wf_token_get wf_refresh_and_read wf_bump utc_now_def Let_def split: option.splits)

lemma wf_refresh_each [preserve]: "wf_db (db w) \<Longrightarrow> wf_db (db (snd (refresh_each E C as w)))"
  by (induction as arbitrary: w) (auto simp: case_prod_unfold Let_def wf_refresh_account)

lemma wf_refresh_all [preserve]: "wf_db (db w) \<Longrightarrow> wf_db (db (snd (refresh_all E C w)))"
proof -
  assume wf: "wf_db (db w)"
  have "wf_db (db (snd (account_list_all w)))" by (rule wf_account_reads(4) [OF wf])
  then show ?thesis
    by (auto simp: refresh_all_def wf_refresh_each split: prod.splits sum.splits)
qed

lemma wf_refresh_ids [preserve]: "wf_db (db w) \<Longrightarrow> wf_db (db (snd (refresh_ids E C ids n w)))"
proof (induction ids arbitrary: n w)
  case (Cons i ids)
  have "wf_db (db (snd (refresh_account E C i w)))" by (rule wf_refresh_account [OF Cons.prems])
  with Cons.IH show ?case by (auto split: prod.splits sum.splits)
qed simp

lemma wf_refresh_stale [preserve]:
  "wf_db (db w) \<Longrightarrow> refresh_stale E C n w = Some (k, w') \<Longrightarrow> wf_db (db w')"
proof -
  assume wf: "wf_db (db w)" and run: "refresh_stale E C n w = Some (k, w')"
  have ids: "wf_db (db (snd (token_list_inactive E c (tock w))))" for c
    by (rule wf_token_list_inactive) (simp add: wf)
  have "wf_db (db (snd (refresh_ids E C is 0 (snd (token_list_inactive E c (tock w))))))" for "is" c
    by (rule wf_refresh_ids [OF ids])
  with ids run show ?thesis
    by (auto simp: refresh_stale_def utc_now_def Let_def split: option.splits prod.splits sum.splits)
      (metis snd_conv)+
qed

lemma wf_disconnect [preserve]: "wf_db (db w) \<Longrightarrow> wf_db (db (snd (disconnect E a w)))"
  unfolding disconnect_def
  by (rule snd_bindE_keeps [where P = "\<lambda>w. wf_db (db w)"])
    (simp_all add: wf_token_delete wf_account_set_status)

lemma wf_begin_flow [preserve]:
  "wf_db (db w) \<Longrightarrow> begin_flow E C t w = Some (r, w') \<Longrightarrow> wf_db (db w')"
proof -
  assume wf: "wf_db (db w)" and run: "begin_flow E C t w = Some (r, w')"
  obtain x w2 where au: "authorize_url E C w = (x, w2)" by (cases "authorize_url E C w")
  have "db w2 = db w" using authorize_url_frame(1) [of E C w] by (simp add: au)
  then have wf2: "wf_db (db w2)" using wf by simp
  show ?thesis
  proof (cases x)
    case (Inl e)
    with run au wf2 show ?thesis by (simp add: begin_flow_def)
  next
    case (Inr u)
    obtain url verifier state where u: "u = (url, verifier, state)" by (cases u)
    from run au Inr u obtain w3 where "flow_insert E (encryption_key C) verifier t state w2 = Some w3" "w3 = w'"
      by (auto simp: begin_flow_def split: option.splits)
    with wf2 show ?thesis by (simp add: wf_flow_insert)
  qed
qed

lemma wf_flow_account [preserve]: "wf_db (db w) \<Longrightarrow> wf_db (db (snd (flow_account E t ident w)))"
proof -
  assume wf: "wf_db (db w)"
  have "wf_db (db (snd (account_get_by_email t (id_email ident) w)))" by (rule wf_account_reads(3) [OF wf])
  then show ?thesis
    by (auto simp: flow_account_def now_def utc_now_def Let_def split: prod.splits sum.splits app_error.splits)
qed

lemma wf_save_flow [preserve]: "wf_db (db w) \<Longrightarrow> wf_db (db (snd (save_flow E K t a ts rt w)))"
  unfolding save_flow_def utc_now_def case_prod_unfold Let_def
  by (rule snd_bindE_keeps [where P = "\<lambda>w. wf_db (db w)"],
      simp add: wf_account_create wf_account_reads,
      rule snd_bindE_keeps [where P = "\<lambda>w. wf_db (db w)"])
    (simp_all add: wf_account_create wf_account_reads wf_token_upsert)

end
