(* ===== verification/Ticks.thy ===== *)
theory Ticks
  imports TokenManager
begin

text \<open>
  The outside world is consulted in order: every reading of the clock, every random value and every
  answer over the network has a number of its own, and an operation only takes later ones. So what an
  operation does at a reading it made can be told from what it could have done at another.
\<close>

named_theorems forward \<open>operations that take later readings only\<close>

lemma forward_bind [forward]:
  assumes "n \<le> tick (snd m)" and "\<And>a w. n \<le> tick w \<Longrightarrow> n \<le> tick (snd (f a w))"
  shows "n \<le> tick (snd (bindE m f))"
  using assms by (auto simp: bindE_def split: prod.split sum.split)

lemma forward_pair [forward]: "n \<le> tick w \<Longrightarrow> n \<le> tick (snd (x, w))"
  by simp

lemma forward_on_db [forward]: "n \<le> tick w \<Longrightarrow> n \<le> tick (snd (on_db f w))"
  by simp

lemma forward_now [forward]: "n \<le> tick w \<Longrightarrow> n \<le> tick (snd (now E w))"
  by (simp add: now_def utc_now_def)

section \<open>The stores\<close>

lemma forward_account_get [forward]: "n \<le> tick w \<Longrightarrow> n \<le> tick (snd (account_get t i w))"
  by (simp add: account_get_def)

lemma forward_account_list [forward]: "n \<le> tick w \<Longrightarrow> n \<le> tick (snd (account_list t w))"
  by (simp add: account_list_def)

lemma forward_account_by_email [forward]: "n \<le> tick w \<Longrightarrow> n \<le> tick (snd (account_get_by_email t i w))"
  by (simp add: account_get_by_email_def)

lemma forward_account_set_status [forward]: "n \<le> tick w \<Longrightarrow> n \<le> tick (snd (account_set_status E t i s w))"
  by (simp add: account_set_status_def now_def utc_now_def)

lemma forward_token_get [forward]: "n \<le> tick w \<Longrightarrow> n \<le> tick (snd (token_get E K i w))"
  unfolding token_get_def by (intro forward) (auto split: option.split sum.split)

lemma forward_encrypt_field [forward]: "n \<le> tick w \<Longrightarrow> n \<le> tick (snd (encrypt_field E K s w))"
  using encrypt_frame(3) [of E K "as_bytes s" w] by (simp add: encrypt_field_def case_prod_unfold Let_def)

lemma forward_token_upsert [forward]: "n \<le> tick w \<Longrightarrow> n \<le> tick (snd (token_upsert E K i tok w))"
  unfolding token_upsert_def by (intro forward)

lemma forward_token_delete [forward]: "n \<le> tick w \<Longrightarrow> n \<le> tick (snd (token_delete i w))"
  by (simp add: token_delete_def)

section \<open>The token manager\<close>

lemma forward_token_set [forward]: "n \<le> tick w \<Longrightarrow> n \<le> tick (snd (token_set_from E r w))"
  by (auto simp: token_set_from_def utc_now_def Let_def split: option.split)

lemma forward_refresh_tokens [forward]:
  assumes "n \<le> tick w"
  shows "n \<le> tick (snd (refresh_tokens E C rt w))"
proof (cases "oauth_client E C")
  case (Inl e)
  with assms show ?thesis by (simp add: refresh_tokens_def)
next
  case (Inr cl)
  obtain r w1 where c: "call_idp E (ExchangeRefresh cl rt) w = (r, w1)" by force
  then have "n \<le> tick w1" using call_idp_simps(4) [of E "ExchangeRefresh cl rt" w] assms by simp
  with forward_token_set [OF this] show ?thesis
    using Inr c by (cases r) (simp_all add: refresh_tokens_def case_prod_unfold Let_def)
qed

lemma forward_refresh_read [forward]: "n \<le> tick w \<Longrightarrow> n \<le> tick (snd (refresh_read E C i w))"
  unfolding refresh_read_def by (intro forward)

lemma forward_refresh_store [forward]: "n \<le> tick w \<Longrightarrow> n \<le> tick (snd (refresh_store E C i cur ts w))"
  unfolding refresh_store_def utc_now_def Let_def prod.case by (intro forward) simp

lemma forward_refresh_account [forward]: "n \<le> tick w \<Longrightarrow> n \<le> tick (snd (refresh_account E C i w))"
  unfolding refresh_account_def case_prod_unfold Let_def by (intro forward) simp

lemma forward_refresh_and_read [forward]: "n \<le> tick w \<Longrightarrow> n \<le> tick (snd (refresh_and_read E C i w))"
  unfolding refresh_and_read_def by (intro forward)

lemma forward_bump [forward]:
  assumes "n \<le> tick w"
  shows "n \<le> tick (bump_last_used E C i tok w)"
  using assms by (auto simp: bump_last_used_def utc_now_def Let_def split: option.split intro!: forward_token_upsert)

lemma forward_get_access_token [forward]:
  assumes "n \<le> tick w"
  shows "n \<le> tick (snd (get_access_token E C i w))"
  unfolding get_access_token_def
proof (intro forward_bind forward_token_get assms)
  fix t and v :: world assume "n \<le> tick v"
  then show "n \<le> tick (snd (case t of None \<Rightarrow> refresh_and_read E C i v
      | Some token \<Rightarrow> (case st_expires token of None \<Rightarrow> refresh_and_read E C i v
         | Some expires_at \<Rightarrow> (let (t, w) = utc_now E v in
              if expires_at > t + EXPIRY_SKEW then (Inr (st_access token), bump_last_used E C i token w)
              else refresh_and_read E C i w))))"
    by (auto simp: utc_now_def split: option.split intro!: forward_refresh_and_read forward_bump)
qed

lemma forward_disconnect [forward]: "n \<le> tick w \<Longrightarrow> n \<le> tick (snd (disconnect E a w))"
  unfolding disconnect_def by (intro forward)

text \<open>The reading at which a new flow is stamped, and expired ones are purged, is one of \<open>begin_flow\<close>'s.\<close>

lemma flow_insert_forward:
  assumes "flow_insert E K v t s w = Some w'"
  shows "tick w < tick w'"
proof -
  have "tick (snd (encrypt E K (as_bytes v) (tock w))) = Suc (Suc (tick w))" by simp
  with assms show ?thesis
    by (auto simp: flow_insert_def unix_now_eq case_prod_unfold Let_def split: sum.splits if_splits)
qed

lemma authorize_url_forward: "tick w \<le> tick (snd (authorize_url E C w))"
  by (simp add: authorize_url_def case_prod_unfold Let_def split: sum.split)

end
