(* ===== verification/TokenProps.thy ===== *)
theory TokenProps
  imports Ticks
begin

text \<open>
  What the operations of the token manager do, in terms of the two stores: the account table and
  the map \<open>token_view\<close>. \<open>idp_ok\<close> is what they need of the identity provider and of the clock.
  The locale \<open>account_step\<close> is the shape of a batch: a step that works for one account and leaves
  the tokens of the others alone.
\<close>

text \<open>The provider's strings are Rust strings, and the clock and the expiry times computed from
  it stay in the range RFC 3339 renders.\<close>

definition idp_ok :: "env \<Rightarrow> (int \<Rightarrow> bool) \<Rightarrow> bool" where
  "idp_ok E T \<longleftrightarrow> (\<forall>n. T (clock E n)) \<and>
     (\<forall>n rq resp. idp E n rq = Inr resp \<longrightarrow>
        rust_str (tp_access resp) \<and> pred_option rust_str (tp_refresh resp) \<and>
        (\<forall>d m. tp_expires_in resp = Some d \<longrightarrow>
           T (clock E m + (case chrono_from_std E d of Some s \<Rightarrow> s | None \<Rightarrow> HOUR))))"

lemma idp_okD:
  assumes "idp_ok E T"
  shows "T (clock E n)"
    and "idp E n rq = Inr resp \<Longrightarrow> rust_str (tp_access resp)"
    and "idp E n rq = Inr resp \<Longrightarrow> pred_option rust_str (tp_refresh resp)"
    and "idp E n rq = Inr resp \<Longrightarrow> pred_option T (map_option (\<lambda>d. clock E m +
      (case chrono_from_std E d of Some s \<Rightarrow> s | None \<Rightarrow> HOUR)) (tp_expires_in resp))"
proof -
  from assms have rule: "idp E n rq = Inr resp \<Longrightarrow> rust_str (tp_access resp) \<and>
      pred_option rust_str (tp_refresh resp) \<and> (\<forall>d m. tp_expires_in resp = Some d \<longrightarrow>
        T (clock E m + (case chrono_from_std E d of Some s \<Rightarrow> s | None \<Rightarrow> HOUR)))"
    unfolding idp_ok_def by blast
  from assms show "T (clock E n)" by (simp add: idp_ok_def)
  from rule show "idp E n rq = Inr resp \<Longrightarrow> rust_str (tp_access resp)"
    "idp E n rq = Inr resp \<Longrightarrow> pred_option rust_str (tp_refresh resp)" by blast+
  from rule show "idp E n rq = Inr resp \<Longrightarrow> pred_option T (map_option (\<lambda>d. clock E m +
      (case chrono_from_std E d of Some s \<Rightarrow> s | None \<Rightarrow> HOUR)) (tp_expires_in resp))"
    by (cases "tp_expires_in resp") (blast | simp)+
qed

text \<open>The provider's answers never make \<open>token_set_from\<close> panic.\<close>

lemma answers_never_panic:
  assumes "idp_ok E T" and "utc_plus_ok E T" and "idp E n rq = Inr resp"
  shows "token_set_from_checked E resp w = Some (token_set_from E resp w)"
proof (rule token_set_from_checked_eq [OF assms(2)])
  fix d assume "tp_expires_in resp = Some d"
  with idp_okD(4) [OF assms(1,3), of "tick w"]
  show "T (clock E (tick w) + (case chrono_from_std E d of Some s \<Rightarrow> s | None \<Rightarrow> HOUR))" by simp
qed

text \<open>Nothing but tokens may differ.\<close>

definition tokens_only :: "world \<Rightarrow> world \<Rightarrow> bool" where
  "tokens_only w w' \<longleftrightarrow> accounts (db w') = accounts (db w) \<and> oauth_flows (db w') = oauth_flows (db w)"

lemma tokens_only_refl [simp]: "tokens_only w w"
  by (simp add: tokens_only_def)

lemma tokens_only_trans: "tokens_only a b \<Longrightarrow> tokens_only b c \<Longrightarrow> tokens_only a c"
  by (simp add: tokens_only_def)

lemma store_ok_db: "db w' = db w \<Longrightarrow> store_ok E K T w' = store_ok E K T w"
  by (simp add: store_ok_def)

lemma token_view_db: "db w' = db w \<Longrightarrow> token_view E K w' = token_view E K w"
  by (rule token_view_cong) simp

lemma token_view_valid:
  assumes "store_ok E K T w" and "token_view E K w i = Some tok"
  shows "token_valid T tok"
proof -
  from assms(2) obtain t where "List.find (\<lambda>t. tr_account t = i) (tokens (db w)) = Some t"
    by (auto simp: token_view_def split: option.splits)
  from token_view_Some [OF assms(1) this] assms(2) show ?thesis by (auto simp: encodes_def)
qed

lemma stored_from_valid:
  assumes "rust_str (ts_access ts)" "rust_str rt" "pred_option T (ts_expires ts)" "T u" "T v"
  shows "token_valid T (stored_from ts rt u v)"
  using assms by (simp add: token_valid_def stored_from_def)

lemma account_lock_eq: "account_lock i w = (m, w1) \<Longrightarrow> db w1 = db w \<and> wire w1 = wire w \<and> tick w1 = tick w"
  using account_lock_frame [of i w] by simp

section \<open>One refresh\<close>

lemma refresh_read_result:
  assumes ok: "store_ok E (encryption_key C) T w" and run: "refresh_read E C i w = (r, w')"
  shows "store_ok E (encryption_key C) T w'"
    and "token_view E (encryption_key C) w' = token_view E (encryption_key C) w"
    and "wire w' = wire w" and "tokens_only w w'"
    and "r = Inr cur \<Longrightarrow> token_view E (encryption_key C) w i = Some cur"
    and "r = Inl e \<Longrightarrow> (\<exists>m. e = Storage m) \<or>
      (e = TokenExpired no_token \<and> token_view E (encryption_key C) w i = None)"
proof -
  obtain r1 where g: "token_get E (encryption_key C) i w = (r1, w')"
    and r: "r = (case r1 of Inl e \<Rightarrow> Inl e | Inr t \<Rightarrow> ok_or (TokenExpired no_token) t)"
    using run unfolding refresh_read_def token_expired_def
    by (cases "token_get E (encryption_key C) i w") (auto split: sum.splits simp: bindE_def)
  note v = token_get_view [OF ok g]
  from v show "store_ok E (encryption_key C) T w'" "wire w' = wire w"
    "token_view E (encryption_key C) w' = token_view E (encryption_key C) w" by auto
  show "tokens_only w w'" using token_get_result [OF g] by (simp add: tokens_only_def same_tables_def)
  show "r = Inr cur \<Longrightarrow> token_view E (encryption_key C) w i = Some cur"
    using v(3) r by (auto split: sum.splits)
  show "r = Inl e \<Longrightarrow> (\<exists>m. e = Storage m) \<or>
      (e = TokenExpired no_token \<and> token_view E (encryption_key C) w i = None)"
    using v(3,5) r by (auto split: sum.splits)
qed

text \<open>The token a refresh stores: the answer's, with the old refresh token if it has none.\<close>

definition refreshed :: "stored_token \<Rightarrow> token_response \<Rightarrow> stored_token \<Rightarrow> bool" where
  "refreshed cur resp new \<longleftrightarrow>
     st_access new = tp_access resp \<and>
     st_refresh new = (case tp_refresh resp of Some r \<Rightarrow> r | None \<Rightarrow> st_refresh cur) \<and>
     st_scope new = map_option (join '' '') (tp_scopes resp) \<and>
     (st_expires new = None \<longleftrightarrow> tp_expires_in resp = None)"

lemma refresh_store_result:
  assumes ok: "store_ok E (encryption_key C) T w" and idp: "idp_ok E T"
    and cur: "token_valid T cur"
    and ts: "fst (refresh_tokens E C (st_refresh cur) v) = Inr ts"
    and run: "refresh_store E C i cur ts w = (r, w')"
  shows "store_ok E (encryption_key C) T w'" and "wire w' = wire w" and "tokens_only w w'"
    and "r = Inl e \<Longrightarrow> token_view E (encryption_key C) w' = token_view E (encryption_key C) w"
    and "r = Inr u \<Longrightarrow> \<exists>cl resp new. oauth_client E C = Inr cl \<and>
      idp E (tick v) (ExchangeRefresh cl (st_refresh cur)) = Inr resp \<and> refreshed cur resp new \<and>
      token_view E (encryption_key C) w' = (token_view E (encryption_key C) w)(i \<mapsto> new)"
    and "r = Inr u \<Longrightarrow> \<exists>new. token_view E (encryption_key C) w' i = Some new \<and>
      st_last_used new = Some (clock E (tick w))"
proof -
  obtain cl resp where resp: "oauth_client E C = Inr cl"
      "idp E (tick v) (ExchangeRefresh cl (st_refresh cur)) = Inr resp"
      "ts_access ts = tp_access resp" "ts_refresh ts = tp_refresh resp" "ts_scopes ts = tp_scopes resp"
      "ts_expires ts = map_option (\<lambda>d. clock E (Suc (tick v)) +
        (case chrono_from_std E d of Some s \<Rightarrow> s | None \<Rightarrow> HOUR)) (tp_expires_in resp)"
    using refresh_tokens_Inr [OF ts] by blast
  let ?rt = "case ts_refresh ts of Some r \<Rightarrow> r | None \<Rightarrow> st_refresh cur"
  let ?new = "stored_from ts ?rt (clock E (tick w)) (clock E (Suc (tick w)))"
  let ?w = "tock (tock w)"
  have run': "token_upsert E (encryption_key C) i ?new ?w = (r, w')"
    using run by (simp add: refresh_store_def utc_now_def)
  note fromidp = idp_okD [OF idp]
  have rt: "rust_str ?rt"
    using fromidp(3) [OF resp(2)] resp(4) cur by (cases "tp_refresh resp") (simp_all add: token_valid_def)
  have valid: "token_valid T ?new"
    by (rule stored_from_valid)
      (use fromidp(1) fromidp(2,4) [OF resp(2)] resp(3,6) rt in simp_all)
  have okw: "store_ok E (encryption_key C) T ?w" using ok by (simp add: store_ok_def)
  have vw: "token_view E (encryption_key C) ?w = token_view E (encryption_key C) w"
    by (rule token_view_db) simp
  note up = token_upsert_view [OF okw valid run'] token_upsert_result [OF run']
  from up(1) show "store_ok E (encryption_key C) T w'" .
  from up(3) show "wire w' = wire w" "tokens_only w w'" by (simp_all add: tokens_only_def)
  from up(2) vw show "r = Inl e \<Longrightarrow> token_view E (encryption_key C) w' = token_view E (encryption_key C) w"
    by simp
  from up(2) show "r = Inr u \<Longrightarrow> \<exists>new. token_view E (encryption_key C) w' i = Some new \<and>
      st_last_used new = Some (clock E (tick w))"
    by (simp add: stored_from_def)
  have "refreshed cur resp ?new" using resp by (simp add: refreshed_def stored_from_def)
  with up(2) vw resp(1,2)
  show "r = Inr u \<Longrightarrow> \<exists>cl resp new. oauth_client E C = Inr cl \<and>
      idp E (tick v) (ExchangeRefresh cl (st_refresh cur)) = Inr resp \<and> refreshed cur resp new \<and>
      token_view E (encryption_key C) w' = (token_view E (encryption_key C) w)(i \<mapsto> new)"
    by auto
qed

lemma refresh_account_result:
  assumes ok: "store_ok E (encryption_key C) T w" and idp: "idp_ok E T"
    and run: "refresh_account E C i w = (r, w')"
  shows "store_ok E (encryption_key C) T w'" (is ?ok) and "tokens_only w w'" (is ?frame)
    and "r = Inl e \<Longrightarrow> token_view E (encryption_key C) w' = token_view E (encryption_key C) w"
      (is "_ \<Longrightarrow> ?failed")
    and "r = Inr u \<Longrightarrow> \<exists>cur cl n resp new. token_view E (encryption_key C) w i = Some cur \<and>
      oauth_client E C = Inr cl \<and> idp E n (ExchangeRefresh cl (st_refresh cur)) = Inr resp \<and>
      refreshed cur resp new \<and> wire w' = wire w @ [ToIdp (ExchangeRefresh cl (st_refresh cur))] \<and>
      token_view E (encryption_key C) w' = (token_view E (encryption_key C) w)(i \<mapsto> new)"
      (is "_ \<Longrightarrow> ?done")
    and "wire w' = wire w \<or> (\<exists>cur cl. token_view E (encryption_key C) w i = Some cur \<and>
      oauth_client E C = Inr cl \<and> wire w' = wire w @ [ToIdp (ExchangeRefresh cl (st_refresh cur))])"
      (is ?sent)
proof -
  let ?K = "encryption_key C"
  obtain m w1 where l: "account_lock i w = (m, w1)" by force
  obtain r2 w2 where rd: "refresh_read E C i w1 = (r2, w2)" by force
  have w1: "db w1 = db w" "wire w1 = wire w" using account_lock_eq [OF l] by simp_all
  have ok1: "store_ok E ?K T w1" using ok w1 by (simp add: store_ok_def)
  note rdr = refresh_read_result [OF ok1 rd]
  have v1: "token_view E ?K w1 = token_view E ?K w" by (rule token_view_db) (rule w1)
  have f1: "tokens_only w w2" using rdr(4) w1 by (simp add: tokens_only_def)
  have "?ok \<and> ?frame \<and> (\<forall>e. r = Inl e \<longrightarrow> ?failed) \<and> (\<forall>u. r = Inr u \<longrightarrow> ?done) \<and> ?sent"
  proof (cases r2)
    case (Inl e)
    with run l rd have "r = Inl e" "w' = w2" by (simp_all add: refresh_account_def)
    with rdr v1 w1 f1 show ?thesis by simp
  next
    case (Inr cur)
    with rdr(5) v1 have cur: "token_view E ?K w i = Some cur" by simp
    obtain r3 w3 where rf: "refresh_tokens E C (st_refresh cur) w2 = (r3, w3)" by force
    have w3: "db w3 = db w2" "wire w3 = wire w @ (case oauth_client E C of Inl _ \<Rightarrow> []
        | Inr cl \<Rightarrow> [ToIdp (ExchangeRefresh cl (st_refresh cur))])"
      using refresh_tokens_frame [of E C "st_refresh cur" w2] rf rdr(3) w1 by simp_all
    have ok3: "store_ok E ?K T w3" using rdr(1) w3 by (simp add: store_ok_def)
    have v3: "token_view E ?K w3 = token_view E ?K w" using token_view_db [OF w3(1)] rdr(2) v1 by simp
    have f3: "tokens_only w w3" using f1 w3 by (simp add: tokens_only_def)
    have sent3: "wire w3 = wire w \<or> (\<exists>cl. oauth_client E C = Inr cl \<and>
        wire w3 = wire w @ [ToIdp (ExchangeRefresh cl (st_refresh cur))])"
      using w3 by (cases "oauth_client E C") auto
    show ?thesis
    proof (cases r3)
      case (Inl e)
      with run l rd \<open>r2 = Inr cur\<close> rf have "r = Inl e" "w' = w3" by (simp_all add: refresh_account_def)
      with ok3 v3 f3 sent3 cur show ?thesis by simp
    next
      case (Inr ts)
      with run l rd \<open>r2 = Inr cur\<close> rf have st: "refresh_store E C i cur ts w3 = (r, w')"
        by (simp add: refresh_account_def)
      have ts: "fst (refresh_tokens E C (st_refresh cur) w2) = Inr ts" using rf Inr by simp
      note s = refresh_store_result [OF ok3 idp token_view_valid [OF ok cur] ts st]
      have all: "r = Inr u \<longrightarrow> ?done" for u
      proof
        assume r: "r = Inr u"
        from s(5) [OF r] obtain cl resp new where new: "oauth_client E C = Inr cl"
          "idp E (tick w2) (ExchangeRefresh cl (st_refresh cur)) = Inr resp" "refreshed cur resp new"
          "token_view E ?K w' = (token_view E ?K w3)(i \<mapsto> new)" by blast
        with s(2) v3 w3(2) have "wire w' = wire w @ [ToIdp (ExchangeRefresh cl (st_refresh cur))]"
          "token_view E ?K w' = (token_view E ?K w)(i \<mapsto> new)" by simp_all
        with new cur show ?done by blast
      qed
      have frame: ?frame by (rule tokens_only_trans [OF f3 s(3)])
      from s(2) sent3 cur have sent: ?sent by auto
      have failed: "r = Inl e \<longrightarrow> ?failed" for e using s(4) v3 by simp
      show ?thesis by (intro conjI allI s(1) frame failed all sent)
    qed
  qed
  note all = this
  from all show ?ok by (rule conjunct1)
  from all show ?frame by (elim conjE)
  from all show "r = Inl e \<Longrightarrow> ?failed" by (elim conjE allE [of _ e]) (erule mp)
  from all show "r = Inr u \<Longrightarrow> ?done" by (elim conjE allE [of _ u]) (erule mp)
  from all show ?sent by (elim conjE)
qed

section \<open>Handing out access tokens\<close>

text \<open>A decoded row whose time parses costs no clock reading.\<close>

lemma token_get_tick:
  assumes ok: "store_ok E K T w" and run: "token_get E K i w = (r, w')"
  shows "tick w' = tick w"
proof -
  obtain r0 w0 where q: "on_db (with_lock (run_sql (select_token i))) w = (r0, w0)" by force
  then obtain d0 where d0: "with_lock (run_sql (select_token i)) (db w) = (r0, d0)" "w0 = w\<lparr>db := d0\<rparr>"
    by (rule on_db_run)
  have q0: "r0 = Inl e \<or> r0 = Inr (List.find (\<lambda>t. tr_account t = i) (tokens (db w)))" if "r0 = Inl e \<or> \<not> is_err r0" for e
    using locked_query [OF _ _ d0(1), of "\<lambda>d. List.find (\<lambda>t. tr_account t = i) (tokens d)"] that
    by (auto simp: select_token_def)
  from d0(2) have w0: "tick w0 = tick w" by simp
  show ?thesis
  proof (cases r0)
    case (Inl e)
    with run q w0 show ?thesis by (simp add: token_get_def)
  next
    case (Inr x)
    with q0 have x: "x = List.find (\<lambda>t. tr_account t = i) (tokens (db w))" by simp
    show ?thesis
    proof (cases x)
      case None
      with run q w0 Inr show ?thesis by (simp add: token_get_def)
    next
      case (Some t)
      with x have "List.find (\<lambda>t. tr_account t = i) (tokens (db w)) = Some t" by simp
      from token_view_Some [OF ok this] obtain tok where "encodes E K T t tok" by blast
      moreover have "rfc3339_ok E T" using ok by (simp add: store_ok_def crypto_ok_def)
      ultimately have "parse_time E (tr_updated t) = Some (st_updated tok)" by (rule decode_encodes(2) [rotated])
      with run q w0 Inr Some show ?thesis by (auto simp: token_get_def split: sum.splits)
    qed
  qed
qed

text \<open>The bump only moves the usage times of the token it is given.\<close>

lemma bump_result:
  assumes ok: "store_ok E (encryption_key C) T w" and idp: "idp_ok E T"
    and tok: "token_view E (encryption_key C) w i = Some tok"
  shows "store_ok E (encryption_key C) T (bump_last_used E C i tok w)"
    and "wire (bump_last_used E C i tok w) = wire w"
    and "tokens_only w (bump_last_used E C i tok w)"
    and "\<exists>u v. token_view E (encryption_key C) (bump_last_used E C i tok w) =
      (token_view E (encryption_key C) w)(i \<mapsto> tok\<lparr>st_last_used := u, st_updated := v\<rparr>)"
proof -
  let ?K = "encryption_key C"
  have written: "store_ok E ?K T w2 \<and> wire w2 = wire w \<and> tokens_only w w2 \<and>
      (\<exists>u v. token_view E ?K w2 = (token_view E ?K w)(i \<mapsto> tok\<lparr>st_last_used := u, st_updated := v\<rparr>))"
    if w1: "db w1 = db w" "wire w1 = wire w"
      and run: "snd (token_upsert E ?K i (tok\<lparr>st_last_used := Some (clock E a), st_updated := clock E b\<rparr>) w1) = w2"
    for w1 w2 a b
  proof -
    let ?new = "tok\<lparr>st_last_used := Some (clock E a), st_updated := clock E b\<rparr>"
    obtain r where r: "token_upsert E ?K i ?new w1 = (r, w2)" using run by (metis prod.collapse)
    have valid: "token_valid T ?new"
      using token_view_valid [OF ok tok] idp_okD(1) [OF idp] by (simp add: token_valid_def)
    have ok1: "store_ok E ?K T w1" using ok w1 by (simp add: store_ok_def)
    note up = token_upsert_view [OF ok1 valid r] token_upsert_result [OF r]
    have v1: "token_view E ?K w1 = token_view E ?K w" by (rule token_view_db) (rule w1)
    have "(token_view E ?K w)(i \<mapsto> tok\<lparr>st_last_used := st_last_used tok, st_updated := st_updated tok\<rparr>)
        = token_view E ?K w" using tok by (auto simp: fun_eq_iff)
    with up(2) v1 have "\<exists>u v. token_view E ?K w2 =
        (token_view E ?K w)(i \<mapsto> tok\<lparr>st_last_used := u, st_updated := v\<rparr>)"
      by (cases r) (metis is_err_simps)+
    with up(1,3) w1 show ?thesis by (simp add: tokens_only_def)
  qed
  have same: "\<exists>u v. token_view E ?K w = (token_view E ?K w)(i \<mapsto> tok\<lparr>st_last_used := u, st_updated := v\<rparr>)"
    using tok by (intro exI [of _ "st_last_used tok"] exI [of _ "st_updated tok"]) (auto simp: fun_eq_iff)
  have kept: "db w1 = db w \<Longrightarrow> wire w1 = wire w \<Longrightarrow> store_ok E ?K T w1 \<and> wire w1 = wire w \<and>
      tokens_only w w1 \<and> token_view E ?K w1 = token_view E ?K w" for w1
    using ok token_view_db [of w1 w E ?K] by (simp add: store_ok_def tokens_only_def)
  let ?b = "bump_last_used E C i tok w"
  consider (put) w1 a b where "db w1 = db w" "wire w1 = wire w"
      "snd (token_upsert E ?K i (tok\<lparr>st_last_used := Some (clock E a), st_updated := clock E b\<rparr>) w1) = ?b"
    | (same) "?b = tock w"
  proof (cases "st_last_used tok")
    case None
    with put [of "tock (tock w)" "Suc (tick w)" "tick w"] show ?thesis
      by (simp add: bump_last_used_def utc_now_def)
  next
    case (Some u)
    show ?thesis
    proof (cases "clock E (tick w) - u > USAGE_WRITE_INTERVAL")
      case True
      with Some put [of "tock (tock (tock w))" "Suc (Suc (tick w))" "Suc (tick w)"] show ?thesis
        by (simp add: bump_last_used_def utc_now_def)
    next
      case False
      with Some same show ?thesis by (simp add: bump_last_used_def utc_now_def)
    qed
  qed
  then have "store_ok E ?K T ?b \<and> wire ?b = wire w \<and> tokens_only w ?b \<and>
      (\<exists>u v. token_view E ?K ?b = (token_view E ?K w)(i \<mapsto> tok\<lparr>st_last_used := u, st_updated := v\<rparr>))"
  proof cases
    case (put w1 a b)
    from written [OF put] show ?thesis .
  next
    case same
    with kept [of ?b] \<open>\<exists>u v. token_view E ?K w = _\<close> show ?thesis by simp
  qed
  then show "store_ok E ?K T ?b" "wire ?b = wire w" "tokens_only w ?b"
    "\<exists>u v. token_view E ?K ?b = (token_view E ?K w)(i \<mapsto> tok\<lparr>st_last_used := u, st_updated := v\<rparr>)"
    by blast+
qed

lemma token_get_frame:
  assumes "token_get E K i w = (r, w')"
  shows "tokens_only w w'" "wire w' = wire w"
  using token_get_result [OF assms] by (simp_all add: tokens_only_def same_tables_def)

text \<open>Asking the provider for a new token, and reading it back.\<close>

lemma refresh_and_read_result:
  assumes ok: "store_ok E (encryption_key C) T w" and idp: "idp_ok E T"
    and run: "refresh_and_read E C i w = (r, w')"
  shows "store_ok E (encryption_key C) T w'" and "tokens_only w w'"
    and "j \<noteq> i \<Longrightarrow> token_view E (encryption_key C) w' j = token_view E (encryption_key C) w j"
    and "r = Inr s \<Longrightarrow> \<exists>cur cl n resp new. token_view E (encryption_key C) w i = Some cur \<and>
      oauth_client E C = Inr cl \<and> idp E n (ExchangeRefresh cl (st_refresh cur)) = Inr resp \<and>
      refreshed cur resp new \<and> wire w' = wire w @ [ToIdp (ExchangeRefresh cl (st_refresh cur))] \<and>
      token_view E (encryption_key C) w' i = Some new \<and> s = tp_access resp"
    and "wire w' = wire w \<or> (\<exists>cur cl. token_view E (encryption_key C) w i = Some cur \<and>
      oauth_client E C = Inr cl \<and> wire w' = wire w @ [ToIdp (ExchangeRefresh cl (st_refresh cur))])"
proof -
  let ?K = "encryption_key C"
  obtain r1 w1 where rf: "refresh_account E C i w = (r1, w1)" by force
  note a = refresh_account_result [OF ok idp rf]
  have v1: "token_view E ?K w1 j = token_view E ?K w j" if "j \<noteq> i" for j
  proof (cases r1)
    case (Inl e)
    from a(3) [OF Inl] show ?thesis by simp
  next
    case (Inr u)
    from a(4) [OF Inr] that show ?thesis by auto
  qed
  have "store_ok E ?K T w' \<and> tokens_only w w' \<and> (\<forall>j. j \<noteq> i \<longrightarrow> token_view E ?K w' j = token_view E ?K w j) \<and>
    (r = Inr s \<longrightarrow> (\<exists>cur cl n resp new. token_view E ?K w i = Some cur \<and>
      oauth_client E C = Inr cl \<and> idp E n (ExchangeRefresh cl (st_refresh cur)) = Inr resp \<and>
      refreshed cur resp new \<and> wire w' = wire w @ [ToIdp (ExchangeRefresh cl (st_refresh cur))] \<and>
      token_view E ?K w' i = Some new \<and> s = tp_access resp)) \<and> wire w' = wire w1"
  proof (cases r1)
    case (Inl e)
    with run rf have "r = Inl e" "w' = w1" by (simp_all add: refresh_and_read_def)
    with a(1,2) v1 show ?thesis by simp
  next
    case (Inr u)
    obtain r2 w2 where g: "token_get E ?K i w1 = (r2, w2)" by force
    note v = token_get_view [OF a(1) g]
    have w': "w' = w2" and r: "\<And>s. r = Inr s \<Longrightarrow> \<exists>tok. r2 = Inr (Some tok) \<and> st_access tok = s"
      using run rf Inr g by (auto simp: refresh_and_read_def bindE_def split: sum.splits)
    have frame: "tokens_only w w'" using tokens_only_trans [OF a(2) token_get_frame(1) [OF g]] w' by simp
    have "r = Inr s \<longrightarrow> (\<exists>cur cl n resp new. token_view E ?K w i = Some cur \<and>
      oauth_client E C = Inr cl \<and> idp E n (ExchangeRefresh cl (st_refresh cur)) = Inr resp \<and>
      refreshed cur resp new \<and> wire w' = wire w @ [ToIdp (ExchangeRefresh cl (st_refresh cur))] \<and>
      token_view E ?K w' i = Some new \<and> s = tp_access resp)"
    proof
      assume "r = Inr s"
      with r obtain tok where tok: "r2 = Inr (Some tok)" "st_access tok = s" by blast
      from a(4) [OF Inr] obtain cur cl n resp new where new: "token_view E ?K w i = Some cur"
        "oauth_client E C = Inr cl" "idp E n (ExchangeRefresh cl (st_refresh cur)) = Inr resp"
        "refreshed cur resp new" "wire w1 = wire w @ [ToIdp (ExchangeRefresh cl (st_refresh cur))]"
        "token_view E ?K w1 = (token_view E ?K w)(i \<mapsto> new)" by blast
      from v(3) [OF tok(1)] new(6) have "tok = new" by simp
      with tok new(4) have "s = tp_access resp" by (simp add: refreshed_def)
      moreover from v(2) new(6) w' have "token_view E ?K w' i = Some new" by simp
      moreover from v(4) new(5) w' have "wire w' = wire w @ [ToIdp (ExchangeRefresh cl (st_refresh cur))]" by simp
      ultimately show "\<exists>cur cl n resp new. token_view E ?K w i = Some cur \<and>
        oauth_client E C = Inr cl \<and> idp E n (ExchangeRefresh cl (st_refresh cur)) = Inr resp \<and>
        refreshed cur resp new \<and> wire w' = wire w @ [ToIdp (ExchangeRefresh cl (st_refresh cur))] \<and>
        token_view E ?K w' i = Some new \<and> s = tp_access resp" using new(1-4) by blast
    qed
    moreover have "token_view E ?K w' j = token_view E ?K w j" if "j \<noteq> i" for j
      using v(2) v1 [OF that] w' by simp
    ultimately show ?thesis using v(1,4) frame w' by blast
  qed
  then show "store_ok E ?K T w'" and "tokens_only w w'"
    and "j \<noteq> i \<Longrightarrow> token_view E ?K w' j = token_view E ?K w j"
    and "r = Inr s \<Longrightarrow> \<exists>cur cl n resp new. token_view E ?K w i = Some cur \<and>
      oauth_client E C = Inr cl \<and> idp E n (ExchangeRefresh cl (st_refresh cur)) = Inr resp \<and>
      refreshed cur resp new \<and> wire w' = wire w @ [ToIdp (ExchangeRefresh cl (st_refresh cur))] \<and>
      token_view E ?K w' i = Some new \<and> s = tp_access resp"
    and "wire w' = wire w \<or> (\<exists>cur cl. token_view E ?K w i = Some cur \<and>
      oauth_client E C = Inr cl \<and> wire w' = wire w @ [ToIdp (ExchangeRefresh cl (st_refresh cur))])"
    using a(5) by (blast, blast, blast, blast, metis)
qed

text \<open>A cached token is fresh when it outlives the next five minutes.\<close>

definition fresh_at :: "env \<Rightarrow> nat \<Rightarrow> stored_token \<Rightarrow> bool" where
  "fresh_at E n tok = (case st_expires tok of None \<Rightarrow> False | Some e \<Rightarrow> e > clock E n + EXPIRY_SKEW)"

lemma get_access_token_cases:
  assumes ok: "store_ok E (encryption_key C) T w" and run: "get_access_token E C i w = (r, w')"
  obtains (failed) m where "r = Inl (Storage m)" "store_ok E (encryption_key C) T w'" "tokens_only w w'"
      "wire w' = wire w" "token_view E (encryption_key C) w' = token_view E (encryption_key C) w"
    | (cached) tok w1 where "token_view E (encryption_key C) w i = Some tok" "fresh_at E (tick w) tok"
      "r = Inr (st_access tok)" "w' = bump_last_used E C i tok w1"
      "store_ok E (encryption_key C) T w1" "tokens_only w w1" "wire w1 = wire w"
      "token_view E (encryption_key C) w1 = token_view E (encryption_key C) w"
    | (renew) w1 where "\<not> pred_option (fresh_at E (tick w)) (token_view E (encryption_key C) w i) \<or>
        token_view E (encryption_key C) w i = None"
      "refresh_and_read E C i w1 = (r, w')"
      "store_ok E (encryption_key C) T w1" "tokens_only w w1" "wire w1 = wire w"
      "token_view E (encryption_key C) w1 = token_view E (encryption_key C) w"
proof -
  let ?K = "encryption_key C"
  obtain r0 w0 where g: "token_get E ?K i w = (r0, w0)" by force
  note v = token_get_view [OF ok g] and f = token_get_frame [OF g] and t = token_get_tick [OF ok g]
  have k: "store_ok E ?K T (tock w0)" "tokens_only w (tock w0)" "wire (tock w0) = wire w"
    "token_view E ?K (tock w0) = token_view E ?K w"
    using v(1,2) f token_view_db [of "tock w0" w0 E ?K] by (simp_all add: store_ok_def tokens_only_def)
  show thesis
  proof (cases r0)
    case (Inl e)
    with v(5) obtain m where "e = Storage m" by blast
    with run g Inl failed [of m] v(1,2) f show thesis by (simp add: get_access_token_def)
  next
    case (Inr x)
    with v(3) have x: "x = token_view E ?K w i" by simp
    show thesis
    proof (cases x)
      case None
      with run g Inr have "refresh_and_read E C i w0 = (r, w')" by (simp add: get_access_token_def)
      with None x renew v(1,2) f show thesis by metis
    next
      case (Some tok)
      with x have look: "token_view E ?K w i = Some tok" by simp
      consider (old0) "st_expires tok = None" | (old) e where "st_expires tok = Some e" "\<not> fresh_at E (tick w) tok"
        | (new) e where "st_expires tok = Some e" "fresh_at E (tick w) tok" by blast
      then show thesis
      proof cases
        case old0
        with run g Inr Some have "refresh_and_read E C i w0 = (r, w')" by (simp add: get_access_token_def)
        moreover have "\<not> fresh_at E (tick w) tok" using old0 by (simp add: fresh_at_def)
        ultimately show thesis using look renew v(1,2) f by simp
      next
        case (old e)
        with run g Inr Some t have "refresh_and_read E C i (tock w0) = (r, w')"
          by (simp add: get_access_token_def utc_now_def fresh_at_def)
        with old(2) look k show thesis using renew by simp
      next
        case (new e)
        with run g Inr Some t have "r = Inr (st_access tok)" "w' = bump_last_used E C i tok (tock w0)"
          by (simp_all add: get_access_token_def utc_now_def fresh_at_def)
        with new(2) look k show thesis using cached by simp
      qed
    qed
  qed
qed

lemma get_access_token_result:
  assumes ok: "store_ok E (encryption_key C) T w" and idp: "idp_ok E T"
    and run: "get_access_token E C i w = (r, w')"
  shows "store_ok E (encryption_key C) T w'" and "tokens_only w w'"
    and "j \<noteq> i \<Longrightarrow> token_view E (encryption_key C) w' j = token_view E (encryption_key C) w j"
    and "wire w' = wire w \<or> (\<exists>cur cl. token_view E (encryption_key C) w i = Some cur \<and>
      \<not> fresh_at E (tick w) cur \<and> oauth_client E C = Inr cl \<and>
      wire w' = wire w @ [ToIdp (ExchangeRefresh cl (st_refresh cur))])"
    and "r = Inr s \<Longrightarrow>
      (\<exists>tok. token_view E (encryption_key C) w i = Some tok \<and> fresh_at E (tick w) tok \<and>
         s = st_access tok \<and> wire w' = wire w) \<or>
      (\<exists>cur cl n resp. token_view E (encryption_key C) w i = Some cur \<and> \<not> fresh_at E (tick w) cur \<and>
         oauth_client E C = Inr cl \<and> idp E n (ExchangeRefresh cl (st_refresh cur)) = Inr resp \<and>
         s = tp_access resp \<and> wire w' = wire w @ [ToIdp (ExchangeRefresh cl (st_refresh cur))])"
proof -
  let ?K = "encryption_key C"
  have "store_ok E ?K T w' \<and> tokens_only w w' \<and> (j \<noteq> i \<longrightarrow> token_view E ?K w' j = token_view E ?K w j) \<and>
    (wire w' = wire w \<or> (\<exists>cur cl. token_view E ?K w i = Some cur \<and>
      \<not> fresh_at E (tick w) cur \<and> oauth_client E C = Inr cl \<and>
      wire w' = wire w @ [ToIdp (ExchangeRefresh cl (st_refresh cur))])) \<and>
    (r = Inr s \<longrightarrow> (\<exists>tok. token_view E ?K w i = Some tok \<and> fresh_at E (tick w) tok \<and>
         s = st_access tok \<and> wire w' = wire w) \<or>
      (\<exists>cur cl n resp. token_view E ?K w i = Some cur \<and> \<not> fresh_at E (tick w) cur \<and>
         oauth_client E C = Inr cl \<and> idp E n (ExchangeRefresh cl (st_refresh cur)) = Inr resp \<and>
         s = tp_access resp \<and> wire w' = wire w @ [ToIdp (ExchangeRefresh cl (st_refresh cur))]))"
    using ok run
  proof (cases rule: get_access_token_cases)
    case (failed m)
    then show ?thesis by simp
  next
    case (cached tok w1)
    have look: "token_view E ?K w1 i = Some tok" using cached(1,8) by simp
    note b = bump_result [OF cached(5) idp look]
    have "tokens_only w w'" using tokens_only_trans [OF cached(6) b(3)] cached(4) by simp
    moreover have "j \<noteq> i \<longrightarrow> token_view E ?K w' j = token_view E ?K w j"
      using b(4) cached(4,8) by auto
    ultimately show ?thesis using cached b(1,2) by simp
  next
    case (renew w1)
    note a = refresh_and_read_result [OF renew(3) idp renew(2)]
    have stale: "token_view E ?K w i = Some cur \<Longrightarrow> \<not> fresh_at E (tick w) cur" for cur
      using renew(1) by auto
    have "tokens_only w w'" using tokens_only_trans [OF renew(4) a(2)] .
    moreover have "j \<noteq> i \<longrightarrow> token_view E ?K w' j = token_view E ?K w j" using a(3) renew(6) by simp
    moreover have "wire w' = wire w \<or> (\<exists>cur cl. token_view E ?K w i = Some cur \<and>
        \<not> fresh_at E (tick w) cur \<and> oauth_client E C = Inr cl \<and>
        wire w' = wire w @ [ToIdp (ExchangeRefresh cl (st_refresh cur))])"
      using a(5) renew(5,6) stale by fastforce
    moreover have "r = Inr s \<longrightarrow> (\<exists>cur cl n resp. token_view E ?K w i = Some cur \<and>
        \<not> fresh_at E (tick w) cur \<and> oauth_client E C = Inr cl \<and>
        idp E n (ExchangeRefresh cl (st_refresh cur)) = Inr resp \<and>
        s = tp_access resp \<and> wire w' = wire w @ [ToIdp (ExchangeRefresh cl (st_refresh cur))])"
      using a(4) [of s] renew(5,6) stale by fastforce
    ultimately show ?thesis using a(1) by blast
  qed
  then show "store_ok E ?K T w'" and "tokens_only w w'"
    and "j \<noteq> i \<Longrightarrow> token_view E ?K w' j = token_view E ?K w j"
    and "wire w' = wire w \<or> (\<exists>cur cl. token_view E ?K w i = Some cur \<and>
      \<not> fresh_at E (tick w) cur \<and> oauth_client E C = Inr cl \<and>
      wire w' = wire w @ [ToIdp (ExchangeRefresh cl (st_refresh cur))])"
    and "r = Inr s \<Longrightarrow> (\<exists>tok. token_view E ?K w i = Some tok \<and> fresh_at E (tick w) tok \<and>
         s = st_access tok \<and> wire w' = wire w) \<or>
      (\<exists>cur cl n resp. token_view E ?K w i = Some cur \<and> \<not> fresh_at E (tick w) cur \<and>
         oauth_client E C = Inr cl \<and> idp E n (ExchangeRefresh cl (st_refresh cur)) = Inr resp \<and>
         s = tp_access resp \<and> wire w' = wire w @ [ToIdp (ExchangeRefresh cl (st_refresh cur))])"
    by blast+
qed

text \<open>A refresh that succeeds marks the token as used at a reading of the clock it made, and stores what
  the provider answered.\<close>

definition renewed_from :: "env \<Rightarrow> config \<Rightarrow> stored_token \<Rightarrow> stored_token \<Rightarrow> bool" where
  "renewed_from E C u v \<longleftrightarrow>
     (\<exists>cl n resp. oauth_client E C = Inr cl \<and> idp E n (ExchangeRefresh cl (st_refresh u)) = Inr resp \<and>
        refreshed u resp v) \<and> (\<exists>n. st_last_used v = Some (clock E n))"

lemma refresh_account_used:
  assumes ok: "store_ok E (encryption_key C) T w" and idp: "idp_ok E T"
    and run: "refresh_account E C i w = (Inr u, w')"
  shows "\<exists>v n. token_view E (encryption_key C) w' i = Some v \<and> tick w \<le> n \<and> st_last_used v = Some (clock E n)"
proof -
  let ?K = "encryption_key C"
  obtain m w1 where l: "account_lock i w = (m, w1)" by force
  obtain r2 w2 where rd: "refresh_read E C i w1 = (r2, w2)" by force
  have w1: "db w1 = db w" "tick w1 = tick w" using account_lock_eq [OF l] by simp_all
  have ok1: "store_ok E ?K T w1" using ok w1 by (simp add: store_ok_def)
  note rdr = refresh_read_result [OF ok1 rd]
  from run l rd obtain cur where cur: "r2 = Inr cur" by (cases r2) (auto simp: refresh_account_def)
  obtain r3 w3 where rf: "refresh_tokens E C (st_refresh cur) w2 = (r3, w3)" by force
  from run l rd cur rf obtain ts where ts: "r3 = Inr ts" by (cases r3) (auto simp: refresh_account_def)
  have db3: "db w3 = db w2" using refresh_tokens_frame(1) [of E C "st_refresh cur" w2] rf by simp
  have ok3: "store_ok E ?K T w3" using rdr(1) db3 by (simp add: store_ok_def)
  have valid: "token_valid T cur" using token_view_valid [OF ok1] rdr(5) cur by blast
  have fts: "fst (refresh_tokens E C (st_refresh cur) w2) = Inr ts" using rf ts by simp
  have st: "refresh_store E C i cur ts w3 = (Inr u, w')" using run l rd cur rf ts by (simp add: refresh_account_def)
  have "tick w \<le> tick w3"
    using forward_refresh_tokens [OF forward_refresh_read [of "tick w" w1 E C i], of E C "st_refresh cur"] w1 rd rf by simp
  with refresh_store_result(6) [OF ok3 idp valid fts st] show ?thesis by blast
qed

lemma refresh_account_renewed:
  assumes ok: "store_ok E (encryption_key C) T w" and idp: "idp_ok E T"
    and run: "refresh_account E C i w = (Inr x, w')"
  shows "\<exists>u v. token_view E (encryption_key C) w i = Some u \<and> token_view E (encryption_key C) w' i = Some v \<and>
    renewed_from E C u v"
proof -
  from refresh_account_result(4) [OF ok idp run] obtain cur cl n resp new where
    "token_view E (encryption_key C) w i = Some cur" "oauth_client E C = Inr cl"
    "idp E n (ExchangeRefresh cl (st_refresh cur)) = Inr resp" "refreshed cur resp new"
    "token_view E (encryption_key C) w' i = Some new" by auto
  with refresh_account_used [OF ok idp run] show ?thesis unfolding renewed_from_def by fastforce
qed

section \<open>Batches\<close>

fun run_steps :: "('k \<Rightarrow> 'w \<Rightarrow> ('e + 'a) \<times> 'w) \<Rightarrow> 'k list \<Rightarrow> 'w \<Rightarrow> ('e + 'a) list \<times> 'w" where
  "run_steps step [] w = ([], w)"
| "run_steps step (i # ids) w =
     (let (r, w) = step i w; (rs, w) = run_steps step ids w in (r # rs, w))"

lemma length_run_steps [simp]: "length (fst (run_steps step ids w)) = length ids"
  by (induction ids arbitrary: w) (auto simp: case_prod_unfold Let_def)

locale account_step =
  fixes ok :: "'w \<Rightarrow> bool" and look :: "'w \<Rightarrow> 'k \<Rightarrow> 'v option"
    and step :: "'k \<Rightarrow> 'w \<Rightarrow> ('e + 'a) \<times> 'w" and made :: "'v \<Rightarrow> 'v \<Rightarrow> bool"
  assumes step_law: "ok w \<Longrightarrow> step i w = (r, w') \<Longrightarrow> ok w' \<and> (\<forall>j. j \<noteq> i \<longrightarrow> look w' j = look w j) \<and>
      (is_err r \<longrightarrow> look w' i = look w i) \<and>
      (\<not> is_err r \<longrightarrow> (\<exists>u v. look w i = Some u \<and> look w' i = Some v \<and> made u v))"
begin

lemma batch_ok: "ok w \<Longrightarrow> ok (snd (run_steps step ids w))"
proof (induction ids arbitrary: w)
  case (Cons i ids)
  obtain r w1 where s: "step i w = (r, w1)" by force
  with Cons step_law [OF _ s] show ?case by (simp add: case_prod_unfold Let_def)
qed simp

text \<open>The accounts outside the batch keep their token.\<close>

lemma batch_other: "ok w \<Longrightarrow> j \<notin> set ids \<Longrightarrow> look (snd (run_steps step ids w)) j = look w j"
proof (induction ids arbitrary: w)
  case (Cons i ids)
  obtain r w1 where s: "step i w = (r, w1)" by force
  with Cons step_law [OF _ s] show ?case by (simp add: case_prod_unfold Let_def)
qed simp

text \<open>No step of a batch loses or invents a token, and an account whose step failed keeps the one
  it had, whatever happened to the others.\<close>

lemma batch_dom: "ok w \<Longrightarrow> dom (look (snd (run_steps step ids w))) = dom (look w)"
proof (induction ids arbitrary: w)
  case (Cons i ids)
  obtain r w1 where s: "step i w = (r, w1)" by force
  note law = step_law [OF Cons.prems s]
  have "look w1 j = None \<longleftrightarrow> look w j = None" for j
    using law by (cases "j = i"; cases r) auto
  then have "dom (look w1) = dom (look w)" by (auto simp: dom_def)
  with Cons.IH law s show ?case by (simp add: case_prod_unfold Let_def)
qed simp

lemma batch_failed:
  "ok w \<Longrightarrow> distinct ids \<Longrightarrow> n < length ids \<Longrightarrow> is_err (fst (run_steps step ids w) ! n) \<Longrightarrow>
   look (snd (run_steps step ids w)) (ids ! n) = look w (ids ! n)"
proof (induction ids arbitrary: w n)
  case (Cons i ids)
  obtain r w1 where s: "step i w = (r, w1)" by force
  note law = step_law [OF Cons.prems(1) s]
  show ?case
  proof (cases n)
    case 0
    with Cons.prems s law batch_other [of w1 i ids] show ?thesis by (simp add: case_prod_unfold Let_def)
  next
    case (Suc m)
    with Cons.prems have "ids ! m \<noteq> i" by auto
    with Cons.IH [of w1 m] Cons.prems s law Suc show ?thesis by (simp add: case_prod_unfold Let_def)
  qed
qed simp

text \<open>The accounts whose step succeeded, as many as there were successes, have what the step made of their
  token, and all others have the token they had.\<close>

lemma batch_done:
  "ok w \<Longrightarrow> distinct ids \<Longrightarrow>
   \<exists>S. S \<subseteq> set ids \<and> card S = length (filter (\<lambda>r. \<not> is_err r) (fst (run_steps step ids w))) \<and>
     (\<forall>i \<in> S. \<exists>u v. look w i = Some u \<and> look (snd (run_steps step ids w)) i = Some v \<and> made u v) \<and>
     (\<forall>j. j \<notin> S \<longrightarrow> look (snd (run_steps step ids w)) j = look w j)"
proof (induction ids arbitrary: w)
  case (Cons i ids)
  obtain r w1 where s: "step i w = (r, w1)" by force
  note law = step_law [OF Cons.prems(1) s]
  let ?w' = "snd (run_steps step ids w1)"
  obtain S where S: "S \<subseteq> set ids" "card S = length (filter (\<lambda>r. \<not> is_err r) (fst (run_steps step ids w1)))"
    "\<forall>i \<in> S. \<exists>u v. look w1 i = Some u \<and> look ?w' i = Some v \<and> made u v" "\<forall>j. j \<notin> S \<longrightarrow> look ?w' j = look w1 j"
    using Cons.IH [of w1] law Cons.prems(2) by auto
  have i: "i \<notin> S" "finite S" using S(1) Cons.prems(2) finite_subset by auto
  have run: "run_steps step (i # ids) w = (r # fst (run_steps step ids w1), ?w')"
    using s by (simp add: case_prod_unfold Let_def)
  have others: "look w1 j = look w j" if "j \<noteq> i" for j using law that by blast
  have keep: "\<forall>j \<in> S. \<exists>u v. look w j = Some u \<and> look ?w' j = Some v \<and> made u v" using S(3) others i(1) by metis
  show ?case
  proof (cases "is_err r")
    case True
    with law have "look w1 i = look w i" by blast
    then have "\<forall>j. j \<notin> S \<longrightarrow> look ?w' j = look w j" using S(4) others by metis
    with S(1,2) keep True show ?thesis unfolding run by (intro exI [of _ S]) auto
  next
    case False
    with law S(4) i(1) have "\<exists>u v. look w i = Some u \<and> look ?w' i = Some v \<and> made u v" by metis
    moreover have "\<forall>j. j \<notin> insert i S \<longrightarrow> look ?w' j = look w j" using S(4) others by simp
    ultimately show ?thesis using S(1,2) keep False i unfolding run by (intro exI [of _ "insert i S"]) auto
  qed
qed simp

end

interpretation refreshing:
  account_step "\<lambda>w. store_ok E (encryption_key C) T w \<and> idp_ok E T" "token_view E (encryption_key C)"
    "refresh_account E C" "renewed_from E C" for E C T
proof (unfold_locales, goal_cases)
  case (1 w i r w')
  then have ok: "store_ok E (encryption_key C) T w" "idp_ok E T" by simp_all
  note a = refresh_account_result [OF ok 1(2)]
  show ?case
  proof (cases r)
    case (Inl e)
    with a(1) a(3) [OF Inl] ok show ?thesis by simp
  next
    case (Inr u)
    with refresh_account_renewed [OF ok] 1(2) a(1) a(4) [OF Inr] ok show ?thesis by auto
  qed
qed

text \<open>The two batches of the code are runs of steps.\<close>

lemma refresh_each_steps:
  "refresh_each E C as w =
     (let live = filter (\<lambda>a. acc_status a \<noteq> Disconnected) as;
          (rs, w) = run_steps (refresh_account E C) (map acc_id live) w in (zip live rs, w))"
  by (induction as arbitrary: w) (auto simp: case_prod_unfold Let_def)

lemma refresh_ids_steps:
  "refresh_ids E C ids n w =
     (let (rs, w) = run_steps (refresh_account E C) ids w in (n + length (filter (\<lambda>r. \<not> is_err r) rs), w))"
proof (induction ids arbitrary: n w)
  case (Cons i ids)
  obtain r w1 where s: "refresh_account E C i w = (r, w1)" by force
  with Cons show ?case by (cases r) (simp_all add: case_prod_unfold Let_def)
qed simp

section \<open>Disconnecting\<close>

lemma token_delete_keeps:
  assumes "token_delete i w = (r, w')"
  shows "accounts (db w') = accounts (db w)" "oauth_flows (db w') = oauth_flows (db w)" "wire w' = wire w"
    "tick w' = tick w"
  using token_delete_result [OF assms] by simp_all

lemma set_status_same_tables:
  assumes "account_set_status E t i s w = (r, w')"
  shows "tokens (db w') = tokens (db w)" "oauth_flows (db w') = oauth_flows (db w)" "wire w' = wire w"
  using account_set_status_result [OF assms] by simp_all

lemma disconnect_result:
  assumes ok: "store_ok E K T w" and run: "disconnect E a w = (r, w')"
  shows "store_ok E K T w'" and "wire w' = wire w" and "oauth_flows (db w') = oauth_flows (db w)"
    and "j \<noteq> acc_id a \<Longrightarrow> token_view E K w' j = token_view E K w j"
    and "r = Inr u \<Longrightarrow> token_view E K w' = (token_view E K w)(acc_id a := None) \<and>
      account_rows w' = map (set_row_status (acc_tenant a) (acc_id a) Disconnected
        (to_rfc3339 E (clock E (tick w)))) (account_rows w)"
    and "r = Inl e \<Longrightarrow> account_rows w' = account_rows w"
proof -
  obtain r1 w1 where d: "token_delete (acc_id a) w = (r1, w1)" by force
  note v = token_delete_view [OF ok d] and k = token_delete_keeps [OF d]
  have "store_ok E K T w' \<and> wire w' = wire w \<and> oauth_flows (db w') = oauth_flows (db w) \<and>
    (j \<noteq> acc_id a \<longrightarrow> token_view E K w' j = token_view E K w j) \<and>
    (r = Inr u \<longrightarrow> token_view E K w' = (token_view E K w)(acc_id a := None) \<and>
      account_rows w' = map (set_row_status (acc_tenant a) (acc_id a) Disconnected
        (to_rfc3339 E (clock E (tick w)))) (account_rows w)) \<and>
    (r = Inl e \<longrightarrow> account_rows w' = account_rows w)"
  proof (cases r1)
    case (Inl x)
    with run d have "r = Inl x" "w' = w1" by (simp_all add: disconnect_def)
    with Inl v k show ?thesis by (simp add: account_rows_def)
  next
    case (Inr x)
    with run d have s: "account_set_status E (acc_tenant a) (acc_id a) Disconnected w1 = (r, w')"
      by (simp add: disconnect_def)
    note t = set_status_same_tables [OF s]
    have wf: "wf_db (db w')"
      using wf_account_set_status [of w1 E "acc_tenant a" "acc_id a" Disconnected] s v(1)
      by (simp add: store_ok_def)
    have "store_ok E K T w'" using v(1) t(1) wf by (simp add: store_ok_def tokens_ok_def)
    moreover have "token_view E K w' = (token_view E K w)(acc_id a := None)"
      using token_view_cong [OF t(1)] v(2) Inr by simp
    moreover have "r = Inr u \<longrightarrow> account_rows w' = map (set_row_status (acc_tenant a) (acc_id a) Disconnected
        (to_rfc3339 E (clock E (tick w)))) (account_rows w)"
      using account_set_status_result [OF s] k
      by (auto simp: account_rows_def set_row_status_def of_row_def parse_status_def)
    moreover have "r = Inl e \<longrightarrow> account_rows w' = account_rows w"
      using account_set_status_result [OF s] k by (auto simp: account_rows_def same_tables_def)
    ultimately show ?thesis using t k by simp
  qed
  then show "store_ok E K T w'" and "wire w' = wire w" and "oauth_flows (db w') = oauth_flows (db w)"
    and "j \<noteq> acc_id a \<Longrightarrow> token_view E K w' j = token_view E K w j"
    and "r = Inr u \<Longrightarrow> token_view E K w' = (token_view E K w)(acc_id a := None) \<and>
      account_rows w' = map (set_row_status (acc_tenant a) (acc_id a) Disconnected
        (to_rfc3339 E (clock E (tick w)))) (account_rows w)"
    and "r = Inl e \<Longrightarrow> account_rows w' = account_rows w"
    by blast+
qed

section \<open>Completing a flow\<close>

lemma flow_account_result:
  assumes run: "flow_account E t ident w = (r, w')"
  shows "same_tables (db w) (db w')" and "wire w' = wire w"
    and "r = Inr a \<Longrightarrow> acc_tenant a = t \<and> acc_name a = id_name ident \<and> acc_status a = Active \<and>
      (case List.find (\<lambda>q. ar_tenant q = t \<and> sql_lower (ar_email q) = sql_lower (id_email ident)) (accounts (db w)) of
         Some q \<Rightarrow> acc_id a = ar_id q \<and> acc_email a = ar_email q \<and> ar_tenant q = t \<and> q \<in> set (accounts (db w))
       | None \<Rightarrow> acc_id a = uuids E (tick w) \<and> acc_email a = id_email ident)"
proof -
  let ?find = "List.find (\<lambda>q. ar_tenant q = t \<and> sql_lower (ar_email q) = sql_lower (id_email ident)) (accounts (db w))"
  obtain r1 w1 where g: "account_get_by_email t (id_email ident) w = (r1, w1)" by force
  note res = account_get_by_email_result [OF g]
  have "same_tables (db w) (db w') \<and> wire w' = wire w \<and>
    (r = Inr a \<longrightarrow> acc_tenant a = t \<and> acc_name a = id_name ident \<and> acc_status a = Active \<and>
      (case ?find of
         Some q \<Rightarrow> acc_id a = ar_id q \<and> acc_email a = ar_email q \<and> ar_tenant q = t \<and> q \<in> set (accounts (db w))
       | None \<Rightarrow> acc_id a = uuids E (tick w) \<and> acc_email a = id_email ident))"
  proof (cases r1)
    case (Inr b)
    with res obtain q where q: "?find = Some q" "b = of_row q" by (auto simp: ok_or_def split: option.splits)
    from q(1) have "q \<in> set (accounts (db w))" "ar_tenant q = t" by (auto dest: find_Some_in)
    with run g Inr q res show ?thesis by (auto simp: flow_account_def now_def utc_now_def)
  next
    case (Inl e)
    show ?thesis
    proof (cases "\<exists>m. e = NotFound m")
      case True
      with res Inl have "?find = None" by (auto simp: ok_or_def split: option.splits)
      with True run g Inl res show ?thesis by (auto simp: flow_account_def now_def utc_now_def)
    next
      case False
      with run g Inl have "r = Inl e" "w' = w1" by (auto simp: flow_account_def split: app_error.splits)
      with res show ?thesis by simp
    qed
  qed
  then show "same_tables (db w) (db w')" and "wire w' = wire w"
    and "r = Inr a \<Longrightarrow> acc_tenant a = t \<and> acc_name a = id_name ident \<and> acc_status a = Active \<and>
      (case ?find of
         Some q \<Rightarrow> acc_id a = ar_id q \<and> acc_email a = ar_email q \<and> ar_tenant q = t \<and> q \<in> set (accounts (db w))
       | None \<Rightarrow> acc_id a = uuids E (tick w) \<and> acc_email a = id_email ident)"
    by blast+
qed

text \<open>The account row is there afterwards: it was already, or it is appended.\<close>

definition row_saved :: "string \<Rightarrow> account \<Rightarrow> world \<Rightarrow> world \<Rightarrow> bool" where
  "row_saved t a w w' \<longleftrightarrow>
     (accounts (db w') = accounts (db w) \<and> (\<exists>q \<in> set (accounts (db w)). ar_tenant q = t \<and> ar_id q = acc_id a)) \<or>
     accounts (db w') = accounts (db w) @ [to_row a]"

lemma save_flow_result:
  assumes ok: "store_ok E K T w" and valid: "\<forall>u v. T u \<longrightarrow> T v \<longrightarrow> token_valid T (stored_from ts rt u v)"
    and clk: "\<And>n. T (clock E n)" and run: "save_flow E K t a ts rt w = (r, w')"
  shows "store_ok E K T w'" and "wire w' = wire w" and "oauth_flows (db w') = oauth_flows (db w)"
    and "accounts (db w') = accounts (db w) \<or> accounts (db w') = accounts (db w) @ [to_row a]"
    and "r = Inl e \<Longrightarrow> token_view E K w' = token_view E K w"
    and "r = Inr b \<Longrightarrow> b = a \<and> row_saved t a w w' \<and>
      (\<exists>u v. token_view E K w' = (token_view E K w)(acc_id a \<mapsto> stored_from ts rt u v))"
proof -
  let ?tok = "stored_from ts rt (clock E (tick w)) (clock E (Suc (tick w)))"
  let ?w = "tock (tock w)"
  obtain r1 w1 where g: "account_get t (acc_id a) ?w = (r1, w1)" by force
  note get = account_get_result [OF g]
  obtain r2 w2 where cr: "(if is_err r1 then account_create a w1 else (Inr (), w1)) = (r2, w2)" by force
  have okg: "store_ok E K T w1" "token_view E K w1 = token_view E K w"
    using get ok store_ok_cong [of ?w w1 E K T] token_view_cong [of w1 w E K]
    by (simp_all add: same_tables_def store_ok_def)
  have c: "store_ok E K T w2 \<and> token_view E K w2 = token_view E K w \<and> wire w2 = wire w \<and>
      oauth_flows (db w2) = oauth_flows (db w) \<and>
      (accounts (db w2) = accounts (db w) \<or> accounts (db w2) = accounts (db w) @ [to_row a]) \<and>
      (\<forall>u. r2 = Inr u \<longrightarrow> row_saved t a w w2)"
  proof (cases r1)
    case (Inl e)
    with cr have c: "account_create a w1 = (r2, w2)" by simp
    note res = account_create_result [OF c]
    have wf: "wf_db (db w2)" using wf_account_create [of w1 a] c okg by (simp add: store_ok_def)
    have toks: "tokens (db w2) = tokens (db w1)" using res by simp
    from wf okg toks have "store_ok E K T w2" by (simp add: store_ok_def tokens_ok_def)
    moreover have "token_view E K w2 = token_view E K w" using token_view_cong [OF toks] okg(2) by simp
    ultimately show ?thesis using res get by (auto simp: row_saved_def same_tables_def)
  next
    case (Inr x)
    with cr have "r2 = Inr ()" "w2 = w1" by simp_all
    moreover from get Inr have "\<exists>q \<in> set (accounts (db w)). ar_tenant q = t \<and> ar_id q = acc_id a"
      by (auto simp: ok_or_def dest: find_Some_in split: option.splits)
    ultimately show ?thesis using okg get by (auto simp: row_saved_def same_tables_def)
  qed
  have run': "bindE (r2, w2) (\<lambda>_ w. bindE (token_upsert E K (acc_id a) ?tok w) (\<lambda>_ w. (Inr a, w))) = (r, w')"
    using run g cr by (simp add: save_flow_def utc_now_def)
  have "store_ok E K T w' \<and> wire w' = wire w \<and> oauth_flows (db w') = oauth_flows (db w) \<and>
    (accounts (db w') = accounts (db w) \<or> accounts (db w') = accounts (db w) @ [to_row a]) \<and>
    (r = Inl e \<longrightarrow> token_view E K w' = token_view E K w) \<and>
    (r = Inr b \<longrightarrow> b = a \<and> row_saved t a w w' \<and>
      (\<exists>u v. token_view E K w' = (token_view E K w)(acc_id a \<mapsto> stored_from ts rt u v)))"
  proof (cases r2)
    case (Inl x)
    with run' have "r = Inl x" "w' = w2" by simp_all
    with c show ?thesis by simp
  next
    case (Inr x)
    obtain r3 w3 where up: "token_upsert E K (acc_id a) ?tok w2 = (r3, w3)" by force
    have ok2: "store_ok E K T w2" using c by blast
    have tv: "token_valid T ?tok" using valid clk by blast
    note v = token_upsert_view [OF ok2 tv up] and res = token_upsert_result [OF up]
    have w': "w' = w3" and r: "r = (case r3 of Inl e \<Rightarrow> Inl e | Inr _ \<Rightarrow> Inr a)"
      using run' Inr up by (cases r3; simp)+
    have "row_saved t a w w'" using c Inr res w' by (auto simp: row_saved_def)
    with c v res w' r show ?thesis by (cases r3) auto
  qed
  then show "store_ok E K T w'" and "wire w' = wire w" and "oauth_flows (db w') = oauth_flows (db w)"
    and "accounts (db w') = accounts (db w) \<or> accounts (db w') = accounts (db w) @ [to_row a]"
    and "r = Inl e \<Longrightarrow> token_view E K w' = token_view E K w"
    and "r = Inr b \<Longrightarrow> b = a \<and> row_saved t a w w' \<and>
      (\<exists>u v. token_view E K w' = (token_view E K w)(acc_id a \<mapsto> stored_from ts rt u v))"
    by blast+
qed

text \<open>What a completed flow did: the tenant is the one the flow was begun for, the code was exchanged
  with the verifier stored under the state, and the account is saved with the answer's tokens.\<close>

definition connects :: "env \<Rightarrow> config \<Rightarrow> resolver \<Rightarrow> string \<Rightarrow> string \<Rightarrow> world \<Rightarrow> account \<Rightarrow> world \<Rightarrow> bool" where
  "connects E C resolve code state w a w' \<longleftrightarrow>
     (\<exists>row verifier cl resp rt ident n v tok.
        flow_view w state = Some row \<and>
        decrypt E (encryption_key C) (fr_verifier row) = Inr (as_bytes verifier) \<and>
        oauth_client E C = Inr cl \<and> idp E n (ExchangeCode cl code verifier) = Inr resp \<and>
        tp_refresh resp = Some rt \<and> fst (resolve (tp_access resp) v) = Inr ident \<and>
        acc_tenant a = fr_tenant row \<and> acc_status a = Active \<and> acc_name a = id_name ident \<and>
        sql_lower (acc_email a) = sql_lower (id_email ident) \<and>
        row_saved (fr_tenant row) a w w' \<and>
        token_view E (encryption_key C) w' = (token_view E (encryption_key C) w)(acc_id a \<mapsto> tok) \<and>
        st_access tok = tp_access resp \<and> st_refresh tok = rt)"

locale profile_resolver =
  fixes resolve :: resolver
  assumes resolve_law: "resolve s w = (r, w') \<Longrightarrow> db w' = db w \<and>
    (\<exists>es. wire w' = wire w @ es \<and> (\<forall>x \<in> set es. \<exists>q. x = ToGraph q \<and> rq_bearer q = s))"
begin

lemma complete_flow_steps:
  assumes ok: "store_ok E (encryption_key C) T w" and idp: "idp_ok E T"
    and t: "flow_take E (encryption_key C) state w = (Inr flow, w1)"
    and run: "complete_flow E C resolve code state w = (r, w')"
  shows "store_ok E (encryption_key C) T w'" (is ?ok)
    and "oauth_flows (db w') = oauth_flows (db w1)" (is ?flows)
    and "(accounts (db w') = accounts (db w) \<or> (\<exists>q. accounts (db w') = accounts (db w) @ [q]))" (is ?rows)
    and "r = Inl e \<longrightarrow> token_view E (encryption_key C) w' = token_view E (encryption_key C) w" (is "_ \<longrightarrow> ?keep")
    and "r = Inr a \<longrightarrow> connects E C resolve code state w a w'" (is ?done)
proof -
  let ?K = "encryption_key C"
  note taken = flow_take_result [OF t]
  have wf1: "wf_db (db w1)" using wf_flow_take [of w E ?K state] t ok by (simp add: store_ok_def)
  have ok1: "store_ok E ?K T w1" using ok taken wf1 by (simp add: store_ok_def tokens_ok_def)
  have v1: "token_view E ?K w1 = token_view E ?K w" by (rule token_view_cong) (simp add: taken)
  obtain r2 w2 where x: "exchange_code E C code (pf_verifier flow) w1 = (r2, w2)" by force
  have d2: "db w2 = db w1" using exchange_code_frame(1) [of E C code "pf_verifier flow" w1] x by simp
  have stop: "?ok \<and> ?flows \<and> ?rows \<and> (r = Inl e \<longrightarrow> ?keep) \<and> ?done" if "db w' = db w1" "is_err r"
    using that ok1 v1 taken store_ok_db [of w' w1 E ?K T] token_view_db [of w' w1 E ?K]
    by (cases r) auto
  have "?ok \<and> ?flows \<and> ?rows \<and> (r = Inl e \<longrightarrow> ?keep) \<and> ?done"
  proof (cases r2)
    case (Inl e)
    with run t x have "r = Inl e" "w' = w2" by (simp_all add: complete_flow_def)
    with stop d2 show ?thesis by simp
  next
    case (Inr ts)
    note r2 = this
    show ?thesis
    proof (cases "ts_refresh ts")
      case None
      with run t x r2 have "is_err r" "w' = w2" by (auto simp: complete_flow_def)
      with stop d2 show ?thesis by simp
    next
      case (Some rt)
      obtain r3 w3 where p: "resolve (ts_access ts) w2 = (r3, w3)" by force
      have d3: "db w3 = db w1" using resolve_law [OF p] d2 by simp
      show ?thesis
      proof (cases r3)
        case (Inl e)
        with run t x r2 Some p have "r = Inl e" "w' = w3" by (simp_all add: complete_flow_def)
        with stop d3 show ?thesis by simp
      next
        case (Inr ident)
        obtain r4 w4 where f: "flow_account E (pf_tenant flow) ident w3 = (r4, w4)" by force
        have rest: "bindE (r4, w4) (\<lambda>account w. save_flow E ?K (pf_tenant flow) account ts rt w) = (r, w')"
          using run t x r2 Some p Inr f by (simp add: complete_flow_def)
        have st4: "same_tables (db w1) (db w4)" using flow_account_result(1) [OF f] d3 by simp
        have ok4: "store_ok E ?K T w4" "token_view E ?K w4 = token_view E ?K w"
          using store_ok_cong [OF st4 ok1] token_view_cong [of w4 w1 E ?K] st4 v1
          by (simp_all add: same_tables_def)
        show ?thesis
        proof (cases r4)
          case (Inl e)
          with rest have "r = Inl e" "w' = w4" by simp_all
          with ok4 st4 taken show ?thesis by (simp add: same_tables_def)
        next
          case (Inr b)
          with rest have s: "save_flow E ?K (pf_tenant flow) b ts rt w4 = (r, w')" by simp
          from exchange_code_Inr [of E C code "pf_verifier flow" w1 ts] x r2
          obtain cl resp where resp: "oauth_client E C = Inr cl"
            "idp E (tick w1) (ExchangeCode cl code (pf_verifier flow)) = Inr resp"
            "ts_access ts = tp_access resp" "ts_refresh ts = tp_refresh resp"
            "ts_expires ts = map_option (\<lambda>d. clock E (Suc (tick w1)) +
              (case chrono_from_std E d of Some s \<Rightarrow> s | None \<Rightarrow> HOUR)) (tp_expires_in resp)" by auto
          have ex: "pred_option T (ts_expires ts)" using idp_okD(4) [OF idp resp(2)] resp(5) by simp
          have valid: "\<forall>u v. T u \<longrightarrow> T v \<longrightarrow> token_valid T (stored_from ts rt u v)"
            using idp_okD(2,3) [OF idp resp(2)] resp(3) resp(4) [symmetric] Some ex
            by (intro allI impI stored_from_valid) simp_all
          note sv = save_flow_result [OF ok4(1) valid idp_okD(1) [OF idp] s]
          have acc: "accounts (db w4) = accounts (db w)" using st4 taken by (simp add: same_tables_def)
          have ?done
          proof
            assume ra: "r = Inr a"
            from sv(6) [OF ra] obtain u v where ab: "a = b" "row_saved (pf_tenant flow) b w4 w'"
              "token_view E ?K w' = (token_view E ?K w4)(acc_id b \<mapsto> stored_from ts rt u v)" by blast
            from taken obtain row bs where row: "flow_view w state = Some row" "pf_tenant flow = fr_tenant row"
              "decrypt E ?K (fr_verifier row) = Inr bs" "from_utf8 bs = Some (pf_verifier flow)" by auto
            have bs: "bs = as_bytes (pf_verifier flow)" by (rule from_utf8_inv [OF row(4)])
            note fa = flow_account_result(3) [OF f, of b]
            have "sql_lower (acc_email b) = sql_lower (id_email ident)" "acc_tenant b = fr_tenant row"
              "acc_status b = Active" "acc_name b = id_name ident"
              using fa Inr row(2) by (auto dest: find_Some_in split: option.splits)
            moreover have "fst (resolve (tp_access resp) w2) = Inr ident" using p \<open>r3 = Inr ident\<close> resp(3) by simp
            moreover have "row_saved (fr_tenant row) b w w'" using ab(2) acc row(2) by (simp add: row_saved_def)
            ultimately show "connects E C resolve code state w a w'"
              unfolding connects_def using row bs resp Some ab ok4(2)
              by (intro exI [of _ row] exI [of _ "pf_verifier flow"] exI [of _ cl] exI [of _ resp] exI [of _ rt]
                  exI [of _ ident] exI [of _ "tick w1"] exI [of _ w2] exI [of _ "stored_from ts rt u v"])
                (simp add: stored_from_def)
          qed
          moreover have "?ok \<and> ?flows" using sv(1,3) st4 by (simp add: same_tables_def)
          moreover have "?rows" using sv(4) acc by auto
          moreover have "r = Inl e \<longrightarrow> ?keep" using sv(5) ok4(2) by simp
          ultimately show ?thesis by blast
        qed
      qed
    qed
  qed
  then show ?ok ?flows ?rows "r = Inl e \<longrightarrow> ?keep" ?done by blast+
qed

text \<open>The whole of it: a callback that fails leaves the tokens alone; one that got past the state
  check has used the state up, whatever failed afterwards; a successful one connects the account.\<close>

lemma complete_flow_result:
  assumes ok: "store_ok E (encryption_key C) T w" and idp: "idp_ok E T"
    and run: "complete_flow E C resolve code state w = (r, w')"
  shows "store_ok E (encryption_key C) T w'" (is ?ok)
    and "s \<noteq> state \<Longrightarrow> flow_view w' s = flow_view w s"
    and "flow_view w' state = None \<or> (wire w' = wire w \<and> tokens_only w w' \<and> (\<exists>m. r = Inl (Storage m)))" (is ?once)
    and "r = Inl e \<Longrightarrow> token_view E (encryption_key C) w' = token_view E (encryption_key C) w"
    and "r = Inr a \<Longrightarrow> connects E C resolve code state w a w'"
    and "accounts (db w') = accounts (db w) \<or> (\<exists>q. accounts (db w') = accounts (db w) @ [q])" (is ?rows)
proof -
  let ?K = "encryption_key C"
  obtain r1 w1 where t: "flow_take E ?K state w = (r1, w1)" by force
  note taken = flow_take_result [OF t] and fv = flow_view_take [OF t]
  have wf1: "wf_db (db w1)" using wf_flow_take [of w E ?K state] t ok by (simp add: store_ok_def)
  have ok1: "store_ok E ?K T w1" using ok taken wf1 by (simp add: store_ok_def tokens_ok_def)
  have v1: "token_view E ?K w1 = token_view E ?K w" by (rule token_view_cong) (simp add: taken)
  have "?ok \<and> (s \<noteq> state \<longrightarrow> flow_view w' s = flow_view w s) \<and> ?once \<and>
    (r = Inl e \<longrightarrow> token_view E ?K w' = token_view E ?K w) \<and>
    (r = Inr a \<longrightarrow> connects E C resolve code state w a w') \<and> ?rows"
  proof (cases r1)
    case (Inl x)
    with run t have r: "r = Inl (flow_app_error x)" "w' = w1" by (simp_all add: complete_flow_def)
    have ?once
    proof (cases "\<exists>m. x = FlowStorage m")
      case False
      with Inl fv(2) r(2) show ?thesis by simp
    next
      case True
      with Inl taken fv(2) r show ?thesis
        by (auto simp: tokens_only_def flow_view_def find_filter_none)
    qed
    with r ok1 v1 taken fv(3) [of s] show ?thesis by simp
  next
    case (Inr flow)
    with t have t': "flow_take E ?K state w = (Inr flow, w1)" by simp
    note st = complete_flow_steps [OF ok idp t' run]
    have fl: "flow_view w' = flow_view w1" using st(2) by (simp add: flow_view_def fun_eq_iff)
    have "flow_view w1 state = None" using fv(2) Inr by simp
    with st(1,3-5) fl fv(3) [of s] show ?thesis by simp
  qed
  then show ?ok "s \<noteq> state \<Longrightarrow> flow_view w' s = flow_view w s" ?once
    "r = Inl e \<Longrightarrow> token_view E ?K w' = token_view E ?K w"
    "r = Inr a \<Longrightarrow> connects E C resolve code state w a w'" ?rows
    by blast+
qed

lemma complete_flow_kept:
  assumes ok: "store_ok E (encryption_key C) T w" and idp: "idp_ok E T"
    and run: "complete_flow E C resolve code state w = (r, w')"
  shows "flow_view w' state = None \<or> flow_view w' state = flow_view w state"
proof -
  from complete_flow_result(3) [OF ok idp run]
  have "flow_view w' state = None \<or> oauth_flows (db w') = oauth_flows (db w)"
    by (auto simp: tokens_only_def)
  then show ?thesis by (auto simp: flow_view_def)
qed

end

text \<open>So callbacks, whatever codes they carry, use a state up: at most one of them connects.\<close>

sublocale profile_resolver \<subseteq> completion:
  single_use "\<lambda>w. store_ok E (encryption_key C) T w \<and> idp_ok E T" flow_view snd
    "\<lambda>(code, state). complete_flow E C resolve code state" for E C T
proof (unfold_locales, goal_cases)
  case (1 w q r w')
  obtain code state where q: "q = (code, state)" by force
  then have run: "complete_flow E C resolve code state w = (r, w')" using 1(2) by simp
  have ok: "store_ok E (encryption_key C) T w" "idp_ok E T" using 1(1) by simp_all
  from complete_flow_result(1) [OF ok run] ok(2) show ?case by simp
next
  case (2 w q v w')
  obtain code state where q: "q = (code, state)" by force
  then have run: "complete_flow E C resolve code state w = (Inr v, w')" using 2(2) by simp
  have ok: "store_ok E (encryption_key C) T w" "idp_ok E T" using 2(1) by simp_all
  from complete_flow_result(5) [OF ok run, of v] have "connects E C resolve code state w v w'" by simp
  then have "flow_view w state \<noteq> None" by (auto simp: connects_def)
  with complete_flow_result(3) [OF ok run] q show ?case by simp
next
  case (3 w q r w' j)
  obtain code state where q: "q = (code, state)" by force
  then have run: "complete_flow E C resolve code state w = (r, w')" using 3(2) by simp
  have ok: "store_ok E (encryption_key C) T w" "idp_ok E T" using 3(1) by simp_all
  show ?case
  proof (cases "j = state")
    case True
    then show ?thesis using complete_flow_kept [OF ok run] by simp
  next
    case False
    from complete_flow_result(2) [OF ok run False] show ?thesis by simp
  qed
qed

section \<open>Progress\<close>

text \<open>A connected account can be refreshed when the engine and the provider do their part.\<close>

lemma refresh_account_healthy:
  assumes ok: "store_ok E (encryption_key C) T w" and "healthy w" and "seals E"
    and tok: "token_view E (encryption_key C) w i = Some cur"
    and cl: "oauth_client E C = Inr cl"
    and resp: "\<And>n. \<exists>resp. idp E n (ExchangeRefresh cl (st_refresh cur)) = Inr resp"
  shows "\<exists>w'. refresh_account E C i w = (Inr (), w') \<and> healthy w'"
proof -
  let ?K = "encryption_key C"
  obtain m w1 where l: "account_lock i w = (m, w1)" by force
  have w1: "db w1 = db w" using account_lock_eq [OF l] by simp
  have ok1: "store_ok E ?K T w1" "healthy w1" using ok assms(2) w1 by (simp_all add: store_ok_def healthy_def)
  have g: "refresh_read E C i w1 = (Inr cur, w1)"
    using token_get_healthy [OF ok1] token_view_db [OF w1] tok by (simp add: refresh_read_def)
  obtain r where r: "idp E (tick w1) (ExchangeRefresh cl (st_refresh cur)) = Inr r" using resp by blast
  obtain ts w2 where rf: "refresh_tokens E C (st_refresh cur) w1 = (Inr ts, w2)"
    using cl r by (simp add: refresh_tokens_def call_idp_def case_prod_unfold Let_def)
  have w2: "db w2 = db w" using refresh_tokens_frame(1) [of E C "st_refresh cur" w1] rf w1 by simp
  obtain t where t: "t \<in> set (tokens (db w))" "tr_account t = i"
    using tok by (auto simp: token_view_def dest: find_Some_in split: option.splits)
  have acc: "\<exists>q \<in> set (accounts (db (tock (tock w2)))). ar_id q = i"
    using wf_fk [OF _ t(1)] ok t(2) w2 by (auto simp: store_ok_def)
  have h: "healthy (tock (tock w2))" using ok1(2) w2 w1 by (simp add: healthy_def)
  have "\<exists>w'. refresh_store E C i cur ts w2 = (Inr (), w') \<and> healthy w'"
    using token_upsert_healthy [OF assms(3) h acc] by (auto simp: refresh_store_def utc_now_def)
  with l g rf show ?thesis by (simp add: refresh_account_def)
qed

text \<open>The single operations on a healthy store.\<close>

lemma healthy_query:
  "healthy w \<Longrightarrow> query_accounts P ord (db w) = (Inr (map of_row (ord (filter P (accounts (db w))))), db w)"
  by (simp add: query_accounts_def healthy_def run_sql_quiet select_accounts_def)

lemma head_opt_filter:
  "head_opt (map of_row (filter P xs)) = map_option of_row (List.find P xs)"
  by (induction xs) (simp_all add: head_opt_def)

lemma account_get_healthy:
  "healthy w \<Longrightarrow> account_get t i w =
     (ok_or (NotFound (''account '' @ i @ '' not found''))
        (map_option of_row (List.find (\<lambda>q. ar_tenant q = t \<and> ar_id q = i) (accounts (db w)))), w)"
proof -
  assume h: "healthy w"
  then have "\<not> poisoned (db w)" by (simp add: healthy_def)
  with healthy_query [OF h] show ?thesis
    by (simp add: account_get_def on_db_def head_opt_filter not_found_def)
qed

lemma account_get_by_email_healthy:
  "healthy w \<Longrightarrow> account_get_by_email t e w =
     (ok_or (NotFound (''account '' @ e @ '' not found'')) (map_option of_row
        (List.find (\<lambda>q. ar_tenant q = t \<and> sql_lower (ar_email q) = sql_lower e) (accounts (db w)))), w)"
proof -
  assume h: "healthy w"
  then have "\<not> poisoned (db w)" by (simp add: healthy_def)
  with healthy_query [OF h] show ?thesis
    by (simp add: account_get_by_email_def on_db_def head_opt_filter not_found_def)
qed

lemma account_create_healthy:
  assumes "healthy w" and "acc_id a \<notin> ar_id ` set (accounts (db w))"
    and "\<not> (\<exists>q \<in> set (accounts (db w)). ar_tenant q = acc_tenant a \<and> ar_email q = acc_email a)"
  shows "account_create a w = (Inr (), w\<lparr>db := (db w)\<lparr>accounts := accounts (db w) @ [to_row a]\<rparr>\<rparr>)"
proof -
  have noid: "\<not> (\<exists>q \<in> set (accounts (db w)). ar_id q = acc_id a)" using assms(2) by (metis imageI)
  have "insert_account (to_row a) (db w) = (Inr (), (db w)\<lparr>accounts := accounts (db w) @ [to_row a]\<rparr>)"
    using assms(3) noid by (simp add: insert_account_def)
  with assms(1) show ?thesis by (simp add: account_create_def healthy_def on_db_def Let_def)
qed

lemma flow_take_healthy:
  assumes h: "healthy w" and row: "flow_view w state = Some row"
    and fresh: "\<not> saturating_sub (unix_time E (tick w)) (fr_created row) > FLOW_TTL_SECS"
    and dec: "decrypt E K (fr_verifier row) = Inr (as_bytes v)" and v: "rust_str v"
  shows "\<exists>w1. flow_take E K state w =
      (Inr \<lparr>pf_verifier = v, pf_tenant = fr_tenant row, pf_created = fr_created row\<rparr>, w1) \<and>
    healthy w1 \<and> accounts (db w1) = accounts (db w) \<and> tokens (db w1) = tokens (db w)"
proof -
  let ?d = "(db w)\<lparr>oauth_flows := filter (\<lambda>f. fr_state f \<noteq> state) (oauth_flows (db w))\<rparr>"
  have find: "List.find (\<lambda>f. fr_state f = state) (oauth_flows (db w)) = Some row"
    using row by (simp add: flow_view_def)
  have quiet: "faults (db w) = []" "\<not> poisoned (db w)" using h by (simp_all add: healthy_def)
  have t: "take_row state (db w) = (Inr row, ?d)"
    by (simp add: take_row_def quiet select_flow_def delete_flow_def find)
  have "flow_take E K state w =
      (Inr \<lparr>pf_verifier = v, pf_tenant = fr_tenant row, pf_created = fr_created row\<rparr>, tock (w\<lparr>db := ?d\<rparr>))"
    using fresh by (simp add: flow_take_def on_db_def t unix_now_eq dec v)
  moreover have "healthy (tock (w\<lparr>db := ?d\<rparr>))" using h by (simp add: healthy_def)
  ultimately show ?thesis by simp
qed

text \<open>A flow begun in time connects, when the engine, the provider and Graph do their part.\<close>

lemma complete_flow_healthy:
  assumes h: "healthy w" and "seals E" and row: "flow_view w state = Some row"
    and fresh: "\<not> saturating_sub (unix_time E (tick w)) (fr_created row) > FLOW_TTL_SECS"
    and dec: "decrypt E (encryption_key C) (fr_verifier row) = Inr (as_bytes v)" and v: "rust_str v"
    and cl: "oauth_client E C = Inr cl"
    and resp: "\<And>n. \<exists>resp rt. idp E n (ExchangeCode cl code v) = Inr resp \<and> tp_refresh resp = Some rt"
    and res: "\<And>s u. \<exists>ident u'. resolve s u = (Inr ident, u') \<and> db u' = db u"
    and ids: "\<And>n. uuids E n \<notin> ar_id ` set (accounts (db w))"
  shows "\<exists>a w' s u ident. complete_flow E C resolve code state w = (Inr a, w') \<and> healthy w' \<and>
    fst (resolve s u) = Inr ident \<and>
    (\<forall>q. List.find (\<lambda>q. ar_tenant q = fr_tenant row \<and> sql_lower (ar_email q) = sql_lower (id_email ident))
       (accounts (db w)) = Some q \<longrightarrow> acc_id a = ar_id q)"
proof -
  let ?K = "encryption_key C"
  obtain w1 where t: "flow_take E ?K state w =
      (Inr \<lparr>pf_verifier = v, pf_tenant = fr_tenant row, pf_created = fr_created row\<rparr>, w1)"
    and w1: "healthy w1" "accounts (db w1) = accounts (db w)"
    using flow_take_healthy [OF h row fresh dec v] by blast
  obtain r rt where r: "idp E (tick w1) (ExchangeCode cl code v) = Inr r" "tp_refresh r = Some rt"
    using resp by blast
  obtain ts w2 where x: "exchange_code E C code v w1 = (Inr ts, w2)" and ts: "ts_refresh ts = Some rt"
    using cl r by (simp add: exchange_code_def call_idp_def case_prod_unfold Let_def)
  have w2: "db w2 = db w1" using exchange_code_frame(1) [of E C code v w1] x by simp
  obtain ident w3 where p: "resolve (ts_access ts) w2 = (Inr ident, w3)" and w3: "db w3 = db w2" using res by blast
  have h3: "healthy w3" "accounts (db w3) = accounts (db w)" using w1 w2 w3 by (simp_all add: healthy_def)
  let ?find = "List.find (\<lambda>q. ar_tenant q = fr_tenant row \<and> sql_lower (ar_email q) = sql_lower (id_email ident)) (accounts (db w))"
  obtain b w4 where f: "flow_account E (fr_tenant row) ident w3 = (Inr b, w4)"
    using account_get_by_email_healthy [OF h3(1)] h3(2)
    by (cases ?find) (auto simp: flow_account_def now_def utc_now_def Let_def)
  note fa = flow_account_result [OF f]
  have h4: "healthy w4" "accounts (db w4) = accounts (db w)"
  proof -
    show "accounts (db w4) = accounts (db w)" using fa(1) h3 by (simp add: same_tables_def)
    have "db w4 = db w3" using f account_get_by_email_healthy [OF h3(1)] h3(2)
      by (cases ?find) (auto simp: flow_account_def now_def utc_now_def Let_def)
    then show "healthy w4" using h3 by (simp add: healthy_def)
  qed
  let ?w = "tock (tock w4)"
  have hw: "healthy ?w" using h4 by (simp add: healthy_def)
  let ?tok = "stored_from ts rt (clock E (tick w4)) (clock E (Suc (tick w4)))"
  have "\<exists>w'. save_flow E ?K (fr_tenant row) b ts rt w4 = (Inr b, w') \<and> healthy w'"
  proof (cases "\<exists>q \<in> set (accounts (db w)). ar_tenant q = fr_tenant row \<and> ar_id q = acc_id b")
    case True
    then obtain q where "List.find (\<lambda>q. ar_tenant q = fr_tenant row \<and> ar_id q = acc_id b) (accounts (db w)) = Some q"
      using find_None_iff_all [of "\<lambda>q. ar_tenant q = fr_tenant row \<and> ar_id q = acc_id b" "accounts (db w)"] by fastforce
    then have g: "account_get (fr_tenant row) (acc_id b) ?w = (Inr (of_row q), ?w)"
      using account_get_healthy [OF hw] h4(2) by simp
    have "\<exists>r \<in> set (accounts (db ?w)). ar_id r = acc_id b" using True h4(2) by auto
    from token_upsert_healthy [OF assms(2) hw this, of ?K ?tok] g show ?thesis
      by (auto simp: save_flow_def utc_now_def)
  next
    case False
    then have none: "List.find (\<lambda>q. ar_tenant q = fr_tenant row \<and> ar_id q = acc_id b) (accounts (db w)) = None"
      by (simp add: find_None_iff_all)
    have new: "?find = None"
    proof (rule ccontr)
      assume "?find \<noteq> None"
      then obtain q where "?find = Some q" by blast
      with fa(3) [of b] h3(2) False show False by auto
    qed
    with fa(3) [of b] h3(2) have b: "acc_id b = uuids E (tick w3)" "acc_email b = id_email ident" "acc_tenant b = fr_tenant row"
      by auto
    have g: "is_err (fst (account_get (fr_tenant row) (acc_id b) ?w))" "snd (account_get (fr_tenant row) (acc_id b) ?w) = ?w"
      using account_get_healthy [OF hw] h4(2) none by simp_all
    have noemail: "\<not> (\<exists>q \<in> set (accounts (db ?w)). ar_tenant q = acc_tenant b \<and> ar_email q = acc_email b)"
      using new b h4(2) by (auto simp: find_None_iff_all)
    have noid: "acc_id b \<notin> ar_id ` set (accounts (db ?w))" using ids b(1) h4(2) by simp
    let ?wc = "?w\<lparr>db := (db ?w)\<lparr>accounts := accounts (db ?w) @ [to_row b]\<rparr>\<rparr>"
    have c: "account_create b ?w = (Inr (), ?wc)" by (rule account_create_healthy [OF hw noid noemail])
    have hc: "healthy ?wc" using hw by (simp add: healthy_def)
    have "\<exists>r \<in> set (accounts (db ?wc)). ar_id r = acc_id b" by simp
    from token_upsert_healthy [OF assms(2) hc this, of ?K ?tok] obtain w' where
      "token_upsert E ?K (acc_id b) ?tok ?wc = (Inr (), w')" "healthy w'" by blast
    with g c show ?thesis by (simp add: save_flow_def utc_now_def case_prod_unfold Let_def)
  qed
  then obtain w' where sv: "save_flow E ?K (fr_tenant row) b ts rt w4 = (Inr b, w')" "healthy w'" by blast
  have "complete_flow E C resolve code state w = (Inr b, w')" using t x ts p f sv(1) by (simp add: complete_flow_def)
  moreover have "fst (resolve (ts_access ts) w2) = Inr ident" using p by simp
  moreover have "\<forall>q. ?find = Some q \<longrightarrow> acc_id b = ar_id q" using fa(3) [of b] h3(2) by auto
  ultimately show ?thesis using sv(2) by blast
qed

end
