(* ===== verification/Mail.thy ===== *)
theory Mail
  imports TokenProps "HOL-Library.Multiset"
begin

text \<open>
  \<open>src/provider/mod.rs\<close> and \<open>src/provider/models.rs\<close>: the provider-agnostic mail model and the
  unified inbox. The trait \<open>EmailProvider\<close> is the locale \<open>email_provider\<close>: an operation works for
  one account and leaves the account table and the other accounts' tokens alone; the inbox of
  several accounts is proved to do so once, inside it.
\<close>

record email_address =
  ea_name :: "string option"
  ea_address :: string

record email =
  em_id :: string
  em_subject :: "string option"
  em_from :: "email_address option"
  em_to :: "email_address list"
  em_preview :: "string option"
  em_body :: "string option"
  em_received :: "string option"
  em_read :: bool

record account_summary =
  as_id :: string
  as_email :: string

record unified_email =
  ue_email :: email
  ue_account :: account_summary

record send_mail_request =
  sm_to :: string
  sm_subject :: string
  sm_body :: string

section \<open>Sorting by date\<close>

datatype ordering = Less | Equal | Greater

definition cmp_int :: "int \<Rightarrow> int \<Rightarrow> ordering" where
  "cmp_int a b = (if a < b then Less else if a = b then Equal else Greater)"

definition parse_received :: "env \<Rightarrow> string option \<Rightarrow> int option" where
  "parse_received E s = Option.bind s (parse_rfc3339 E)"

definition compare_received_desc :: "env \<Rightarrow> string option \<Rightarrow> string option \<Rightarrow> ordering" where
  "compare_received_desc E a b =
     (case (parse_received E a, parse_received E b) of
        (Some s, Some t) \<Rightarrow> cmp_int t s
      | (Some _, None) \<Rightarrow> Less
      | (None, Some _) \<Rightarrow> Greater
      | (None, None) \<Rightarrow> Equal)"

text \<open>\<open>slice::sort_by\<close>, a stable sort.\<close>

fun insert_by :: "('a \<Rightarrow> 'a \<Rightarrow> ordering) \<Rightarrow> 'a \<Rightarrow> 'a list \<Rightarrow> 'a list" where
  "insert_by cmp x [] = [x]"
| "insert_by cmp x (y # ys) = (if cmp x y = Greater then y # insert_by cmp x ys else x # y # ys)"

definition sort_by :: "('a \<Rightarrow> 'a \<Rightarrow> ordering) \<Rightarrow> 'a list \<Rightarrow> 'a list" where
  "sort_by cmp xs = foldr (insert_by cmp) xs []"

text \<open>The order the comparison implements: later dates first, no date last.\<close>

datatype date_key = Dated int | Undated

instantiation date_key :: linorder
begin

fun less_eq_date_key :: "date_key \<Rightarrow> date_key \<Rightarrow> bool" where
  "less_eq_date_key (Dated s) (Dated t) = (t \<le> s)"
| "less_eq_date_key (Dated _) Undated = True"
| "less_eq_date_key Undated (Dated _) = False"
| "less_eq_date_key Undated Undated = True"

definition less_date_key :: "date_key \<Rightarrow> date_key \<Rightarrow> bool" where
  "less_date_key a b \<longleftrightarrow> a \<le> b \<and> \<not> b \<le> a"

lemma date_key_refl: "x \<le> (x :: date_key)"
  by (cases x) simp_all

instance
  by intro_classes (auto simp: less_date_key_def date_key_refl elim!: less_eq_date_key.elims)

end

definition date_key_of :: "env \<Rightarrow> string option \<Rightarrow> date_key" where
  "date_key_of E s = (case parse_received E s of Some t \<Rightarrow> Dated t | None \<Rightarrow> Undated)"

lemma compare_received_key:
  "compare_received_desc E a b =
     (if date_key_of E a < date_key_of E b then Less
      else if date_key_of E a = date_key_of E b then Equal else Greater)"
  by (auto simp: compare_received_desc_def date_key_of_def cmp_int_def less_date_key_def split: option.splits)

text \<open>A comparison that is that of a key sorts as the library does by the key.\<close>

lemma insert_by_key:
  "(\<And>x y. cmp x y = Greater \<longleftrightarrow> key y < key x) \<Longrightarrow> insert_by cmp x ys = insort_key key x ys"
  by (induction ys) (auto simp: not_less)

lemma sort_by_key:
  assumes "\<And>x y. cmp x y = Greater \<longleftrightarrow> key y < (key x :: 'k :: linorder)"
  shows "sort_by cmp xs = sort_key key xs"
proof (induction xs)
  case Nil
  show ?case by (simp add: sort_by_def)
next
  case (Cons x xs)
  have "sort_by cmp (x # xs) = insert_by cmp x (sort_by cmp xs)" by (simp add: sort_by_def)
  with Cons.IH show ?case by (simp add: insert_by_key [OF assms])
qed

section \<open>The unified inbox\<close>

definition summary_of :: "account \<Rightarrow> account_summary" where
  "summary_of a = \<lparr>as_id = acc_id a, as_email = acc_email a\<rparr>"

fun fetch_all ::
    "(account \<Rightarrow> nat \<Rightarrow> string option \<Rightarrow> 'w \<Rightarrow> email list result \<times> 'w) \<Rightarrow> nat \<Rightarrow> account list \<Rightarrow> 'w \<Rightarrow>
     unified_email list \<times> 'w" where
  "fetch_all list_messages limit [] w = ([], w)"
| "fetch_all list_messages limit (a # as) w =
     (let (r, w) = list_messages a limit None w;
          messages = (case r of Inr ms \<Rightarrow> ms | Inl _ \<Rightarrow> []);
          (rest, w) = fetch_all list_messages limit as w
      in (map (\<lambda>m. \<lparr>ue_email = m, ue_account = summary_of a\<rparr>) messages @ rest, w))"

definition compare_unified :: "env \<Rightarrow> unified_email \<Rightarrow> unified_email \<Rightarrow> ordering" where
  "compare_unified E a b = compare_received_desc E (em_received (ue_email a)) (em_received (ue_email b))"

definition aggregate_unified_inbox ::
    "env \<Rightarrow> (account \<Rightarrow> nat \<Rightarrow> string option \<Rightarrow> 'w \<Rightarrow> email list result \<times> 'w) \<Rightarrow> account list \<Rightarrow> nat \<Rightarrow> 'w \<Rightarrow>
     unified_email list result \<times> 'w" where
  "aggregate_unified_inbox E list_messages accs limit w =
     (let (messages, w) = fetch_all list_messages limit accs w
      in (Inr (take limit (sort_by (compare_unified E) messages)), w))"

definition unified_key :: "env \<Rightarrow> unified_email \<Rightarrow> date_key" where
  "unified_key E m = date_key_of E (em_received (ue_email m))"

lemma sort_unified: "sort_by (compare_unified E) ms = sort_key (unified_key E) ms"
  by (rule sort_by_key) (auto simp: compare_unified_def compare_received_key unified_key_def)

lemma aggregate_eq:
  "aggregate_unified_inbox E lm accs limit w =
     (Inr (take limit (sort_key (unified_key E) (fst (fetch_all lm limit accs w)))),
      snd (fetch_all lm limit accs w))"
  by (simp add: aggregate_unified_inbox_def sort_unified case_prod_unfold Let_def)

text \<open>The inbox is ordered, is no longer than asked for, and leaves out nothing newer than what it
  shows.\<close>

lemma inbox_sorted:
  fixes key :: "'a \<Rightarrow> 'k :: linorder"
  shows "sorted (map key (take n (sort_key key xs)))" (is ?sorted)
    and "length (take n (sort_key key xs)) = min n (length xs)"
    and "\<exists>dropped. mset xs = mset (take n (sort_key key xs)) + mset dropped \<and>
      (\<forall>x \<in> set (take n (sort_key key xs)). \<forall>y \<in> set dropped. key x \<le> key y)"
proof -
  have s: "sorted (map key (sort_key key xs))" by simp
  then show ?sorted by (simp add: sorted_wrt_take flip: take_map)
  show "length (take n (sort_key key xs)) = min n (length xs)" by simp
  have "mset (take n (sort_key key xs)) + mset (drop n (sort_key key xs)) = mset (sort_key key xs)"
    by (metis append_take_drop_id mset_append)
  moreover have "sorted (map key (take n (sort_key key xs) @ drop n (sort_key key xs)))" using s by simp
  then have "\<forall>x \<in> set (take n (sort_key key xs)). \<forall>y \<in> set (drop n (sort_key key xs)). key x \<le> key y"
    unfolding map_append sorted_append by auto
  ultimately show "\<exists>dropped. mset xs = mset (take n (sort_key key xs)) + mset dropped \<and>
      (\<forall>x \<in> set (take n (sort_key key xs)). \<forall>y \<in> set dropped. key x \<le> key y)"
    by (metis mset_sort)
qed

text \<open>Every message carries the account it was fetched for.\<close>

lemma fetch_all_owner:
  "m \<in> set (fst (fetch_all lm limit accs w)) \<Longrightarrow>
   \<exists>a \<in> set accs. \<exists>v ms. fst (lm a limit None v) = Inr ms \<and> ue_email m \<in> set ms \<and> ue_account m = summary_of a"
proof (induction accs arbitrary: w)
  case (Cons a accs)
  obtain r w1 where r: "lm a limit None w = (r, w1)" by force
  show ?case
  proof (cases "m \<in> set (fst (fetch_all lm limit accs w1))")
    case True
    from Cons.IH [OF this] show ?thesis by auto
  next
    case False
    with Cons.prems r have "m \<in> (\<lambda>e. \<lparr>ue_email = e, ue_account = summary_of a\<rparr>) `
        set (case r of Inr ms \<Rightarrow> ms | Inl _ \<Rightarrow> [])"
      by (auto simp: case_prod_unfold Let_def)
    then obtain ms where "r = Inr ms" "ue_email m \<in> set ms" "ue_account m = summary_of a"
      by (auto split: sum.splits)
    with r have "fst (lm a limit None w) = Inr ms \<and> ue_email m \<in> set ms \<and> ue_account m = summary_of a"
      by simp
    then show ?thesis by auto
  qed
qed simp

text \<open>An account whose mailbox cannot be read contributes nothing and stops nobody.\<close>

lemma fetch_all_skip:
  "lm a limit None w = (Inl e, w1) \<Longrightarrow> fetch_all lm limit (a # accs) w = fetch_all lm limit accs w1"
  by (simp add: case_prod_unfold Let_def)

section \<open>Truncating each mailbox loses nothing\<close>

lemma sorted_smaller_before:
  "sorted (s :: 'k :: linorder list) \<Longrightarrow> i < length s \<Longrightarrow> length (filter (\<lambda>y. y < s ! i) s) \<le> i"
proof -
  assume s: "sorted s" and i: "i < length s"
  have "filter (\<lambda>y. y < s ! i) (drop i s) = []"
  proof -
    have "\<not> y < s ! i" if "y \<in> set (drop i s)" for y
    proof -
      from that obtain j where "j < length (drop i s)" "y = drop i s ! j" by (metis in_set_conv_nth)
      with s i show ?thesis by (simp add: not_less sorted_nth_mono)
    qed
    then show ?thesis by (simp add: filter_empty_conv)
  qed
  then have "filter (\<lambda>y. y < s ! i) s = filter (\<lambda>y. y < s ! i) (take i s)"
    by (metis append_Nil2 append_take_drop_id filter_append)
  then have "length (filter (\<lambda>y. y < s ! i) s) \<le> length (take i s)" by (metis length_filter_le)
  then show ?thesis by simp
qed

lemma take_sort_prefix:
  fixes xs ys :: "'k :: linorder list"
  assumes "sorted xs"
  shows "take k (sort (take k xs @ ys)) = take k (sort (xs @ ys))"
proof (cases "length xs \<le> k")
  case True
  then show ?thesis by simp
next
  case False
  define A where "A = take k xs @ ys"
  define B where "B = drop k xs"
  define s where "s = sort A"
  have len: "length (take k xs) = k" using False by simp
  have le: "a \<le> b" if "a \<in> set (take k xs)" "b \<in> set B" for a b
    using assms that unfolding B_def by (metis append_take_drop_id sorted_append)
  have small: "x \<le> b" if x: "x \<in> set (take k s)" and b: "b \<in> set B" for x b
  proof (rule ccontr)
    assume "\<not> x \<le> b"
    with le [OF _ b] have all: "\<forall>a \<in> set (take k xs). a < x" by fastforce
    from x obtain i where i: "i < k" "i < length s" "x = s ! i" by (auto simp: in_set_conv_nth)
    have "length (filter (\<lambda>y. y < x) A) \<ge> k" using all len by (simp add: A_def)
    moreover have "length (filter (\<lambda>y. y < x) s) = length (filter (\<lambda>y. y < x) A)"
      unfolding s_def by (metis mset_filter mset_sort size_mset)
    moreover have "length (filter (\<lambda>y. y < s ! i) s) \<le> i"
      by (rule sorted_smaller_before) (use i in \<open>simp_all add: s_def\<close>)
    ultimately show False using i by simp
  qed
  have "sort (xs @ ys) = take k s @ sort (drop k s @ B)"
  proof (rule properties_for_sort)
    have "mset (take k s) + mset (drop k s) = mset A"
      unfolding s_def by (metis append_take_drop_id mset_append mset_sort)
    moreover have "mset (take k xs) + mset (drop k xs) = mset xs"
      by (metis append_take_drop_id mset_append)
    ultimately show "mset (take k s @ sort (drop k s @ B)) = mset (xs @ ys)"
      by (simp add: A_def B_def) (metis add.assoc add.commute)
    have "sorted (take k s @ drop k s)" by (simp add: s_def)
    then have "\<forall>x \<in> set (take k s). \<forall>y \<in> set (drop k s). x \<le> y" "sorted (take k s)"
      unfolding sorted_append by auto
    with small show "sorted (take k s @ sort (drop k s @ B))" by (auto simp: sorted_append)
  qed
  moreover have "length (take k s) = k" using len by (simp add: s_def A_def)
  ultimately show ?thesis by (simp add: A_def s_def)
qed

lemma take_sort_concat:
  fixes xss :: "'k :: linorder list list"
  assumes "\<forall>xs \<in> set xss. sorted xs"
  shows "take k (sort (concat (map (take k) xss) @ ys)) = take k (sort (concat xss @ ys))"
  using assms
proof (induction xss arbitrary: ys)
  case (Cons xs xss)
  have "take k (sort (take k xs @ concat (map (take k) xss) @ ys)) =
      take k (sort (xs @ concat (map (take k) xss) @ ys))"
    by (rule take_sort_prefix) (use Cons.prems in simp)
  also have "sort (xs @ concat (map (take k) xss) @ ys) = sort (concat (map (take k) xss) @ xs @ ys)"
    by (rule properties_for_sort) (simp_all add: ac_simps)
  also have "take k (sort (concat (map (take k) xss) @ xs @ ys)) = take k (sort (concat xss @ xs @ ys))"
    by (rule Cons.IH) (use Cons.prems in simp)
  also have "sort (concat xss @ xs @ ys) = sort (xs @ concat xss @ ys)"
    by (rule properties_for_sort) (simp_all add: ac_simps)
  finally show ?case by simp
qed simp

lemma map_key_sort_key: "map key (sort_key key xs) = sort (map key xs)"
  by (rule properties_for_sort [symmetric]) simp_all

lemma fetch_all_answers:
  assumes "\<forall>a \<in> set accs. \<forall>v. fst (lm a limit None v) = Inr (take limit (box a))"
  shows "map (unified_key E) (fst (fetch_all lm limit accs w)) =
    concat (map (\<lambda>a. take limit (map (\<lambda>m. date_key_of E (em_received m)) (box a))) accs)"
  using assms
proof (induction accs arbitrary: w)
  case (Cons a accs)
  obtain r w1 where r: "lm a limit None w = (r, w1)" by force
  have "\<forall>v. fst (lm a limit None v) = Inr (take limit (box a))" using Cons.prems by simp
  with r have "r = Inr (take limit (box a))" by (metis fst_conv)
  with r Cons.IH [of w1] Cons.prems show ?case
    by (simp add: case_prod_unfold Let_def unified_key_def take_map)
qed simp

text \<open>If every provider answers with the newest messages of its mailbox, the inbox shows the dates
  of the newest messages of all mailboxes together.\<close>

lemma inbox_newest:
  assumes "\<forall>a \<in> set accs. \<forall>v. fst (lm a limit None v) = Inr (take limit (box a))"
    and "\<forall>a \<in> set accs. sorted (map (\<lambda>m. date_key_of E (em_received m)) (box a))"
    and "aggregate_unified_inbox E lm accs limit w = (Inr inbox, w')"
  shows "map (unified_key E) inbox =
    take limit (sort (concat (map (\<lambda>a. map (\<lambda>m. date_key_of E (em_received m)) (box a)) accs)))"
proof -
  let ?keys = "\<lambda>a. map (\<lambda>m. date_key_of E (em_received m)) (box a)"
  from assms(3) have "map (unified_key E) inbox =
      take limit (sort (map (unified_key E) (fst (fetch_all lm limit accs w))))"
    by (auto simp: aggregate_eq take_map [symmetric] map_key_sort_key)
  also have "map (unified_key E) (fst (fetch_all lm limit accs w)) = concat (map (take limit) (map ?keys accs)) @ []"
    using fetch_all_answers [where lm = lm and box = box, OF assms(1)] by (simp add: comp_def)
  also have "take limit (sort \<dots>) = take limit (sort (concat (map ?keys accs) @ []))"
    by (rule take_sort_concat) (use assms(2) in auto)
  finally show ?thesis by simp
qed

section \<open>The \<open>EmailProvider\<close> interface\<close>

locale email_provider =
  fixes ok :: "'w \<Rightarrow> bool"
    and rows :: "'w \<Rightarrow> account list"
    and look :: "'w \<Rightarrow> string \<Rightarrow> 'v option"
    and list_messages :: "account \<Rightarrow> nat \<Rightarrow> string option \<Rightarrow> 'w \<Rightarrow> email list result \<times> 'w"
    and get_message :: "account \<Rightarrow> string \<Rightarrow> 'w \<Rightarrow> email result \<times> 'w"
    and send_message :: "account \<Rightarrow> string \<Rightarrow> string \<Rightarrow> string \<Rightarrow> 'w \<Rightarrow> unit result \<times> 'w"
  assumes list_law: "ok w \<Longrightarrow> list_messages a n q w = (rl, w') \<Longrightarrow>
      ok w' \<and> rows w' = rows w \<and> (\<forall>j. j \<noteq> acc_id a \<longrightarrow> look w' j = look w j)"
    and get_law: "ok w \<Longrightarrow> get_message a i w = (rg, w') \<Longrightarrow>
      ok w' \<and> rows w' = rows w \<and> (\<forall>j. j \<noteq> acc_id a \<longrightarrow> look w' j = look w j)"
    and send_law: "ok w \<Longrightarrow> send_message a t s b w = (ru, w') \<Longrightarrow>
      ok w' \<and> rows w' = rows w \<and> (\<forall>j. j \<noteq> acc_id a \<longrightarrow> look w' j = look w j)"
begin

lemma fetch_all_frame:
  "ok w \<Longrightarrow> fetch_all list_messages limit accs w = (ms, w') \<Longrightarrow>
   ok w' \<and> rows w' = rows w \<and> (\<forall>j. j \<notin> acc_id ` set accs \<longrightarrow> look w' j = look w j)"
proof (induction accs arbitrary: w ms w')
  case (Cons a accs)
  obtain r w1 where r: "list_messages a limit None w = (r, w1)" by force
  obtain ms2 w2 where f: "fetch_all list_messages limit accs w1 = (ms2, w2)" by force
  from Cons.prems(2) r f have "w' = w2" by (simp add: Let_def)
  with list_law [OF Cons.prems(1) r] Cons.IH [OF _ f] show ?case by simp
qed simp

text \<open>Building the inbox of some accounts touches no other account.\<close>

lemma inbox_frame:
  assumes "ok w" and "aggregate_unified_inbox E list_messages accs limit w = (r, w')"
  shows "ok w' \<and> rows w' = rows w \<and> (\<forall>j. j \<notin> acc_id ` set accs \<longrightarrow> look w' j = look w j)"
proof -
  obtain ms w1 where f: "fetch_all list_messages limit accs w = (ms, w1)" by force
  with assms(2) have "w' = w1" by (simp add: aggregate_unified_inbox_def)
  with fetch_all_frame [OF assms(1) f] show ?thesis by simp
qed

end

end
