(* ===== verification/Graph.thy ===== *)
theory Graph
  imports Mail Ticks
begin

text \<open>
  \<open>src/provider/graph.rs\<close>: the Microsoft Graph provider. A request is a \<open>target\<close> (the parsed
  base URL with what is pushed to its path and appended to its query), a method, a body and the
  bearer token. \<open>GraphMessage\<close> and its parts are decoded from JSON as serde's derived
  implementations do, and mapped to the provider-agnostic mail.
\<close>

definition MESSAGE_SELECT :: string where
  "MESSAGE_SELECT = ''id,subject,from,toRecipients,bodyPreview,receivedDateTime,isRead''"

section \<open>Decoding\<close>

record graph_email_address =
  ga_name :: "string option"
  ga_address :: "string option"

record graph_recipient =
  gr_email :: "graph_email_address option"

record graph_body =
  gb_content :: "string option"

record graph_message =
  gm_id :: string
  gm_subject :: "string option"
  gm_from :: "graph_recipient option"
  gm_to :: "graph_recipient list"
  gm_preview :: "string option"
  gm_body :: "graph_body option"
  gm_received :: "string option"
  gm_read :: bool

text \<open>The members of a struct by name: an object gives them by key, none of them twice, an array by position. The flag
  says that a field may be missing at the end of an array (\<open>#[serde(default)]\<close>).\<close>

fun members :: "(string \<times> bool) list \<Rightarrow> json \<Rightarrow> (string \<Rightarrow> json option) option" where
  "members names (JObj ms) =
     (if distinct (filter (\<lambda>n. n \<in> fst ` set names) (map fst ms)) then Some (map_of ms) else None)"
| "members names (JArr xs) =
     (if length xs \<le> length names \<and> (\<forall>f \<in> set (drop (length xs) names). snd f)
      then Some (map_of (zip (map fst names) xs)) else None)"
| "members names _ = None"

fun read_string :: "json \<Rightarrow> string option" where
  "read_string (JStr s) = Some s"
| "read_string _ = None"

fun read_bool :: "json \<Rightarrow> bool option" where
  "read_bool (JBool b) = Some b"
| "read_bool _ = None"

text \<open>A field of type \<open>Option\<close> (missing and null are \<open>None\<close>), one with a default (only missing
  is the default), a required one.\<close>

definition opt_member :: "(json \<Rightarrow> 'a option) \<Rightarrow> json option \<Rightarrow> 'a option option" where
  "opt_member read m =
     (case m of None \<Rightarrow> Some None
      | Some j \<Rightarrow> if j = JNull then Some None else map_option Some (read j))"

definition default_member :: "'a \<Rightarrow> (json \<Rightarrow> 'a option) \<Rightarrow> json option \<Rightarrow> 'a option" where
  "default_member d read m = (case m of None \<Rightarrow> Some d | Some j \<Rightarrow> read j)"

definition read_address :: "json \<Rightarrow> graph_email_address option" where
  "read_address j = Option.bind (members [(''name'', False), (''address'', False)] j) (\<lambda>m.
     Option.bind (opt_member read_string (m ''name'')) (\<lambda>name.
     Option.bind (opt_member read_string (m ''address'')) (\<lambda>address.
       Some \<lparr>ga_name = name, ga_address = address\<rparr>)))"

definition read_recipient :: "json \<Rightarrow> graph_recipient option" where
  "read_recipient j = Option.bind (members [(''emailAddress'', False)] j) (\<lambda>m.
     Option.bind (opt_member read_address (m ''emailAddress'')) (\<lambda>e. Some \<lparr>gr_email = e\<rparr>))"

definition read_body :: "json \<Rightarrow> graph_body option" where
  "read_body j = Option.bind (members [(''content'', False)] j) (\<lambda>m.
     Option.bind (opt_member read_string (m ''content'')) (\<lambda>c. Some \<lparr>gb_content = c\<rparr>))"

text \<open>A sequence: every element must read.\<close>

fun read_each :: "(json \<Rightarrow> 'a option) \<Rightarrow> json list \<Rightarrow> 'a list option" where
  "read_each read [] = Some []"
| "read_each read (j # js) =
     Option.bind (read j) (\<lambda>x. Option.bind (read_each read js) (\<lambda>xs. Some (x # xs)))"

definition read_list :: "(json \<Rightarrow> 'a option) \<Rightarrow> json \<Rightarrow> 'a list option" where
  "read_list read j = Option.bind (as_array j) (read_each read)"

definition read_message :: "json \<Rightarrow> graph_message option" where
  "read_message j =
     Option.bind (members [(''id'', False), (''subject'', False), (''from'', False),
        (''toRecipients'', True), (''bodyPreview'', False), (''body'', False),
        (''receivedDateTime'', False), (''isRead'', True)] j) (\<lambda>m.
     Option.bind (Option.bind (m ''id'') read_string) (\<lambda>i.
     Option.bind (opt_member read_string (m ''subject'')) (\<lambda>subject.
     Option.bind (opt_member read_recipient (m ''from'')) (\<lambda>sender.
     Option.bind (default_member [] (read_list read_recipient) (m ''toRecipients'')) (\<lambda>recipients.
     Option.bind (opt_member read_string (m ''bodyPreview'')) (\<lambda>preview.
     Option.bind (opt_member read_body (m ''body'')) (\<lambda>body.
     Option.bind (opt_member read_string (m ''receivedDateTime'')) (\<lambda>received.
     Option.bind (default_member False read_bool (m ''isRead'')) (\<lambda>is_read.
       Some \<lparr>gm_id = i, gm_subject = subject, gm_from = sender, gm_to = recipients,
         gm_preview = preview, gm_body = body, gm_received = received, gm_read = is_read\<rparr>)))))))))"

definition address_of :: "graph_email_address \<Rightarrow> email_address option" where
  "address_of a = map_option (\<lambda>address. \<lparr>ea_name = ga_name a, ea_address = address\<rparr>) (ga_address a)"

definition graph_message_to_email :: "json \<Rightarrow> email option" where
  "graph_message_to_email value = Option.bind (read_message value) (\<lambda>message.
     Some \<lparr>em_id = gm_id message, em_subject = gm_subject message,
       em_from = Option.bind (Option.bind (gm_from message) gr_email) address_of,
       em_to = List.map_filter (\<lambda>r. Option.bind (gr_email r) address_of) (gm_to message),
       em_preview = gm_preview message,
       em_body = Option.bind (gm_body message) gb_content,
       em_received = gm_received message,
       em_read = gm_read message\<rparr>)"

section \<open>Requests\<close>

record target =
  tg_url :: url
  tg_push :: "string list"
  tg_query :: "(string \<times> string) list"

definition request :: "http_method \<Rightarrow> target \<Rightarrow> json option \<Rightarrow> string \<Rightarrow> http_request" where
  "request method t body token = \<lparr>rq_method = method, rq_url = tg_url t, rq_push = tg_push t,
     rq_query = tg_query t, rq_bearer = token, rq_body = body\<rparr>"

definition send ::
    "env \<Rightarrow> http_method \<Rightarrow> target \<Rightarrow> string \<Rightarrow> json option \<Rightarrow> world \<Rightarrow> http_response result \<times> world" where
  "send E method t token body w =
     (let (r, w) = call_graph E (request method t body token) w in (map_err from_reqwest r, w))"

definition send_authorized ::
    "env \<Rightarrow> config \<Rightarrow> account \<Rightarrow> http_method \<Rightarrow> target \<Rightarrow> json option \<Rightarrow> world \<Rightarrow>
     http_response result \<times> world" where
  "send_authorized E C a method t body w =
     bindE (get_access_token E C (acc_id a) w) (\<lambda>token w.
     bindE (send E method t token body w) (\<lambda>response w.
       if rs_status response = 401 then
         bindE (refresh_account E C (acc_id a) w) (\<lambda>_ w.
         bindE (get_access_token E C (acc_id a) w) (\<lambda>token w.
           send E method t token body w))
       else (Inr response, w)))"

definition is_success :: "nat \<Rightarrow> bool" where
  "is_success s \<longleftrightarrow> 200 \<le> s \<and> s < 300"

definition response_text :: "http_response \<Rightarrow> string" where
  "response_text r = (case rs_text r of Some t \<Rightarrow> t | None \<Rightarrow> '''')"

text \<open>Graph's own message, or the first 300 characters of the body.\<close>

definition graph_error_message :: "env \<Rightarrow> string \<Rightarrow> string" where
  "graph_error_message E body =
     (case json_of_text E body of
        Inr j \<Rightarrow>
          (case Option.bind (Option.bind (json_get ''error'' j) (json_get ''message'')) as_str of
             Some message \<Rightarrow> message
           | None \<Rightarrow> take_chars 300 body)
      | Inl _ \<Rightarrow> take_chars 300 body)"

definition to_json :: "env \<Rightarrow> http_response \<Rightarrow> json result" where
  "to_json E response =
     (let status = rs_status response; text = response_text response
      in if \<not> is_success status then
           Inl (Provider (''Graph '' @ status_text E status @ '': '' @ graph_error_message E text))
         else map_err (\<lambda>e. Provider (''invalid Graph response: '' @ e)) (json_of_text E text))"

definition get_json :: "env \<Rightarrow> config \<Rightarrow> account \<Rightarrow> target \<Rightarrow> world \<Rightarrow> json result \<times> world" where
  "get_json E C a t w =
     bindE (send_authorized E C a GET t None w) (\<lambda>response w. (to_json E response, w))"

text \<open>\<open>url::Url::parse(&format!("{base}{path}"))?\<close>.\<close>

definition graph_url :: "env \<Rightarrow> config \<Rightarrow> string \<Rightarrow> url result" where
  "graph_url E C path = map_err from_url_parse (parse_url E (graph_base_url C @ path))"

section \<open>The provider's operations\<close>

definition list_query :: "nat \<Rightarrow> string option \<Rightarrow> (string \<times> string) list" where
  "list_query limit query =
     [(''$top'', show_nat limit), (''$select'', MESSAGE_SELECT)] @
     (case query of
        Some qs \<Rightarrow> if trim qs \<noteq> '''' then [(''$search'', [CHR 0x22] @ replace_char (CHR 0x22) '''' qs @ [CHR 0x22])]
                   else [(''$orderby'', ''receivedDateTime desc'')]
      | None \<Rightarrow> [(''$orderby'', ''receivedDateTime desc'')])"

definition messages_of :: "json \<Rightarrow> email list" where
  "messages_of j =
     (case Option.bind (json_get ''value'' j) as_array of
        Some vs \<Rightarrow> List.map_filter graph_message_to_email vs
      | None \<Rightarrow> [])"

definition list_messages ::
    "env \<Rightarrow> config \<Rightarrow> account \<Rightarrow> nat \<Rightarrow> string option \<Rightarrow> world \<Rightarrow> email list result \<times> world" where
  "list_messages E C a limit query w =
     bindE (graph_url E C ''/me/messages'', w) (\<lambda>url w.
     bindE (get_json E C a \<lparr>tg_url = url, tg_push = [], tg_query = list_query limit query\<rparr> w) (\<lambda>j w.
       (Inr (messages_of j), w)))"

definition get_message :: "env \<Rightarrow> config \<Rightarrow> account \<Rightarrow> string \<Rightarrow> world \<Rightarrow> email result \<times> world" where
  "get_message E C a message_id w =
     bindE (graph_url E C ''/me/messages/'', w) (\<lambda>url w.
     bindE (if url_base url then Inr () else Inl (InvalidRequest ''invalid message id''), w) (\<lambda>_ w.
     bindE (get_json E C a \<lparr>tg_url = url, tg_push = [message_id], tg_query = []\<rparr> w) (\<lambda>j w.
       (ok_or (Provider ''unexpected Graph message shape'') (graph_message_to_email j), w))))"

definition mail_payload :: "string \<Rightarrow> string \<Rightarrow> string \<Rightarrow> json" where
  "mail_payload to subject body =
     JObj [(''message'', JObj [(''subject'', JStr subject),
             (''body'', JObj [(''contentType'', JStr ''Text''), (''content'', JStr body)]),
             (''toRecipients'', JArr [JObj [(''emailAddress'', JObj [(''address'', JStr to)])]])]),
           (''saveToSentItems'', JBool True)]"

definition send_message ::
    "env \<Rightarrow> config \<Rightarrow> account \<Rightarrow> string \<Rightarrow> string \<Rightarrow> string \<Rightarrow> world \<Rightarrow> unit result \<times> world" where
  "send_message E C a to subject body w =
     bindE (graph_url E C ''/me/sendMail'', w) (\<lambda>url w.
     bindE (send_authorized E C a POST \<lparr>tg_url = url, tg_push = [], tg_query = []\<rparr>
              (Some (mail_payload to subject body)) w) (\<lambda>response w.
       let status = rs_status response
       in if \<not> is_success status then
            (Inl (Provider (''send failed ('' @ status_text E status @ ''): '' @
               graph_error_message E (response_text response))), w)
          else (Inr (), w)))"

section \<open>Resolving an identity\<close>

record profile =
  pr_mail :: "string option"
  pr_upn :: "string option"
  pr_name :: "string option"

definition read_profile :: "json \<Rightarrow> profile option" where
  "read_profile j =
     Option.bind (members [(''mail'', False), (''userPrincipalName'', False), (''displayName'', False)] j) (\<lambda>m.
     Option.bind (opt_member read_string (m ''mail'')) (\<lambda>mail.
     Option.bind (opt_member read_string (m ''userPrincipalName'')) (\<lambda>upn.
     Option.bind (opt_member read_string (m ''displayName'')) (\<lambda>name.
       Some \<lparr>pr_mail = mail, pr_upn = upn, pr_name = name\<rparr>))))"

definition parse_profile :: "env \<Rightarrow> string \<Rightarrow> string + profile" where
  "parse_profile E text =
     (case json_doc E text of
        Inl e \<Rightarrow> Inl e
      | Inr j \<Rightarrow> (case read_profile j of None \<Rightarrow> Inl (shape_error E text) | Some p \<Rightarrow> Inr p))"

definition profile_email :: "profile \<Rightarrow> string option" where
  "profile_email p =
     (case (case pr_mail p of Some m \<Rightarrow> Some m | None \<Rightarrow> pr_upn p) of
        Some s \<Rightarrow> if s \<noteq> '''' then Some s else None
      | None \<Rightarrow> None)"

definition fetch_profile :: "env \<Rightarrow> config \<Rightarrow> resolver" where
  "fetch_profile E C access_token w =
     bindE (graph_url E C ''/me'', w) (\<lambda>url w.
     bindE (send E GET \<lparr>tg_url = url, tg_push = [], tg_query = []\<rparr> access_token None w) (\<lambda>response w.
       let status = rs_status response; text = response_text response
       in if \<not> is_success status then
            (Inl (Auth (''could not fetch account profile ('' @ status_text E status @ ''): '' @
               graph_error_message E text)), w)
          else bindE (map_err (\<lambda>e. Auth (''invalid profile: '' @ e)) (parse_profile E text), w) (\<lambda>p w.
               bindE (ok_or (Auth ''account profile did not include an email address'') (profile_email p), w)
                 (\<lambda>email w. (Inr \<lparr>id_email = email, id_name = pr_name p\<rparr>, w)))))"

text \<open>\<open>GraphIdentityResolver\<close>.\<close>

definition graph_resolve :: "env \<Rightarrow> config \<Rightarrow> resolver" where
  "graph_resolve E C access_token w = fetch_profile E C access_token w"

section \<open>Whose token is sent\<close>

text \<open>The tokens an account's stored token can become: refreshes of it, with the refresh token of the
  time, and moves of its usage times.\<close>

inductive renewal :: "env \<Rightarrow> stored_token \<Rightarrow> stored_token \<Rightarrow> bool" for E where
  refl: "renewal E u u"
| bump: "renewal E u v \<Longrightarrow> renewal E u (v\<lparr>st_last_used := a, st_updated := b\<rparr>)"
| renew: "renewal E u v \<Longrightarrow> idp E n (ExchangeRefresh cl (st_refresh v)) = Inr resp \<Longrightarrow>
    refreshed v resp x \<Longrightarrow> renewal E u x"

lemma renewal_trans: "renewal E v x \<Longrightarrow> renewal E u v \<Longrightarrow> renewal E u x"
  by (induction rule: renewal.induct) (auto intro: renewal.intros)

definition renews :: "env \<Rightarrow> bytes \<Rightarrow> string \<Rightarrow> world \<Rightarrow> world \<Rightarrow> bool" where
  "renews E K i w w' \<longleftrightarrow>
     (case token_view E K w i of
        None \<Rightarrow> token_view E K w' i = None
      | Some u \<Rightarrow> (\<exists>v. token_view E K w' i = Some v \<and> renewal E u v))"

lemma renews_same: "token_view E K w' i = token_view E K w i \<Longrightarrow> renews E K i w w'"
  by (auto simp: renews_def intro: renewal.refl split: option.splits)

lemma renews_trans: "renews E K i w w1 \<Longrightarrow> renews E K i w1 w2 \<Longrightarrow> renews E K i w w2"
  by (auto simp: renews_def split: option.splits intro: renewal_trans)

lemma refresh_account_renews:
  assumes ok: "store_ok E (encryption_key C) T w" and idp: "idp_ok E T"
    and run: "refresh_account E C i w = (r, w')"
  shows "renews E (encryption_key C) i w w'"
    and "j \<noteq> i \<Longrightarrow> token_view E (encryption_key C) w' j = token_view E (encryption_key C) w j"
proof -
  note a = refresh_account_result [OF ok idp run]
  have "renews E (encryption_key C) i w w' \<and>
    (j \<noteq> i \<longrightarrow> token_view E (encryption_key C) w' j = token_view E (encryption_key C) w j)"
  proof (cases r)
    case (Inl e)
    from a(3) [OF Inl] show ?thesis by (simp add: renews_same)
  next
    case (Inr u)
    from a(4) [OF Inr] obtain cur cl n resp new where new: "token_view E (encryption_key C) w i = Some cur"
      "idp E n (ExchangeRefresh cl (st_refresh cur)) = Inr resp" "refreshed cur resp new"
      "token_view E (encryption_key C) w' = (token_view E (encryption_key C) w)(i \<mapsto> new)" by blast
    then show ?thesis
      using renewal.renew [OF renewal.refl new(2,3)] by (simp add: renews_def)
  qed
  then show "renews E (encryption_key C) i w w'"
    "j \<noteq> i \<Longrightarrow> token_view E (encryption_key C) w' j = token_view E (encryption_key C) w j" by blast+
qed

text \<open>A token handed out is the one stored afterwards.\<close>

lemma get_access_token_renews:
  assumes ok: "store_ok E (encryption_key C) T w" and idp: "idp_ok E T"
    and run: "get_access_token E C i w = (r, w')"
  shows "renews E (encryption_key C) i w w'"
    and "r = Inr s \<Longrightarrow> \<exists>v. token_view E (encryption_key C) w' i = Some v \<and> s = st_access v"
proof -
  let ?K = "encryption_key C"
  have "renews E ?K i w w' \<and> (r = Inr s \<longrightarrow> (\<exists>v. token_view E ?K w' i = Some v \<and> s = st_access v))"
    using ok run
  proof (cases rule: get_access_token_cases)
    case (failed m)
    then show ?thesis by (simp add: renews_same)
  next
    case (cached tok w1)
    have look: "token_view E ?K w1 i = Some tok" using cached(1,8) by simp
    from bump_result(4) [OF cached(5) idp look] cached(4) obtain u v where
      "token_view E ?K w' i = Some (tok\<lparr>st_last_used := u, st_updated := v\<rparr>)" by auto
    with cached(1,3) show ?thesis
      using renewal.bump [OF renewal.refl, of E tok] by (simp add: renews_def)
  next
    case (renew w1)
    obtain r1 w2 where rf: "refresh_account E C i w1 = (r1, w2)" by force
    note a = refresh_account_renews [OF renew(3) idp rf] and b = refresh_account_result(1) [OF renew(3) idp rf]
    have base: "renews E ?K i w w2"
      using a(1) renew(6) by (simp add: renews_def)
    have after: "token_view E ?K w' = token_view E ?K w2"
    proof (cases r1)
      case (Inl e)
      with renew(2) rf have "w' = w2" by (simp add: refresh_and_read_def)
      then show ?thesis by simp
    next
      case (Inr x)
      obtain r3 w3 where g: "token_get E ?K i w2 = (r3, w3)" by force
      with renew(2) rf Inr have "w' = w3"
        by (cases r3) (simp_all add: refresh_and_read_def)
      with token_get_view(2) [OF b g] show ?thesis by simp
    qed
    have "renews E ?K i w w'" using base after by (auto simp: renews_def split: option.splits)
    moreover have "r = Inr s \<longrightarrow> (\<exists>v. token_view E ?K w' i = Some v \<and> s = st_access v)"
      using refresh_and_read_result(4) [OF renew(3) idp renew(2), of s] by (auto simp: refreshed_def)
    ultimately show ?thesis by simp
  qed
  then show "renews E ?K i w w'" "r = Inr s \<Longrightarrow> \<exists>v. token_view E ?K w' i = Some v \<and> s = st_access v"
    by blast+
qed

section \<open>What an authorized request does\<close>

text \<open>The Graph requests among what was sent.\<close>

definition graph_sent :: "wire_event list \<Rightarrow> http_request list" where
  "graph_sent es = List.map_filter (\<lambda>e. case e of ToGraph q \<Rightarrow> Some q | ToIdp _ \<Rightarrow> None) es"

lemma graph_sent_simps [simp]:
  "graph_sent [] = []" "graph_sent (ToGraph q # es) = q # graph_sent es"
  "graph_sent (ToIdp r # es) = graph_sent es" "graph_sent (es @ fs) = graph_sent es @ graph_sent fs"
  by (simp_all add: graph_sent_def List.map_filter_def)

text \<open>The requests to the identity provider among it.\<close>

definition idp_sent :: "wire_event list \<Rightarrow> idp_request list" where
  "idp_sent es = List.map_filter (\<lambda>e. case e of ToGraph _ \<Rightarrow> None | ToIdp r \<Rightarrow> Some r) es"

lemma idp_sent_simps [simp]:
  "idp_sent [] = []" "idp_sent (ToGraph q # es) = idp_sent es"
  "idp_sent (ToIdp r # es) = r # idp_sent es" "idp_sent (es @ fs) = idp_sent es @ idp_sent fs"
  by (simp_all add: idp_sent_def List.map_filter_def)

text \<open>A request for a renewal of the token that \<open>view\<close> has for account \<open>i\<close>: of that token itself or of
  one renewed from it.\<close>

definition renewal_request :: "env \<Rightarrow> (string \<Rightarrow> stored_token option) \<Rightarrow> string \<Rightarrow> idp_request \<Rightarrow> bool" where
  "renewal_request E view i r \<longleftrightarrow>
     (\<exists>cl u v. view i = Some u \<and> renewal E u v \<and> r = ExchangeRefresh cl (st_refresh v))"

text \<open>The effect on the world of working for account \<open>i\<close>: only its token may change, by renewal,
  at most \<open>n\<close> requests went to Graph, all built by \<open>rq\<close> from an access token of this account, and the
  identity provider was asked for renewals of this account's token alone.\<close>

definition mail_effect ::
    "env \<Rightarrow> bytes \<Rightarrow> (int \<Rightarrow> bool) \<Rightarrow> string \<Rightarrow> (string \<Rightarrow> http_request) \<Rightarrow> nat \<Rightarrow> world \<Rightarrow> world \<Rightarrow> bool" where
  "mail_effect E K T i rq n w w' \<longleftrightarrow>
     store_ok E K T w' \<and> tokens_only w w' \<and> (\<forall>j. j \<noteq> i \<longrightarrow> token_view E K w' j = token_view E K w j) \<and>
     renews E K i w w' \<and> tick w \<le> tick w' \<and>
     (\<exists>es. wire w' = wire w @ es \<and> length (graph_sent es) \<le> n \<and>
        (\<forall>q \<in> set (graph_sent es). \<exists>u v. token_view E K w i = Some u \<and> renewal E u v \<and> q = rq (st_access v)) \<and>
        (\<forall>r \<in> set (idp_sent es). renewal_request E (token_view E K w) i r))"

lemma mail_effect_refl: "store_ok E K T w \<Longrightarrow> mail_effect E K T i rq n w w"
  by (simp add: mail_effect_def renews_same)

lemma mail_effect_trans:
  assumes a: "mail_effect E K T i rq n w w1" and b: "mail_effect E K T i rq m w1 w2"
  shows "mail_effect E K T i rq (n + m) w w2"
proof -
  from a obtain es where es: "wire w1 = wire w @ es" "length (graph_sent es) \<le> n"
    "\<forall>q \<in> set (graph_sent es). \<exists>u v. token_view E K w i = Some u \<and> renewal E u v \<and> q = rq (st_access v)"
    "\<forall>r \<in> set (idp_sent es). renewal_request E (token_view E K w) i r"
    by (auto simp: mail_effect_def)
  from b obtain fs where fs: "wire w2 = wire w1 @ fs" "length (graph_sent fs) \<le> m"
    "\<forall>q \<in> set (graph_sent fs). \<exists>u v. token_view E K w1 i = Some u \<and> renewal E u v \<and> q = rq (st_access v)"
    "\<forall>r \<in> set (idp_sent fs). renewal_request E (token_view E K w1) i r"
    by (auto simp: mail_effect_def)
  have chain: "\<exists>u. token_view E K w i = Some u \<and> renewal E u v"
    if "token_view E K w1 i = Some u1" "renewal E u1 v" for u1 v
    using a that renewal_trans by (fastforce simp: mail_effect_def renews_def split: option.splits)
  have "\<forall>q \<in> set (graph_sent fs). \<exists>u v. token_view E K w i = Some u \<and> renewal E u v \<and> q = rq (st_access v)"
    using fs(3) chain by blast
  moreover have "\<forall>r \<in> set (idp_sent fs). renewal_request E (token_view E K w) i r"
    using fs(4) chain unfolding renewal_request_def by blast
  ultimately have "\<exists>gs. wire w2 = wire w @ gs \<and> length (graph_sent gs) \<le> n + m \<and>
      (\<forall>q \<in> set (graph_sent gs). \<exists>u v. token_view E K w i = Some u \<and> renewal E u v \<and> q = rq (st_access v)) \<and>
      (\<forall>r \<in> set (idp_sent gs). renewal_request E (token_view E K w) i r)"
    using es fs(1,2) by (intro exI [of _ "es @ fs"]) auto
  moreover have "tokens_only w w2" using a b by (auto simp: mail_effect_def intro: tokens_only_trans)
  moreover have "renews E K i w w2" using a b by (auto simp: mail_effect_def intro: renews_trans)
  ultimately show ?thesis using a b by (simp add: mail_effect_def)
qed

text \<open>A request to the identity provider, if any, renews the stored token.\<close>

lemma renewal_sent:
  assumes "wire w' = wire w \<or> (\<exists>cur cl. token_view E K w i = Some cur \<and> P cur cl \<and>
    wire w' = wire w @ [ToIdp (ExchangeRefresh cl (st_refresh cur))])"
  shows "\<exists>es. wire w' = wire w @ es \<and> graph_sent es = [] \<and> (\<forall>r \<in> set (idp_sent es). renewal_request E (token_view E K w) i r)"
  using assms
proof (elim disjE exE conjE)
  fix cur cl
  assume "token_view E K w i = Some cur" and "wire w' = wire w @ [ToIdp (ExchangeRefresh cl (st_refresh cur))]"
  then show ?thesis
    by (intro exI [of _ "[ToIdp (ExchangeRefresh cl (st_refresh cur))]"])
      (auto simp: renewal_request_def intro: renewal.refl)
qed (intro exI [of _ "[]"], simp)

lemma get_access_token_effect:
  assumes ok: "store_ok E (encryption_key C) T w" and idp: "idp_ok E T"
    and run: "get_access_token E C i w = (r, w')"
  shows "mail_effect E (encryption_key C) T i rq 0 w w'"
proof -
  note a = get_access_token_result [OF ok idp run]
  have "tick w \<le> tick w'" using forward_get_access_token [of "tick w" w E C i] run by simp
  moreover have "\<exists>es. wire w' = wire w @ es \<and> graph_sent es = [] \<and>
      (\<forall>r \<in> set (idp_sent es). renewal_request E (token_view E (encryption_key C) w) i r)"
    by (rule renewal_sent [where P = "\<lambda>cur cl. True"]) (use a(4) in blast)
  ultimately show ?thesis
    using a(1-3) get_access_token_renews(1) [OF ok idp run] by (auto simp: mail_effect_def)
qed

lemma refresh_account_effect:
  assumes ok: "store_ok E (encryption_key C) T w" and idp: "idp_ok E T"
    and run: "refresh_account E C i w = (r, w')"
  shows "mail_effect E (encryption_key C) T i rq 0 w w'"
proof -
  note a = refresh_account_result [OF ok idp run]
  have "tick w \<le> tick w'" using forward_refresh_account [of "tick w" w E C i] run by simp
  moreover have "\<exists>es. wire w' = wire w @ es \<and> graph_sent es = [] \<and>
      (\<forall>r \<in> set (idp_sent es). renewal_request E (token_view E (encryption_key C) w) i r)"
    by (rule renewal_sent [where P = "\<lambda>cur cl. True"]) (use a(5) in blast)
  ultimately show ?thesis
    using a(1,2) refresh_account_renews [OF ok idp run] by (auto simp: mail_effect_def)
qed

lemma send_effect:
  assumes ok: "store_ok E K T w" and tok: "token_view E K w i = Some v"
    and run: "send E m t (st_access v) body w = (r, w')"
  shows "mail_effect E K T i (request m t body) 1 w w'"
proof -
  from run have w': "w' = snd (call_graph E (request m t body (st_access v)) w)"
    by (auto simp: send_def case_prod_unfold Let_def)
  then have d: "db w' = db w" by simp
  have "\<exists>es. wire w' = wire w @ es \<and> length (graph_sent es) \<le> 1 \<and> (\<forall>q \<in> set (graph_sent es).
      \<exists>u v. token_view E K w i = Some u \<and> renewal E u v \<and> q = request m t body (st_access v)) \<and>
      (\<forall>r \<in> set (idp_sent es). renewal_request E (token_view E K w) i r)"
    using w' tok by (intro exI [of _ "[ToGraph (request m t body (st_access v))]"]) (auto intro: renewal.refl)
  moreover have "tick w \<le> tick w'" using w' by simp
  ultimately show ?thesis
    using ok d token_view_db [OF d, of E K] store_ok_db [OF d, of E K T]
    by (simp add: mail_effect_def tokens_only_def renews_same)
qed

text \<open>Two requests at most, both the given one, both with a token of this account.\<close>

lemma send_authorized_effect:
  assumes ok: "store_ok E (encryption_key C) T w" and idp: "idp_ok E T"
    and run: "send_authorized E C a m t body w = (r, w')"
  shows "mail_effect E (encryption_key C) T (acc_id a) (request m t body) 2 w w'"
proof -
  let ?K = "encryption_key C" and ?i = "acc_id a" and ?rq = "request m t body"
  have weaken: "mail_effect E ?K T ?i ?rq n w x \<Longrightarrow> n \<le> 2 \<Longrightarrow> mail_effect E ?K T ?i ?rq 2 w x" for n x
    by (fastforce simp: mail_effect_def)
  obtain r1 w1 where g: "get_access_token E C ?i w = (r1, w1)" by force
  note e1 = get_access_token_effect [OF ok idp g, of ?rq]
  have ok1: "store_ok E ?K T w1" using e1 by (simp add: mail_effect_def)
  show ?thesis
  proof (cases r1)
    case (Inl e)
    with run g have "w' = w1" by (simp add: send_authorized_def)
    with weaken [OF e1] show ?thesis by simp
  next
    case (Inr s)
    with get_access_token_renews(2) [OF ok idp g, of s] obtain v where
      v: "token_view E ?K w1 ?i = Some v" "s = st_access v" by blast
    obtain r2 w2 where sd: "send E m t (st_access v) body w1 = (r2, w2)" by force
    have e2: "mail_effect E ?K T ?i ?rq 1 w w2"
      using mail_effect_trans [OF e1 send_effect [OF ok1 v(1) sd]] by simp
    have ok2: "store_ok E ?K T w2" using e2 by (simp add: mail_effect_def)
    show ?thesis
    proof (cases "\<exists>resp. r2 = Inr resp \<and> rs_status resp = 401")
      case False
      with run g Inr v(2) sd have "w' = w2" by (cases r2) (simp_all add: send_authorized_def)
      with weaken [OF e2] show ?thesis by simp
    next
      case True
      obtain r3 w3 where rf: "refresh_account E C ?i w2 = (r3, w3)" by force
      have e3: "mail_effect E ?K T ?i ?rq 1 w w3"
        using mail_effect_trans [OF e2 refresh_account_effect [OF ok2 idp rf]] by simp
      have ok3: "store_ok E ?K T w3" using e3 by (simp add: mail_effect_def)
      have rest: "bindE (r3, w3) (\<lambda>_ w. bindE (get_access_token E C ?i w) (\<lambda>token w.
          send E m t token body w)) = (r, w')"
        using run g Inr v(2) sd True rf by (auto simp: send_authorized_def)
      show ?thesis
      proof (cases r3)
        case (Inl e)
        with rest weaken [OF e3] show ?thesis by simp
      next
        case (Inr u)
        obtain r4 w4 where g4: "get_access_token E C ?i w3 = (r4, w4)" by force
        have e4: "mail_effect E ?K T ?i ?rq 1 w w4"
          using mail_effect_trans [OF e3 get_access_token_effect [OF ok3 idp g4]] by simp
        have ok4: "store_ok E ?K T w4" using e4 by (simp add: mail_effect_def)
        show ?thesis
        proof (cases r4)
          case (Inl e)
          with rest Inr g4 weaken [OF e4] show ?thesis by simp
        next
          case (Inr s4)
          with get_access_token_renews(2) [OF ok3 idp g4, of s4] obtain v4 where
            v4: "token_view E ?K w4 ?i = Some v4" "s4 = st_access v4" by blast
          with rest \<open>r3 = Inr u\<close> g4 Inr have "send E m t (st_access v4) body w4 = (r, w')" by simp
          from mail_effect_trans [OF e4 send_effect [OF ok4 v4(1) this]] show ?thesis
            by (simp add: numeral_2_eq_2)
        qed
      qed
    qed
  qed
qed

section \<open>The provider's operations, and the identity resolver, meet their interfaces\<close>

lemma fst_get_json:
  assumes "get_json E C a t w = (r, w')"
  shows "\<exists>r1. send_authorized E C a GET t None w = (r1, w')"
proof -
  obtain r1 w1 where s: "send_authorized E C a GET t None w = (r1, w1)" by force
  with assms have "w1 = w'" by (cases r1) (simp_all add: get_json_def)
  with s show ?thesis by blast
qed

lemma list_messages_effect:
  assumes ok: "store_ok E (encryption_key C) T w" and idp: "idp_ok E T"
    and run: "list_messages E C a limit query w = (r, w')"
  shows "\<exists>url. mail_effect E (encryption_key C) T (acc_id a)
    (request GET \<lparr>tg_url = url, tg_push = [], tg_query = list_query limit query\<rparr> None) 2 w w'"
proof (cases "graph_url E C ''/me/messages''")
  case (Inl e)
  with run have "w' = w" by (simp add: list_messages_def)
  with mail_effect_refl [OF ok] show ?thesis by blast
next
  case (Inr url)
  let ?t = "\<lparr>tg_url = url, tg_push = [], tg_query = list_query limit query\<rparr>"
  obtain r1 w1 where g: "get_json E C a ?t w = (r1, w1)" by force
  with run Inr have "w' = w1" by (cases r1) (simp_all add: list_messages_def)
  with fst_get_json [OF g] send_authorized_effect [OF ok idp] show ?thesis by blast
qed

lemma get_message_effect:
  assumes ok: "store_ok E (encryption_key C) T w" and idp: "idp_ok E T"
    and run: "get_message E C a message_id w = (r, w')"
  shows "\<exists>url. mail_effect E (encryption_key C) T (acc_id a)
    (request GET \<lparr>tg_url = url, tg_push = [message_id], tg_query = []\<rparr> None) 2 w w'"
proof (cases "graph_url E C ''/me/messages/''")
  case (Inl e)
  with run have "w' = w" by (simp add: get_message_def)
  with mail_effect_refl [OF ok] show ?thesis by blast
next
  case (Inr url)
  let ?t = "\<lparr>tg_url = url, tg_push = [message_id], tg_query = []\<rparr>"
  show ?thesis
  proof (cases "url_base url")
    case False
    with run Inr have "w' = w" by (simp add: get_message_def)
    with mail_effect_refl [OF ok] show ?thesis by blast
  next
    case True
    obtain r1 w1 where g: "get_json E C a ?t w = (r1, w1)" by force
    with run Inr True have "w' = w1" by (cases r1) (simp_all add: get_message_def)
    with fst_get_json [OF g] send_authorized_effect [OF ok idp] show ?thesis by blast
  qed
qed

lemma send_message_effect:
  assumes ok: "store_ok E (encryption_key C) T w" and idp: "idp_ok E T"
    and run: "send_message E C a to subject body w = (r, w')"
  shows "\<exists>url. mail_effect E (encryption_key C) T (acc_id a)
    (request POST \<lparr>tg_url = url, tg_push = [], tg_query = []\<rparr> (Some (mail_payload to subject body))) 2 w w'"
proof (cases "graph_url E C ''/me/sendMail''")
  case (Inl e)
  with run have "w' = w" by (simp add: send_message_def)
  with mail_effect_refl [OF ok] show ?thesis by blast
next
  case (Inr url)
  let ?t = "\<lparr>tg_url = url, tg_push = [], tg_query = []\<rparr>"
  obtain r1 w1 where s: "send_authorized E C a POST ?t (Some (mail_payload to subject body)) w = (r1, w1)" by force
  with run Inr have "w' = w1" by (cases r1) (simp_all add: send_message_def Let_def split: if_splits)
  with send_authorized_effect [OF ok idp s] show ?thesis by blast
qed

lemma mail_effect_frame:
  "mail_effect E K T i rq n w w' \<Longrightarrow> store_ok E K T w' \<and> account_rows w' = account_rows w \<and>
     (\<forall>j. j \<noteq> i \<longrightarrow> token_view E K w' j = token_view E K w j)"
  by (simp add: mail_effect_def tokens_only_def account_rows_def)

interpretation graph_mail:
  email_provider "\<lambda>w. store_ok E (encryption_key C) T w \<and> idp_ok E T" account_rows
    "token_view E (encryption_key C)" "list_messages E C" "get_message E C" "send_message E C" for E C T
proof (unfold_locales, goal_cases)
  case (1 w a n q r w')
  then have ok: "store_ok E (encryption_key C) T w" "idp_ok E T" by simp_all
  from list_messages_effect [OF ok 1(2)] mail_effect_frame ok(2) show ?case by blast
next
  case (2 w a i r w')
  then have ok: "store_ok E (encryption_key C) T w" "idp_ok E T" by simp_all
  from get_message_effect [OF ok 2(2)] mail_effect_frame ok(2) show ?case by blast
next
  case (3 w a t s b r w')
  then have ok: "store_ok E (encryption_key C) T w" "idp_ok E T" by simp_all
  from send_message_effect [OF ok 3(2)] mail_effect_frame ok(2) show ?case by blast
qed

lemma send_frame:
  "send E m t token body w = (r, w') \<Longrightarrow>
   db w' = db w \<and> wire w' = wire w @ [ToGraph (request m t body token)]"
  by (auto simp: send_def case_prod_unfold Let_def)

interpretation graph_profile: profile_resolver "graph_resolve E C" for E C
proof (unfold_locales, goal_cases)
  case (1 s w r w')
  show ?case
  proof (cases "graph_url E C ''/me''")
    case (Inl e)
    with 1 show ?thesis by (auto simp: graph_resolve_def fetch_profile_def)
  next
    case (Inr url)
    let ?t = "\<lparr>tg_url = url, tg_push = [], tg_query = []\<rparr>"
    obtain r1 w1 where sd: "send E GET ?t s None w = (r1, w1)" by force
    have "w' = w1"
      using 1 Inr sd
      by (cases r1) (auto simp: graph_resolve_def fetch_profile_def Let_def bindE_def split: sum.splits if_splits)
    with send_frame [OF sd] show ?thesis
      by (intro conjI exI [of _ "[ToGraph (request GET ?t None s)]"]) (simp_all add: request_def)
  qed
qed

section \<open>Decoding\<close>

text \<open>What a message of Graph says, by looking its members up: a member that is missing, null or of another
  type says nothing, and members of other names do not matter.\<close>

fun text_at :: "string \<Rightarrow> json \<Rightarrow> string option" where
  "text_at k j = (case json_get k j of Some (JStr s) \<Rightarrow> Some s | _ \<Rightarrow> None)"

definition address_view :: "json \<Rightarrow> email_address option" where
  "address_view r = Option.bind (json_get ''emailAddress'' r) (\<lambda>e.
     Option.bind (text_at ''address'' e) (\<lambda>a. Some \<lparr>ea_name = text_at ''name'' e, ea_address = a\<rparr>))"

definition message_view :: "json \<Rightarrow> email" where
  "message_view j =
     \<lparr>em_id = (case text_at ''id'' j of Some i \<Rightarrow> i | None \<Rightarrow> []),
      em_subject = text_at ''subject'' j,
      em_from = Option.bind (json_get ''from'' j) address_view,
      em_to = (case json_get ''toRecipients'' j of Some (JArr rs) \<Rightarrow> List.map_filter address_view rs | _ \<Rightarrow> []),
      em_preview = text_at ''bodyPreview'' j,
      em_body = Option.bind (json_get ''body'' j) (text_at ''content''),
      em_received = text_at ''receivedDateTime'' j,
      em_read = (json_get ''isRead'' j = Some (JBool True))\<rparr>"

text \<open>The shape Graph documents: objects with any members besides the known ones, in any order, each known
  one missing, null or of its type; but a message has an id, and its \<open>toRecipients\<close> and \<open>isRead\<close> are
  not null.\<close>

fun object :: "json \<Rightarrow> bool" where
  "object (JObj ms) = distinct (map fst ms)"
| "object _ = False"

definition optional :: "(json \<Rightarrow> bool) \<Rightarrow> string \<Rightarrow> json \<Rightarrow> bool" where
  "optional P k j = (case json_get k j of None \<Rightarrow> True | Some v \<Rightarrow> v = JNull \<or> P v)"

fun is_text :: "json \<Rightarrow> bool" where
  "is_text (JStr _) = True"
| "is_text _ = False"

definition address_shape :: "json \<Rightarrow> bool" where
  "address_shape e = (object e \<and> optional is_text ''name'' e \<and> optional is_text ''address'' e)"

definition recipient_shape :: "json \<Rightarrow> bool" where
  "recipient_shape r = (object r \<and> optional address_shape ''emailAddress'' r)"

definition body_shape :: "json \<Rightarrow> bool" where
  "body_shape b = (object b \<and> optional is_text ''content'' b)"

definition message_shape :: "json \<Rightarrow> bool" where
  "message_shape j =
     (object j \<and> text_at ''id'' j \<noteq> None \<and> optional is_text ''subject'' j \<and> optional recipient_shape ''from'' j \<and>
      (case json_get ''toRecipients'' j of None \<Rightarrow> True | Some (JArr rs) \<Rightarrow> list_all recipient_shape rs | _ \<Rightarrow> False) \<and>
      optional is_text ''bodyPreview'' j \<and> optional body_shape ''body'' j \<and> optional is_text ''receivedDateTime'' j \<and>
      (case json_get ''isRead'' j of None \<Rightarrow> True | Some (JBool _) \<Rightarrow> True | _ \<Rightarrow> False))"

text \<open>What the decoder refuses: no id, or null where it wants a list or a flag.\<close>

definition unreadable :: "json \<Rightarrow> bool" where
  "unreadable j = (object j \<and> (text_at ''id'' j = None \<or> json_get ''toRecipients'' j = Some JNull \<or>
     json_get ''isRead'' j = Some JNull))"

lemma object_members: "object j \<Longrightarrow> members names j = Some (\<lambda>k. json_get k j)"
  by (cases j) simp_all

lemma read_text: "optional is_text k j \<Longrightarrow> opt_member read_string (json_get k j) = Some (text_at k j)"
  by (auto simp: optional_def opt_member_def split: option.split json.splits)

lemma address_shape_reads:
  "address_shape e \<Longrightarrow> read_address e = Some \<lparr>ga_name = text_at ''name'' e, ga_address = text_at ''address'' e\<rparr>"
  by (simp add: address_shape_def read_address_def object_members read_text del: text_at.simps)

lemma json_get_null [simp]: "json_get k JNull = None"
  by simp

lemma recipient_shape_reads:
  assumes "recipient_shape r"
  shows "\<exists>g. read_recipient r = Some g \<and> Option.bind (gr_email g) address_of = address_view r"
proof -
  have r: "object r" "optional address_shape ''emailAddress'' r" using assms by (simp_all add: recipient_shape_def)
  show ?thesis
  proof (cases "json_get ''emailAddress'' r")
    case None
    with r(1) show ?thesis by (simp add: read_recipient_def object_members opt_member_def address_view_def)
  next
    case (Some e)
    show ?thesis
    proof (cases "e = JNull")
      case True
      with r(1) Some show ?thesis by (simp add: read_recipient_def object_members opt_member_def address_view_def)
    next
      case False
      with r(2) Some have "address_shape e" by (simp add: optional_def)
      from address_shape_reads [OF this] r(1) Some False show ?thesis
        by (cases "text_at ''address'' e")
          (simp_all add: read_recipient_def object_members opt_member_def address_view_def address_of_def
            del: text_at.simps)
    qed
  qed
qed

lemma recipients_read:
  "list_all recipient_shape rs \<Longrightarrow>
   \<exists>gs. read_each read_recipient rs = Some gs \<and>
     List.map_filter (\<lambda>g. Option.bind (gr_email g) address_of) gs = List.map_filter address_view rs"
proof (induction rs)
  case (Cons r rs)
  then obtain gs where gs: "read_each read_recipient rs = Some gs"
    "List.map_filter (\<lambda>g. Option.bind (gr_email g) address_of) gs = List.map_filter address_view rs" by auto
  from Cons.prems recipient_shape_reads obtain g where
    "read_recipient r = Some g" "Option.bind (gr_email g) address_of = address_view r" by fastforce
  with gs show ?case by (intro exI [of _ "g # gs"]) (simp add: List.map_filter_def split: option.split)
qed (simp add: List.map_filter_def)

lemma from_reads:
  assumes "optional recipient_shape k j"
  shows "\<exists>g. opt_member read_recipient (json_get k j) = Some g \<and>
    Option.bind (Option.bind g gr_email) address_of = Option.bind (json_get k j) address_view"
proof (cases "json_get k j")
  case None
  then show ?thesis by (simp add: opt_member_def)
next
  case (Some r)
  show ?thesis
  proof (cases "r = JNull")
    case True
    with Some show ?thesis by (simp add: opt_member_def address_view_def)
  next
    case False
    with assms Some have "recipient_shape r" by (simp add: optional_def)
    from recipient_shape_reads [OF this] Some False show ?thesis by (auto simp: opt_member_def)
  qed
qed

lemma body_reads:
  assumes "optional body_shape k j"
  shows "\<exists>g. opt_member read_body (json_get k j) = Some g \<and>
    Option.bind g gb_content = Option.bind (json_get k j) (text_at ''content'')"
proof (cases "json_get k j")
  case None
  then show ?thesis by (simp add: opt_member_def)
next
  case (Some b)
  show ?thesis
  proof (cases "b = JNull")
    case True
    with Some show ?thesis by (simp add: opt_member_def)
  next
    case False
    with assms Some have b: "object b" "optional is_text ''content'' b" by (simp_all add: optional_def body_shape_def)
    then have "read_body b = Some \<lparr>gb_content = text_at ''content'' b\<rparr>"
      by (simp add: read_body_def object_members read_text del: text_at.simps)
    with Some False show ?thesis by (simp add: opt_member_def del: text_at.simps)
  qed
qed

lemma to_reads:
  assumes "case json_get k j of None \<Rightarrow> True | Some (JArr rs) \<Rightarrow> list_all recipient_shape rs | _ \<Rightarrow> False"
  shows "\<exists>gs. default_member [] (read_list read_recipient) (json_get k j) = Some gs \<and>
    List.map_filter (\<lambda>g. Option.bind (gr_email g) address_of) gs =
      (case json_get k j of Some (JArr rs) \<Rightarrow> List.map_filter address_view rs | _ \<Rightarrow> [])"
  using assms recipients_read
  by (cases "json_get k j") (auto simp: default_member_def read_list_def List.map_filter_def split: json.splits)

lemma message_shape_reads:
  assumes "message_shape j"
  shows "graph_message_to_email j = Some (message_view j)"
proof -
  note sh = assms [unfolded message_shape_def]
  obtain i where i: "text_at ''id'' j = Some i" using sh by auto
  then have id: "Option.bind (json_get ''id'' j) read_string = Some i"
    by (auto split: option.splits json.splits)
  have read: "default_member False read_bool (json_get ''isRead'' j) = Some (json_get ''isRead'' j = Some (JBool True))"
    using sh by (auto simp: default_member_def split: option.splits json.splits)
  obtain f where f: "opt_member read_recipient (json_get ''from'' j) = Some f"
    "Option.bind (Option.bind f gr_email) address_of = Option.bind (json_get ''from'' j) address_view"
    using from_reads sh by blast
  obtain g where g: "opt_member read_body (json_get ''body'' j) = Some g"
    "Option.bind g gb_content = Option.bind (json_get ''body'' j) (text_at ''content'')"
    using body_reads sh by blast
  obtain gs where gs: "default_member [] (read_list read_recipient) (json_get ''toRecipients'' j) = Some gs"
    "List.map_filter (\<lambda>g. Option.bind (gr_email g) address_of) gs =
      (case json_get ''toRecipients'' j of Some (JArr rs) \<Rightarrow> List.map_filter address_view rs | _ \<Rightarrow> [])"
    using to_reads sh by blast
  have ms: "\<And>names. members names j = Some (\<lambda>k. json_get k j)" using object_members sh by blast
  have texts: "opt_member read_string (json_get k j) = Some (text_at k j)"
    if "k \<in> {''subject'', ''bodyPreview'', ''receivedDateTime''}" for k
    using that sh read_text by blast
  show ?thesis
    by (simp add: graph_message_to_email_def read_message_def ms id read f g gs texts message_view_def i
        del: text_at.simps Option.bind_assoc)
qed

lemma unreadable_reads:
  assumes "unreadable j"
  shows "graph_message_to_email j = None" and "\<not> message_shape j"
proof -
  have ms: "\<And>names. members names j = Some (\<lambda>k. json_get k j)"
    using object_members assms unfolding unreadable_def by blast
  consider "text_at ''id'' j = None" | "json_get ''toRecipients'' j = Some JNull" | "json_get ''isRead'' j = Some JNull"
    using assms by (auto simp: unreadable_def)
  then have "read_message j = None"
  proof cases
    case 1
    then have "Option.bind (json_get ''id'' j) read_string = None" by (auto split: option.splits json.splits)
    then show ?thesis by (simp add: read_message_def ms del: Option.bind_assoc)
  next
    case 2
    then show ?thesis by (simp add: read_message_def ms default_member_def read_list_def bind_eq_None_conv)
  next
    case 3
    then show ?thesis by (simp add: read_message_def ms default_member_def bind_eq_None_conv)
  qed
  then show "graph_message_to_email j = None" by (simp add: graph_message_to_email_def)
  show "\<not> message_shape j" using assms by (auto simp: unreadable_def message_shape_def simp del: text_at.simps)
qed

text \<open>A page of them.\<close>

lemma page_reads:
  assumes "map_of ps ''value'' = Some (JArr vs)" and "\<forall>v \<in> set vs. message_shape v \<or> unreadable v"
  shows "messages_of (JObj ps) = map message_view (filter message_shape vs)"
proof -
  have "List.map_filter graph_message_to_email vs = map message_view (filter message_shape vs)"
    using assms(2)
    by (induction vs) (auto simp: List.map_filter_def message_shape_reads unreadable_reads)
  with assms(1) show ?thesis by (simp add: messages_of_def)
qed

text \<open>What Graph's own documents allow and this decoder refuses: a null list of recipients.\<close>

lemma null_recipients_dropped:
  "graph_message_to_email (JObj [(''id'', JStr i), (''toRecipients'', JNull)]) = None"
  "graph_message_to_email (JObj [(''id'', JStr i), (''isRead'', JNull)]) = None"
  by (simp_all add: graph_message_to_email_def read_message_def default_member_def read_list_def opt_member_def)

text \<open>The search expression cannot leave its quotes, and searching excludes ordering.\<close>

lemma list_query_search:
  assumes "trim qs \<noteq> []"
  shows "map_of (list_query limit (Some qs)) ''$search'' =
      Some ([CHR 0x22] @ replace_char (CHR 0x22) [] qs @ [CHR 0x22])"
    and "CHR 0x22 \<notin> set (replace_char (CHR 0x22) [] qs)"
    and "map_of (list_query limit (Some qs)) ''$orderby'' = None"
  using assms by (auto simp: list_query_def replace_char_def)

lemma list_query_default:
  assumes "query = None \<or> (\<exists>qs. query = Some qs \<and> trim qs = [])"
  shows "map_of (list_query limit query) ''$orderby'' = Some ''receivedDateTime desc''"
    and "map_of (list_query limit query) ''$search'' = None"
  using assms by (auto simp: list_query_def)

lemma list_query_top: "map_of (list_query limit query) ''$top'' = Some (show_nat limit)"
  by (simp add: list_query_def)

text \<open>An error text is Graph's message or at most 300 characters.\<close>

lemma graph_error_message_cases:
  "(\<exists>j. json_of_text E body = Inr j \<and>
      Option.bind (Option.bind (json_get ''error'' j) (json_get ''message'')) as_str = Some (graph_error_message E body)) \<or>
   (count_chars (graph_error_message E body) \<le> 300 \<and> (\<exists>rest. body = graph_error_message E body @ rest))"
  by (auto simp: graph_error_message_def take_chars_count take_chars_prefix split: sum.splits option.splits)

end
