(* ===== verification/Api.thy ===== *)
theory Api
  imports Graph
begin

text \<open>
  \<open>src/api\<close>: the REST surface. \<open>serve_request\<close> is the router of \<open>src/api/mod.rs\<close>, with the
  handlers of \<open>routes.rs\<close> behind the key check of \<open>auth.rs\<close>; \<open>build_state\<close> is \<open>AppState::build\<close>.
  What axum does with a request before a handler runs is \<open>web\<close>: text of header values, parsing of
  the query string and of the body (with the response it rejects them with), and the answer to a
  path or method without a route. The handlers call the Graph provider, which \<open>AppState\<close> wires in.
\<close>

section \<open>Requests and responses\<close>

record api_request =
  hq_method :: string
  hq_path :: "string list"                \<comment> \<open>the decoded segments\<close>
  hq_headers :: "(string \<times> string) list" \<comment> \<open>names in lower case\<close>
  hq_query :: string
  hq_body :: string

datatype api_body = JsonBody json | EmptyBody | OtherBody string

record api_response =
  rp_status :: nat
  rp_body :: api_body

record email_query =
  eq_limit :: "nat option"
  eq_query :: "string option"

record web =
  wb_header_text :: "string \<Rightarrow> string option"                 \<comment> \<open>HeaderValue::to_str\<close>
  wb_email_query :: "string \<Rightarrow> api_response + email_query"    \<comment> \<open>Query<EmailQuery>\<close>
  wb_limit_query :: "string \<Rightarrow> api_response + nat option"     \<comment> \<open>Query<LimitQuery>\<close>
  wb_send_body :: "api_request \<Rightarrow> api_response + send_mail_request" \<comment> \<open>Json<SendMailRequest>\<close>
  wb_fallback :: "api_request \<Rightarrow> api_response"                \<comment> \<open>404 and 405\<close>

text \<open>The derived \<open>Serialize\<close> of the models.\<close>

definition nullable :: "string option \<Rightarrow> json" where
  "nullable m = (case m of None \<Rightarrow> JNull | Some s \<Rightarrow> JStr s)"

definition account_json :: "account \<Rightarrow> json" where
  "account_json a = JObj [(''id'', JStr (acc_id a)), (''tenant_id'', JStr (acc_tenant a)),
     (''email_address'', JStr (acc_email a)), (''display_name'', nullable (acc_name a)),
     (''provider'', JStr (acc_provider a)), (''status'', JStr (status_str (acc_status a))),
     (''created_at'', JStr (acc_created a)), (''updated_at'', JStr (acc_updated a))]"

definition address_json :: "email_address \<Rightarrow> json" where
  "address_json a = JObj [(''name'', nullable (ea_name a)), (''address'', JStr (ea_address a))]"

definition email_members :: "email \<Rightarrow> (string \<times> json) list" where
  "email_members m = [(''id'', JStr (em_id m)), (''subject'', nullable (em_subject m)),
     (''from'', case em_from m of None \<Rightarrow> JNull | Some a \<Rightarrow> address_json a),
     (''to'', JArr (map address_json (em_to m))), (''body_preview'', nullable (em_preview m)),
     (''body'', nullable (em_body m)), (''received_at'', nullable (em_received m)),
     (''is_read'', JBool (em_read m))]"

definition summary_json :: "account_summary \<Rightarrow> json" where
  "summary_json s = JObj [(''id'', JStr (as_id s)), (''email'', JStr (as_email s))]"

definition mail_json :: "email \<Rightarrow> json" where
  "mail_json m = JObj (email_members m)"

definition unified_json :: "unified_email \<Rightarrow> json" where
  "unified_json u = JObj (email_members (ue_email u) @ [(''account'', summary_json (ue_account u))])"

section \<open>The key check\<close>

definition header :: "web \<Rightarrow> api_request \<Rightarrow> string \<Rightarrow> string option" where
  "header X q name = Option.bind (map_of (hq_headers q) name) (wb_header_text X)"

definition extract_api_key :: "web \<Rightarrow> api_request \<Rightarrow> string option" where
  "extract_api_key X q =
     (case Option.bind (header X q ''authorization'') (strip_prefix ''Bearer '') of
        Some key \<Rightarrow> Some (trim key)
      | None \<Rightarrow> map_option trim (header X q ''x-api-key''))"

definition resolve_tenant :: "config \<Rightarrow> string option \<Rightarrow> string option" where
  "resolve_tenant C key =
     (if api_keys C = [] then Some (default_tenant_id C)
      else (case key of
              None \<Rightarrow> None
            | Some k \<Rightarrow>
                (case map_of (api_keys C) k of
                   Some tenant \<Rightarrow> Some (if tenant = [] then default_tenant_id C else tenant)
                 | None \<Rightarrow> None)))"

definition error_json :: "string \<Rightarrow> json" where
  "error_json message = JObj [(''error'', JStr message)]"

definition unauthorized :: api_response where
  "unauthorized = \<lparr>rp_status = 401, rp_body = JsonBody (error_json ''invalid or missing API key'')\<rparr>"

definition api_key_middleware ::
    "web \<Rightarrow> config \<Rightarrow> api_request \<Rightarrow> (string \<Rightarrow> world \<Rightarrow> (api_response \<times> world) option) \<Rightarrow> world \<Rightarrow>
     (api_response \<times> world) option" where
  "api_key_middleware X C q next_handler w =
     (case resolve_tenant C (extract_api_key X q) of
        Some tenant \<Rightarrow> next_handler tenant w
      | None \<Rightarrow> Some (unauthorized, w))"

section \<open>Handlers\<close>

definition DEFAULT_LIMIT :: nat where
  "DEFAULT_LIMIT = 20"

definition MAX_LIMIT :: nat where
  "MAX_LIMIT = 200"

definition page_limit :: "nat option \<Rightarrow> nat" where
  "page_limit limit = min (case limit of None \<Rightarrow> DEFAULT_LIMIT | Some n \<Rightarrow> n) MAX_LIMIT"

definition list_accounts :: "string \<Rightarrow> world \<Rightarrow> account list result \<times> world" where
  "list_accounts tenant w = account_list tenant w"

text \<open>\<open>None\<close> is the panic of \<open>FlowStore::insert\<close>.\<close>

definition connect_account :: "env \<Rightarrow> config \<Rightarrow> string \<Rightarrow> world \<Rightarrow> (json result \<times> world) option" where
  "connect_account E C tenant w =
     (case begin_flow E C tenant w of
        None \<Rightarrow> None
      | Some (r, w) \<Rightarrow>
          Some (bindE (r, w) (\<lambda>url w. (Inr (JObj [(''auth_url'', JStr (url_text url))]), w))))"

definition disconnect_account :: "env \<Rightarrow> string \<Rightarrow> string \<Rightarrow> world \<Rightarrow> unit result \<times> world" where
  "disconnect_account E tenant i w =
     bindE (account_get tenant i w) (\<lambda>a w. disconnect E a w)"

definition list_emails ::
    "env \<Rightarrow> config \<Rightarrow> string \<Rightarrow> string \<Rightarrow> email_query \<Rightarrow> world \<Rightarrow> email list result \<times> world" where
  "list_emails E C tenant i query w =
     bindE (account_get tenant i w) (\<lambda>a w.
       list_messages E C a (page_limit (eq_limit query)) (eq_query query) w)"

definition get_email ::
    "env \<Rightarrow> config \<Rightarrow> string \<Rightarrow> string \<Rightarrow> string \<Rightarrow> world \<Rightarrow> email result \<times> world" where
  "get_email E C tenant i message_id w =
     bindE (account_get tenant i w) (\<lambda>a w. get_message E C a message_id w)"

definition send_email ::
    "env \<Rightarrow> config \<Rightarrow> string \<Rightarrow> string \<Rightarrow> send_mail_request \<Rightarrow> world \<Rightarrow> unit result \<times> world" where
  "send_email E C tenant i body w =
     bindE (account_get tenant i w) (\<lambda>a w.
       send_message E C a (sm_to body) (sm_subject body) (sm_body body) w)"

definition unified_inbox ::
    "env \<Rightarrow> config \<Rightarrow> string \<Rightarrow> nat option \<Rightarrow> world \<Rightarrow> unified_email list result \<times> world" where
  "unified_inbox E C tenant limit w =
     bindE (account_list tenant w) (\<lambda>accs w.
       aggregate_unified_inbox E (list_messages E C) accs (page_limit limit) w)"

section \<open>The router\<close>

datatype endpoint =
    ListAccounts
  | ConnectAccount
  | DisconnectAccount string
  | ListEmails string
  | GetEmail string string
  | SendEmail string
  | UnifiedInbox

text \<open>The route of a path: its method and its handler.\<close>

definition protected_path :: "string list \<Rightarrow> (string \<times> endpoint) option" where
  "protected_path path =
     (case path of
        [a] \<Rightarrow> if a = ''accounts'' then Some (''GET'', ListAccounts) else None
      | [a, b] \<Rightarrow>
          if a = ''accounts'' \<and> b = ''connect'' then Some (''POST'', ConnectAccount)
          else if a = ''accounts'' \<and> b \<noteq> '''' then Some (''DELETE'', DisconnectAccount b)
          else if a = ''unified'' \<and> b = ''inbox'' then Some (''GET'', UnifiedInbox)
          else None
      | [a, i, b] \<Rightarrow>
          if a = ''accounts'' \<and> i \<noteq> '''' \<and> b = ''emails'' then Some (''GET'', ListEmails i)
          else if a = ''accounts'' \<and> i \<noteq> '''' \<and> b = ''send'' then Some (''POST'', SendEmail i)
          else None
      | [a, i, b, m] \<Rightarrow>
          if a = ''accounts'' \<and> i \<noteq> '''' \<and> b = ''emails'' \<and> m \<noteq> ''''
          then Some (''GET'', GetEmail i m) else None
      | _ \<Rightarrow> None)"

text \<open>A \<open>get\<close> route takes HEAD requests as well, and answers them without the body.\<close>

definition verb_matches :: "string \<Rightarrow> string \<Rightarrow> bool" where
  "verb_matches verb allowed \<longleftrightarrow> verb = allowed \<or> (allowed = ''GET'' \<and> verb = ''HEAD'')"

definition head_reply :: "api_request \<Rightarrow> api_response \<Rightarrow> api_response" where
  "head_reply q r = (if hq_method q = ''HEAD'' then r\<lparr>rp_body := EmptyBody\<rparr> else r)"

text \<open>\<open>IntoResponse\<close> of a handler's result.\<close>

definition error_reply :: "app_error \<Rightarrow> api_response" where
  "error_reply e = (let (status, message) = into_response e
                    in \<lparr>rp_status = status, rp_body = JsonBody (error_json message)\<rparr>)"

definition json_ok :: "json \<Rightarrow> api_response" where
  "json_ok j = \<lparr>rp_status = 200, rp_body = JsonBody j\<rparr>"

definition status_only :: "nat \<Rightarrow> api_response" where
  "status_only s = \<lparr>rp_status = s, rp_body = EmptyBody\<rparr>"

definition respond :: "('a \<Rightarrow> api_response) \<Rightarrow> 'a result \<times> world \<Rightarrow> api_response \<times> world" where
  "respond f rw = (case rw of (Inl e, w) \<Rightarrow> (error_reply e, w) | (Inr a, w) \<Rightarrow> (f a, w))"

text \<open>An extractor that rejects the request answers in the handler's place.\<close>

definition extracted ::
    "api_response + 'q \<Rightarrow> ('q \<Rightarrow> world \<Rightarrow> api_response \<times> world) \<Rightarrow> world \<Rightarrow> api_response \<times> world" where
  "extracted x handler w = (case x of Inl rejection \<Rightarrow> (rejection, w) | Inr q \<Rightarrow> handler q w)"

fun run_endpoint ::
    "web \<Rightarrow> env \<Rightarrow> config \<Rightarrow> api_request \<Rightarrow> endpoint \<Rightarrow> string \<Rightarrow> world \<Rightarrow> (api_response \<times> world) option" where
  "run_endpoint X E C q ListAccounts tenant w =
     Some (respond (\<lambda>accs. json_ok (JArr (map account_json accs))) (list_accounts tenant w))"
| "run_endpoint X E C q ConnectAccount tenant w =
     map_option (respond json_ok) (connect_account E C tenant w)"
| "run_endpoint X E C q (DisconnectAccount i) tenant w =
     Some (respond (\<lambda>_. status_only 204) (disconnect_account E tenant i w))"
| "run_endpoint X E C q (ListEmails i) tenant w =
     Some (extracted (wb_email_query X (hq_query q)) (\<lambda>query w.
       respond (\<lambda>ms. json_ok (JArr (map mail_json ms))) (list_emails E C tenant i query w)) w)"
| "run_endpoint X E C q (GetEmail i m) tenant w =
     Some (respond (\<lambda>e. json_ok (mail_json e)) (get_email E C tenant i m w))"
| "run_endpoint X E C q (SendEmail i) tenant w =
     Some (extracted (wb_send_body X q) (\<lambda>body w.
       respond (\<lambda>_. status_only 202) (send_email E C tenant i body w)) w)"
| "run_endpoint X E C q UnifiedInbox tenant w =
     Some (extracted (wb_limit_query X (hq_query q)) (\<lambda>limit w.
       respond (\<lambda>us. json_ok (JArr (map unified_json us))) (unified_inbox E C tenant limit w)) w)"

definition health :: api_response where
  "health = json_ok (JObj [(''status'', JStr ''ok'')])"

text \<open>The key check also stands before the 405 of a protected path; a path without a route is outside it.\<close>

definition serve_request :: "web \<Rightarrow> env \<Rightarrow> config \<Rightarrow> api_request \<Rightarrow> world \<Rightarrow> (api_response \<times> world) option" where
  "serve_request X E C q w = map_option (apfst (head_reply q))
     (if hq_path q = [''health'']
      then Some (if verb_matches (hq_method q) ''GET'' then health else wb_fallback X q, w)
      else case protected_path (hq_path q) of
        None \<Rightarrow> Some (wb_fallback X q, w)
      | Some (allowed, ep) \<Rightarrow>
          api_key_middleware X C q (\<lambda>tenant w.
            if verb_matches (hq_method q) allowed then run_endpoint X E C q ep tenant w
            else Some (wb_fallback X q, w)) w)"

text \<open>\<open>AppState::build\<close>: \<open>http\<close> is the outcome of building the HTTP client, \<open>file\<close> and \<open>schedule\<close>
  the database file and what the engine will do.\<close>

definition build_http_client :: "string option \<Rightarrow> unit result" where
  "build_http_client http =
     (case http of
        Some e \<Rightarrow> Inl (Internal (''could not build HTTP client: '' @ e))
      | None \<Rightarrow> Inr ())"

definition build_state ::
    "string option \<Rightarrow> tables option \<Rightarrow> string option list \<Rightarrow> nat \<Rightarrow> world result" where
  "build_state http file schedule n =
     (case build_http_client http of
        Inl e \<Rightarrow> Inl e
      | Inr _ \<Rightarrow>
          (case open_db file schedule of
             Inl e \<Rightarrow> Inl e
           | Inr d \<Rightarrow> Inr \<lparr>db = d, tick = n, wire = [], refresh_locks = []\<rparr>))"

section \<open>Who is asking\<close>

lemma resolve_tenant_rendered:
  assumes keys: "api_keys C = parse_api_keys (join '','' (map render_entry es))"
    and es: "es \<noteq> []" "\<forall>e \<in> set es. clean_entry e" "distinct (map fst es)"
  shows "(\<forall>(k, m) \<in> set es. resolve_tenant C (Some k) =
      Some (case m of Some t \<Rightarrow> if t = [] then default_tenant_id C else t | None \<Rightarrow> default_tenant_id C)) \<and>
    (\<forall>k. k \<notin> fst ` set es \<longrightarrow> resolve_tenant C (Some k) = None) \<and> resolve_tenant C None = None"
proof -
  have look: "map_of (api_keys C) = map_of (map entry_value es)"
    unfolding keys by (rule parse_rendered_api_keys [OF es])
  have d: "distinct (map fst (map entry_value es))" using es(3) by (simp add: entry_value_def comp_def)
  from es(1) look have ne: "api_keys C \<noteq> []" by (cases es) (auto simp: fun_eq_iff entry_value_def split: if_splits)
  have "map_of (api_keys C) k = Some (snd (entry_value (k, m)))" if "(k, m) \<in> set es" for k m
    unfolding look using that by (intro map_of_is_SomeI [OF d]) (force simp: entry_value_def)
  moreover have "map_of (api_keys C) k = None" if "k \<notin> fst ` set es" for k
    unfolding look map_of_eq_None_iff using that by (force simp: entry_value_def)
  ultimately show ?thesis using ne by (auto simp: resolve_tenant_def entry_value_def split: option.splits)
qed

end
