(* ===== verification/Tenancy.thy ===== *)
theory Tenancy
  imports Api
begin

text \<open>
  Tenants: what a request made for one tenant can do. \<open>acts_for\<close> says that no account or token of
  another tenant changed, that of its pending flows only expired ones may be gone, and that every
  request to Graph or to the identity provider carried a token of one of the tenant's accounts.
  The locale \<open>effect_order\<close> is what it takes to compose such statements along a handler; \<open>acts_for\<close>
  is an instance, and every operation the REST, MCP and CLI surfaces run for a tenant satisfies it.
\<close>

section \<open>Composing effects\<close>

locale effect_order =
  fixes ok :: "'w \<Rightarrow> bool"
    and eff :: "'w \<Rightarrow> 'w \<Rightarrow> bool"
  assumes refl_law: "ok w \<Longrightarrow> eff w w"
    and ok_law: "eff w w' \<Longrightarrow> ok w'"
    and trans_law: "eff w w1 \<Longrightarrow> eff w1 w2 \<Longrightarrow> eff w w2"
begin

lemma bind_effect:
  assumes "eff w (snd r)" and "\<And>a. fst r = Inr a \<Longrightarrow> ok (snd r) \<Longrightarrow> eff (snd r) (snd (k a (snd r)))"
  shows "eff w (snd (bindE r k))"
proof (cases "fst r")
  case (Inl e)
  then have "r = (Inl e, snd r)" by (metis prod.collapse)
  with assms(1) show ?thesis by (metis bindE_Inl snd_conv)
next
  case (Inr a)
  then have "r = (Inr a, snd r)" by (metis prod.collapse)
  then have "bindE r k = k a (snd r)" by (metis bindE_Inr)
  with trans_law [OF assms(1) assms(2) [OF Inr ok_law [OF assms(1)]]] show ?thesis by simp
qed

lemma step_effect:
  assumes "eff w w1" and "ok w1 \<Longrightarrow> eff w1 w2"
  shows "eff w w2"
  using trans_law [OF assms(1) assms(2) [OF ok_law [OF assms(1)]]] .

lemma fetch_all_effect:
  assumes "\<And>a v. a \<in> set accs \<Longrightarrow> eff w v \<Longrightarrow> eff v (snd (lm a limit None v))" and "eff w v"
  shows "eff w (snd (fetch_all lm limit accs v))"
  using assms
proof (induction accs arbitrary: v)
  case (Cons a accs)
  have "eff w (snd (lm a limit None v))"
    by (rule trans_law [OF Cons.prems(2)]) (use Cons.prems in simp)
  from Cons.IH [OF _ this] Cons.prems(1) show ?case by (simp add: case_prod_unfold Let_def)
qed simp

end

section \<open>Acting for one tenant\<close>

definition tenant_ids :: "string \<Rightarrow> world \<Rightarrow> string set" where
  "tenant_ids t w = acc_id ` {a \<in> set (account_rows w). acc_tenant a = t}"

definition row_keys :: "world \<Rightarrow> (string \<times> string) list" where
  "row_keys w = map (\<lambda>a. (acc_id a, acc_tenant a)) (account_rows w)"

definition others :: "string \<Rightarrow> world \<Rightarrow> account list" where
  "others t w = filter (\<lambda>a. acc_tenant a \<noteq> t) (account_rows w)"

text \<open>A token afterwards is one of before, or renewed from it.\<close>

definition tokens_from :: "env \<Rightarrow> bytes \<Rightarrow> world \<Rightarrow> world \<Rightarrow> bool" where
  "tokens_from E K w w' \<longleftrightarrow>
     (\<forall>i v. token_view E K w' i = Some v \<longrightarrow> (\<exists>u. token_view E K w i = Some u \<and> renewal E u v))"

text \<open>The pending flows of the other tenants. None is added or altered; one that is gone had expired at
  a reading of the clock that was made on the way.\<close>

definition others_flows :: "string \<Rightarrow> world \<Rightarrow> flow_row list" where
  "others_flows t w = filter (\<lambda>f. fr_tenant f \<noteq> t) (oauth_flows (db w))"

definition only_expire :: "env \<Rightarrow> string \<Rightarrow> world \<Rightarrow> world \<Rightarrow> bool" where
  "only_expire E t w w' \<longleftrightarrow> tick w \<le> tick w' \<and>
     (\<exists>kept. others_flows t w' = filter kept (others_flows t w) \<and>
        (\<forall>f \<in> set (others_flows t w). kept f \<or>
           (\<exists>n. tick w \<le> n \<and> n < tick w' \<and> \<not> unexpired (unix_time E n) f)))"

definition acts_for :: "env \<Rightarrow> bytes \<Rightarrow> (int \<Rightarrow> bool) \<Rightarrow> string \<Rightarrow> world \<Rightarrow> world \<Rightarrow> bool" where
  "acts_for E K T t w w' \<longleftrightarrow>
     store_ok E K T w' \<and> row_keys w' = row_keys w \<and> others t w' = others t w \<and>
     (\<forall>i. i \<notin> tenant_ids t w \<longrightarrow> token_view E K w' i = token_view E K w i) \<and>
     tokens_from E K w w' \<and> only_expire E t w w' \<and>
     (\<exists>es. wire w' = wire w @ es \<and>
        (\<forall>q \<in> set (graph_sent es). \<exists>i \<in> tenant_ids t w. \<exists>u v.
           token_view E K w i = Some u \<and> renewal E u v \<and> rq_bearer q = st_access v) \<and>
        (\<forall>r \<in> set (idp_sent es). \<exists>i \<in> tenant_ids t w. renewal_request E (token_view E K w) i r))"

lemma only_expire_same:
  "oauth_flows (db w') = oauth_flows (db w) \<Longrightarrow> tick w \<le> tick w' \<Longrightarrow> only_expire E t w w'"
  by (auto simp: only_expire_def others_flows_def intro!: exI [of _ "\<lambda>_. True"])

lemma only_expire_trans:
  assumes "only_expire E t w w1" and "only_expire E t w1 w2"
  shows "only_expire E t w w2"
proof -
  obtain k1 k2 where k1: "others_flows t w1 = filter k1 (others_flows t w)"
    and g1: "\<forall>f \<in> set (others_flows t w). k1 f \<or> (\<exists>n. tick w \<le> n \<and> n < tick w1 \<and> \<not> unexpired (unix_time E n) f)"
    and k2: "others_flows t w2 = filter k2 (others_flows t w1)"
    and g2: "\<forall>f \<in> set (others_flows t w1). k2 f \<or> (\<exists>n. tick w1 \<le> n \<and> n < tick w2 \<and> \<not> unexpired (unix_time E n) f)"
    using assms unfolding only_expire_def by blast
  have le: "tick w \<le> tick w1" "tick w1 \<le> tick w2" using assms by (simp_all add: only_expire_def)
  have "others_flows t w2 = filter (\<lambda>f. k1 f \<and> k2 f) (others_flows t w)" using k1 k2 by (simp add: conj_commute)
  moreover have "(k1 f \<and> k2 f) \<or> (\<exists>n. tick w \<le> n \<and> n < tick w2 \<and> \<not> unexpired (unix_time E n) f)"
    if f: "f \<in> set (others_flows t w)" for f
  proof (cases "k1 f")
    case False
    with g1 f obtain n where "tick w \<le> n" "n < tick w1" "\<not> unexpired (unix_time E n) f" by blast
    with le(2) show ?thesis by (blast intro: less_le_trans)
  next
    case True
    with f k1 have "f \<in> set (others_flows t w1)" by simp
    with g2 True le(1) show ?thesis by (blast intro: le_trans)
  qed
  ultimately show ?thesis using le by (auto simp: only_expire_def)
qed

lemma tenant_ids_keys: "tenant_ids t w = {i. (i, t) \<in> set (row_keys w)}"
  by (auto simp: tenant_ids_def row_keys_def image_iff)

lemma acts_for_refl: "store_ok E K T w \<Longrightarrow> acts_for E K T t w w"
  by (auto simp: acts_for_def tokens_from_def only_expire_same intro: renewal.refl)

lemma acts_for_trans:
  assumes a: "acts_for E K T t w w1" and b: "acts_for E K T t w1 w2"
  shows "acts_for E K T t w w2"
proof -
  obtain es fs where es: "wire w1 = wire w @ es" "wire w2 = wire w1 @ fs"
    and ea: "\<forall>q \<in> set (graph_sent es). \<exists>i \<in> tenant_ids t w. \<exists>u v.
        token_view E K w i = Some u \<and> renewal E u v \<and> rq_bearer q = st_access v"
    and ia: "\<forall>r \<in> set (idp_sent es). \<exists>i \<in> tenant_ids t w. renewal_request E (token_view E K w) i r"
    and eb: "\<forall>q \<in> set (graph_sent fs). \<exists>i \<in> tenant_ids t w1. \<exists>u v.
        token_view E K w1 i = Some u \<and> renewal E u v \<and> rq_bearer q = st_access v"
    and ib: "\<forall>r \<in> set (idp_sent fs). \<exists>i \<in> tenant_ids t w1. renewal_request E (token_view E K w1) i r"
    using a b by (auto simp: acts_for_def)
  have ids: "tenant_ids t w1 = tenant_ids t w" using a by (simp add: acts_for_def tenant_ids_keys)
  have fa: "tokens_from E K w w1" and fb: "tokens_from E K w1 w2" using a b by (simp_all add: acts_for_def)
  have fab: "tokens_from E K w w2"
    using fa fb renewal_trans unfolding tokens_from_def by meson
  have chain: "\<exists>u0. token_view E K w i = Some u0 \<and> renewal E u0 v"
    if "token_view E K w1 i = Some u" "renewal E u v" for i u v
    using fa that renewal_trans unfolding tokens_from_def by metis
  have "\<forall>q \<in> set (graph_sent fs). \<exists>i \<in> tenant_ids t w. \<exists>u v.
      token_view E K w i = Some u \<and> renewal E u v \<and> rq_bearer q = st_access v"
    using eb chain unfolding ids by blast
  with ea have sent: "\<forall>q \<in> set (graph_sent (es @ fs)). \<exists>i \<in> tenant_ids t w. \<exists>u v.
      token_view E K w i = Some u \<and> renewal E u v \<and> rq_bearer q = st_access v" by auto
  have "\<forall>r \<in> set (idp_sent fs). \<exists>i \<in> tenant_ids t w. renewal_request E (token_view E K w) i r"
    using ib chain unfolding ids renewal_request_def by blast
  with ia have asks: "\<forall>r \<in> set (idp_sent (es @ fs)). \<exists>i \<in> tenant_ids t w. renewal_request E (token_view E K w) i r"
    by auto
  have wire: "wire w2 = wire w @ es @ fs" using es by simp
  have rest: "store_ok E K T w2" "row_keys w2 = row_keys w" "others t w2 = others t w"
    "\<forall>i. i \<notin> tenant_ids t w \<longrightarrow> token_view E K w2 i = token_view E K w i"
    "only_expire E t w w2"
    using a b ids only_expire_trans by (simp_all add: acts_for_def) blast
  show ?thesis unfolding acts_for_def using rest fab wire sent asks by blast
qed

interpretation acting: effect_order "store_ok E K T" "acts_for E K T t" for E K T t
proof (unfold_locales, goal_cases)
  case (2 w w')
  then show ?case by (simp add: acts_for_def)
qed (fact acts_for_refl acts_for_trans)+

text \<open>Reading accounts, and anything that leaves the tables alone.\<close>

lemma acts_for_quiet:
  assumes ok: "store_ok E K T w" and same: "accounts (db w') = accounts (db w)" "tokens (db w') = tokens (db w)"
    and flows: "only_expire E t w w'" and wf: "wf_db (db w')" and wire: "wire w' = wire w"
  shows "acts_for E K T t w w'"
proof -
  have "store_ok E K T w'" using ok same wf by (simp add: store_ok_def tokens_ok_def)
  moreover have "token_view E K w' = token_view E K w" by (rule token_view_cong) (rule same)
  ultimately show ?thesis using same wire flows
    by (auto simp: acts_for_def row_keys_def others_def account_rows_def tokens_from_def intro: renewal.refl)
qed

lemma acts_for_same:
  assumes "store_ok E K T w" and "same_tables (db w) (db w')" and "wf_db (db w')"
    and "wire w' = wire w" and "tick w' = tick w"
  shows "acts_for E K T t w w'"
  by (rule acts_for_quiet [OF assms(1) _ _ only_expire_same assms(3,4)])
    (use assms(2,5) in \<open>simp_all add: same_tables_def\<close>)

lemma acts_for_account_get: "store_ok E K T w \<Longrightarrow> acts_for E K T t w (snd (account_get s i w))"
  using account_get_result [of s i w "fst (account_get s i w)" "snd (account_get s i w)"]
  by (intro acts_for_same) (auto simp: store_ok_def intro: wf_account_reads)

lemma acts_for_by_email: "store_ok E K T w \<Longrightarrow> acts_for E K T t w (snd (account_get_by_email s i w))"
  using account_get_by_email_result [of s i w "fst (account_get_by_email s i w)" "snd (account_get_by_email s i w)"]
  by (intro acts_for_same) (auto simp: store_ok_def intro: wf_account_reads)

lemma acts_for_account_list: "store_ok E K T w \<Longrightarrow> acts_for E K T t w (snd (account_list s w))"
  using account_list_result [of s w "fst (account_list s w)" "snd (account_list s w)"]
  by (intro acts_for_same) (auto simp: store_ok_def intro: wf_account_reads)

text \<open>Operations of the mail provider on an account of the tenant.\<close>

lemma acts_for_mail:
  assumes eff: "mail_effect E K T (acc_id a) rq n w w'" and a: "acc_id a \<in> tenant_ids t w"
    and bearer: "\<And>s. rq_bearer (rq s) = s"
  shows "acts_for E K T t w w'"
proof -
  from eff have ok: "store_ok E K T w'" and rows: "account_rows w' = account_rows w"
    and other: "\<forall>j. j \<noteq> acc_id a \<longrightarrow> token_view E K w' j = token_view E K w j"
    and ren: "renews E K (acc_id a) w w'"
    and sent: "\<exists>es. wire w' = wire w @ es \<and> (\<forall>q \<in> set (graph_sent es). \<exists>u v.
        token_view E K w (acc_id a) = Some u \<and> renewal E u v \<and> q = rq (st_access v)) \<and>
        (\<forall>r \<in> set (idp_sent es). renewal_request E (token_view E K w) (acc_id a) r)"
    and flows: "only_expire E t w w'"
    by (auto simp: mail_effect_def tokens_only_def account_rows_def intro: only_expire_same)
  have "tokens_from E K w w'"
    unfolding tokens_from_def
  proof (intro allI impI)
    fix i v assume v: "token_view E K w' i = Some v"
    show "\<exists>u. token_view E K w i = Some u \<and> renewal E u v"
    proof (cases "i = acc_id a")
      case True
      with ren v show ?thesis by (auto simp: renews_def split: option.splits)
    next
      case False
      with other v renewal.refl show ?thesis by metis
    qed
  qed
  moreover have "\<forall>i. i \<notin> tenant_ids t w \<longrightarrow> token_view E K w' i = token_view E K w i" using other a by metis
  moreover obtain es where es: "wire w' = wire w @ es"
    "\<forall>q \<in> set (graph_sent es). \<exists>u v. token_view E K w (acc_id a) = Some u \<and> renewal E u v \<and> q = rq (st_access v)"
    "\<forall>r \<in> set (idp_sent es). renewal_request E (token_view E K w) (acc_id a) r"
    using sent by blast
  have "\<forall>r \<in> set (idp_sent es). \<exists>i \<in> tenant_ids t w. renewal_request E (token_view E K w) i r"
    using es(3) a by blast
  moreover from es(2) bearer a have "\<forall>q \<in> set (graph_sent es). \<exists>i \<in> tenant_ids t w. \<exists>u v.
        token_view E K w i = Some u \<and> renewal E u v \<and> rq_bearer q = st_access v" by fastforce
  ultimately show ?thesis using ok rows flows es(1) by (simp add: acts_for_def row_keys_def others_def)
qed

lemma request_bearer: "rq_bearer (request m t body s) = s"
  by (simp add: request_def)

lemma acts_for_list_messages:
  "store_ok E (encryption_key C) T w \<Longrightarrow> idp_ok E T \<Longrightarrow> acc_id a \<in> tenant_ids t w \<Longrightarrow>
   acts_for E (encryption_key C) T t w (snd (list_messages E C a n qry w))"
  using list_messages_effect [of E C T w a n qry "fst (list_messages E C a n qry w)"] acts_for_mail request_bearer
  by (metis (no_types, lifting) prod.collapse)

lemma acts_for_get_message:
  "store_ok E (encryption_key C) T w \<Longrightarrow> idp_ok E T \<Longrightarrow> acc_id a \<in> tenant_ids t w \<Longrightarrow>
   acts_for E (encryption_key C) T t w (snd (get_message E C a m w))"
  using get_message_effect [of E C T w a m "fst (get_message E C a m w)"] acts_for_mail request_bearer
  by (metis (no_types, lifting) prod.collapse)

lemma acts_for_send_message:
  "store_ok E (encryption_key C) T w \<Longrightarrow> idp_ok E T \<Longrightarrow> acc_id a \<in> tenant_ids t w \<Longrightarrow>
   acts_for E (encryption_key C) T t w (snd (send_message E C a x s b w))"
  using send_message_effect [of E C T w a x s b "fst (send_message E C a x s b w)"] acts_for_mail request_bearer
  by (metis (no_types, lifting) prod.collapse)

section \<open>The REST handlers\<close>

lemma account_get_tenant:
  assumes "fst (account_get t i w) = Inr a"
  shows "acc_id a = i" "acc_tenant a = t" "a \<in> set (account_rows w)" "i \<in> tenant_ids t (snd (account_get t i w))"
proof -
  note law = sqlite_accounts.get_law [OF surjective_pairing, of t i w]
  from law assms show *: "acc_id a = i" "acc_tenant a = t" "a \<in> set (account_rows w)" by simp_all
  from law * show "i \<in> tenant_ids t (snd (account_get t i w))" by (auto simp: tenant_ids_def)
qed

lemma account_list_tenant:
  assumes "fst (account_list t w) = Inr accs" and "a \<in> set accs"
  shows "acc_tenant a = t" "a \<in> set (account_rows w)" "acc_id a \<in> tenant_ids t (snd (account_list t w))"
proof -
  note law = sqlite_accounts.list_law [OF surjective_pairing, of t w]
  from law assms show *: "acc_tenant a = t" "a \<in> set (account_rows w)" by auto
  from law * show "acc_id a \<in> tenant_ids t (snd (account_list t w))" by (auto simp: tenant_ids_def)
qed

text \<open>A lookup within the tenant, then an operation on the account found.\<close>

lemma acts_for_on_account:
  assumes "store_ok E K T w"
    and "\<And>a v. acc_tenant a = t \<Longrightarrow> store_ok E K T v \<Longrightarrow> acc_id a \<in> tenant_ids t v \<Longrightarrow> acts_for E K T t v (snd (f a v))"
  shows "acts_for E K T t w (snd (bindE (account_get t i w) f))"
proof (rule acting.bind_effect)
  show "acts_for E K T t w (snd (account_get t i w))" by (rule acts_for_account_get [OF assms(1)])
next
  fix a
  assume a: "fst (account_get t i w) = Inr a" and ok: "store_ok E K T (snd (account_get t i w))"
  have "acc_tenant a = t" by (rule account_get_tenant(2) [OF a])
  moreover have "acc_id a \<in> tenant_ids t (snd (account_get t i w))"
    using account_get_tenant(1,4) [OF a] by simp
  ultimately show "acts_for E K T t (snd (account_get t i w)) (snd (f a (snd (account_get t i w))))"
    using assms(2) ok by blast
qed

lemma disconnect_tokens:
  assumes ok: "store_ok E K T w" and run: "disconnect E a w = (r, w')"
  shows "token_view E K w' (acc_id a) = None \<or> token_view E K w' = token_view E K w"
proof -
  obtain r1 w1 where d: "token_delete (acc_id a) w = (r1, w1)" by force
  note v = token_delete_view [OF ok d]
  show ?thesis
  proof (cases r1)
    case (Inl e)
    with run d v show ?thesis by (simp add: disconnect_def)
  next
    case (Inr u)
    with run d have s: "account_set_status E (acc_tenant a) (acc_id a) Disconnected w1 = (r, w')"
      by (simp add: disconnect_def)
    have "token_view E K w' = token_view E K w1"
      by (rule token_view_cong) (rule set_status_same_tables [OF s])
    with v Inr show ?thesis by simp
  qed
qed

lemma acts_for_disconnect:
  assumes ok: "store_ok E K T w" and a: "acc_id a \<in> tenant_ids (acc_tenant a) w"
  shows "acts_for E K T (acc_tenant a) w (snd (disconnect E a w))"
proof -
  obtain r w' where run: "disconnect E a w = (r, w')" by force
  note d = disconnect_result [OF ok run] and tok = disconnect_tokens [OF ok run]
  have rows: "row_keys w' = row_keys w \<and> others (acc_tenant a) w' = others (acc_tenant a) w"
  proof (cases r)
    case (Inl e)
    with d(6) show ?thesis by (simp add: row_keys_def others_def)
  next
    case (Inr u)
    have "map (\<lambda>b. (acc_id b, acc_tenant b)) (map (set_row_status t i s n) xs) = map (\<lambda>b. (acc_id b, acc_tenant b)) xs"
      "filter (\<lambda>b. acc_tenant b \<noteq> t) (map (set_row_status t i s n) xs) = filter (\<lambda>b. acc_tenant b \<noteq> t) xs" for t i s n xs
      by (induction xs) (simp_all add: set_row_status_def)
    with d(5) [OF Inr] show ?thesis by (simp add: row_keys_def others_def)
  qed
  have "token_view E K w' i = Some v \<Longrightarrow> token_view E K w i = Some v" for i v
    using tok d(4) [of i] by (cases "i = acc_id a") auto
  then have "tokens_from E K w w'" using renewal.refl unfolding tokens_from_def by metis
  moreover have "\<forall>i. i \<notin> tenant_ids (acc_tenant a) w \<longrightarrow> token_view E K w' i = token_view E K w i"
    using d(4) a by metis
  moreover have "only_expire E (acc_tenant a) w w'"
    using d(3) forward_disconnect [of "tick w" w E a] run by (intro only_expire_same) simp_all
  ultimately show ?thesis using d(1,2) rows run by (simp add: acts_for_def)
qed

text \<open>A new flow of the tenant purges the flows that have expired, whoever began them.\<close>

lemma flow_insert_expires:
  assumes "flow_insert E K v t s w = Some w'"
  shows "only_expire E t w w'"
proof -
  let ?p = "unexpired (unix_time E (tick w))"
  have ticks: "tick w < tick w'" by (rule flow_insert_forward [OF assms])
  from flow_insert_result [OF assms] obtain kept where
    kept: "kept = oauth_flows (db w) \<or> kept = filter ?p (oauth_flows (db w))"
    and new: "oauth_flows (db w') = kept \<or> (\<exists>f. fr_tenant f = t \<and> oauth_flows (db w') = kept @ [f])"
    by (metis flow_row.select_convs(3))
  from new have fl: "filter (\<lambda>f. fr_tenant f \<noteq> t) (oauth_flows (db w')) = filter (\<lambda>f. fr_tenant f \<noteq> t) kept"
    by auto
  from kept show ?thesis
  proof
    assume "kept = oauth_flows (db w)"
    with fl ticks show ?thesis
      by (auto simp: only_expire_def others_flows_def intro!: exI [of _ "\<lambda>_. True"])
  next
    assume "kept = filter ?p (oauth_flows (db w))"
    with fl have "others_flows t w' = filter ?p (others_flows t w)"
      by (simp add: others_flows_def conj_commute)
    with ticks show ?thesis unfolding only_expire_def by (intro conjI exI [of _ ?p]) auto
  qed
qed

lemma begin_flow_quiet:
  assumes run: "begin_flow E C s w = Some (r, w')"
  shows "accounts (db w') = accounts (db w)" "tokens (db w') = tokens (db w)" "wire w' = wire w"
    "only_expire E s w w'"
proof -
  obtain x w2 where au: "authorize_url E C w = (x, w2)" by (cases "authorize_url E C w")
  then have w2: "db w2 = db w" "wire w2 = wire w" "tick w \<le> tick w2"
    using authorize_url_frame [of E C w] authorize_url_forward [of w E C] by simp_all
  have e2: "only_expire E s w w2" by (rule only_expire_same) (use w2 in simp_all)
  have "accounts (db w') = accounts (db w) \<and> tokens (db w') = tokens (db w) \<and> wire w' = wire w \<and>
    only_expire E s w w'"
  proof (cases x)
    case (Inl e)
    with run au w2 e2 show ?thesis by (simp add: begin_flow_def)
  next
    case (Inr u)
    obtain url verifier state where u: "u = (url, verifier, state)" by (cases u)
    from run au Inr u have f: "flow_insert E (encryption_key C) verifier s state w2 = Some w'"
      by (auto simp: begin_flow_def split: option.splits)
    from flow_insert_result [OF f] w2 only_expire_trans [OF e2 flow_insert_expires [OF f]] show ?thesis by simp
  qed
  then show "accounts (db w') = accounts (db w)" "tokens (db w') = tokens (db w)" "wire w' = wire w"
    "only_expire E s w w'" by simp_all
qed

lemma acts_for_begin_flow:
  assumes ok: "store_ok E K T w" and run: "begin_flow E C t w = Some (r, w')"
  shows "acts_for E K T t w w'"
proof (rule acts_for_quiet [OF ok begin_flow_quiet(1,2,4) [OF run] _ begin_flow_quiet(3) [OF run]])
  show "wf_db (db w')" using wf_begin_flow [OF _ run] ok by (simp add: store_ok_def)
qed

lemma acts_for_inbox:
  assumes ok: "store_ok E (encryption_key C) T w" and idp: "idp_ok E T"
  shows "acts_for E (encryption_key C) T t w (snd (bindE (account_list t w) (\<lambda>accs w.
    aggregate_unified_inbox E (list_messages E C) accs n w)))"
proof (rule acting.bind_effect)
  show "acts_for E (encryption_key C) T t w (snd (account_list t w))" by (rule acts_for_account_list [OF ok])
next
  fix accs
  let ?K = "encryption_key C" and ?w = "snd (account_list t w)"
  assume l: "fst (account_list t w) = Inr accs" and ok1: "store_ok E ?K T ?w"
  have "acts_for E ?K T t ?w (snd (fetch_all (list_messages E C) n accs ?w))"
  proof (rule acting.fetch_all_effect)
    show "acts_for E ?K T t ?w ?w" by (rule acts_for_refl [OF ok1])
  next
    fix a v
    assume a: "a \<in> set accs" and v: "acts_for E ?K T t ?w v"
    have "acc_id a \<in> tenant_ids t ?w" by (rule account_list_tenant(3) [OF l a])
    then have "acc_id a \<in> tenant_ids t v" using v by (simp add: acts_for_def tenant_ids_keys)
    with v idp show "acts_for E ?K T t v (snd (list_messages E C a n None v))"
      by (intro acts_for_list_messages) (simp_all add: acts_for_def)
  qed
  then show "acts_for E ?K T t ?w (snd (aggregate_unified_inbox E (list_messages E C) accs n ?w))"
    by (simp add: aggregate_unified_inbox_def case_prod_unfold Let_def)
qed

lemma snd_respond [simp]: "snd (respond f r) = snd r"
  by (auto simp: respond_def split: prod.splits sum.splits)

lemma acts_for_extracted:
  assumes "store_ok E K T w" and "\<And>q. acts_for E K T t w (snd (h q w))"
    and "extracted x h w = (resp, w')"
  shows "acts_for E K T t w w'"
proof (cases x)
  case (Inl rejection)
  with assms(1,3) show ?thesis by (simp add: extracted_def acts_for_refl)
next
  case (Inr q)
  with assms(3) have "w' = snd (h q w)" by (simp add: extracted_def)
  with assms(2) show ?thesis by simp
qed

text \<open>Every endpoint.\<close>

lemma run_endpoint_acts_for:
  assumes ok: "store_ok E (encryption_key C) T w" and idp: "idp_ok E T"
    and run: "run_endpoint X E C q ep t w = Some (resp, w')"
  shows "acts_for E (encryption_key C) T t w w'"
proof -
  let ?K = "encryption_key C"
  note defs = disconnect_account_def list_emails_def get_email_def send_email_def unified_inbox_def
    list_accounts_def
  show ?thesis
  proof (cases ep)
    case ListAccounts
    with run acts_for_account_list [OF ok, of t t] show ?thesis by (auto simp: defs dest: arg_cong [where f = snd])
  next
    case ConnectAccount
    with run obtain r w1 where b: "begin_flow E C t w = Some (r, w1)"
      by (auto simp: connect_account_def split: option.splits)
    with run ConnectAccount have "w' = w1" by (cases r) (auto simp: connect_account_def respond_def)
    with acts_for_begin_flow [OF ok] b show ?thesis by blast
  next
    case (DisconnectAccount i)
    have "acts_for E ?K T t w (snd (disconnect_account E t i w))"
      unfolding defs by (rule acts_for_on_account [OF ok]) (use acts_for_disconnect in blast)
    with run DisconnectAccount show ?thesis by (auto dest: arg_cong [where f = snd])
  next
    case (ListEmails i)
    have "acts_for E ?K T t w (snd (list_emails E C t i qq w))" for qq
      unfolding defs by (rule acts_for_on_account [OF ok]) (rule acts_for_list_messages [OF _ idp])
    note step = this
    show ?thesis
      by (rule acts_for_extracted [OF ok _ run [unfolded ListEmails run_endpoint.simps option.inject]]) (simp add: step)
  next
    case (GetEmail i m)
    have "acts_for E ?K T t w (snd (get_email E C t i m w))"
      unfolding defs by (rule acts_for_on_account [OF ok]) (rule acts_for_get_message [OF _ idp])
    with run GetEmail show ?thesis by (auto dest: arg_cong [where f = snd])
  next
    case (SendEmail i)
    have "acts_for E ?K T t w (snd (send_email E C t i qq w))" for qq
      unfolding defs by (rule acts_for_on_account [OF ok]) (rule acts_for_send_message [OF _ idp])
    note step = this
    show ?thesis
      by (rule acts_for_extracted [OF ok _ run [unfolded SendEmail run_endpoint.simps option.inject]]) (simp add: step)
  next
    case UnifiedInbox
    have "acts_for E ?K T t w (snd (unified_inbox E C t n w))" for n
      unfolding defs by (rule acts_for_inbox [OF ok idp])
    note step = this
    show ?thesis
      by (rule acts_for_extracted [OF ok _ run [unfolded UnifiedInbox run_endpoint.simps option.inject]]) (simp add: step)
  qed
qed

section \<open>The whole surface\<close>

text \<open>Whoever has no tenant changes nothing.\<close>

lemma serve_request_cases:
  assumes run: "serve_request X E C q w = Some (resp, w')"
  obtains (fallback) "w' = w" "resp = head_reply q (wb_fallback X q)"
    | (health) "w' = w" "resp = head_reply q health"
    | (denied) "w' = w" "resp = head_reply q unauthorized" "resolve_tenant C (extract_api_key X q) = None"
    | (handled) ep t r where "resolve_tenant C (extract_api_key X q) = Some t"
        "run_endpoint X E C q ep t w = Some (r, w')" "resp = head_reply q r"
  using run by (auto simp: serve_request_def api_key_middleware_def split: if_splits option.splits)

lemma serve_request_acts_for:
  assumes ok: "store_ok E (encryption_key C) T w" and idp: "idp_ok E T"
    and run: "serve_request X E C q w = Some (resp, w')"
  shows "case resolve_tenant C (extract_api_key X q) of
      None \<Rightarrow> w' = w
    | Some t \<Rightarrow> acts_for E (encryption_key C) T t w w'"
  using run
proof (cases rule: serve_request_cases)
  case (handled ep t r)
  with run_endpoint_acts_for [OF ok idp handled(2)] show ?thesis by simp
qed (use acts_for_refl [OF ok] in \<open>simp_all split: option.splits\<close>)

text \<open>An account of another tenant looks like one that does not exist.\<close>

fun endpoint_account :: "endpoint \<Rightarrow> string option" where
  "endpoint_account (DisconnectAccount i) = Some i"
| "endpoint_account (ListEmails i) = Some i"
| "endpoint_account (GetEmail i _) = Some i"
| "endpoint_account (SendEmail i) = Some i"
| "endpoint_account _ = None"

definition missing_reply :: "string \<Rightarrow> api_response \<Rightarrow> bool" where
  "missing_reply i resp \<longleftrightarrow> resp = error_reply (NotFound (''account '' @ i @ '' not found'')) \<or>
     (\<exists>m. resp = error_reply (Storage m))"

lemma missing_account:
  assumes "i \<notin> tenant_ids t w" and "bindE (account_get t i w) f = (r, w')"
  shows "same_tables (db w) (db w')" and "wire w' = wire w" and "missing_reply i (fst (respond g (r, w')))"
proof -
  obtain r1 w1 where g: "account_get t i w = (r1, w1)" by force
  have none: "List.find (\<lambda>q. ar_tenant q = t \<and> ar_id q = i) (accounts (db w)) = None"
    using assms(1) unfolding find_None_iff_all tenant_ids_def account_rows_def by force
  note res = account_get_result [OF g, unfolded none]
  then obtain e where e: "r1 = Inl e" "(\<exists>m. e = Storage m) \<or> e = NotFound (''account '' @ i @ '' not found'')"
    by auto
  with assms(2) g have "r = Inl e" "w' = w1" by simp_all
  with res e show "same_tables (db w) (db w')" "wire w' = wire w" "missing_reply i (fst (respond g (r, w')))"
    by (auto simp: missing_reply_def respond_def)
qed

lemma missing_respond:
  assumes "i \<notin> tenant_ids t w" and "respond g (bindE (account_get t i w) f) = (resp, w')"
  shows "same_tables (db w) (db w') \<and> wire w' = wire w \<and> missing_reply i resp"
proof -
  obtain r v where b: "bindE (account_get t i w) f = (r, v)" by force
  with assms(2) have v: "v = w'" "resp = fst (respond g (r, v))"
    by (metis snd_conv snd_respond, metis fst_conv)
  from missing_account(1,2) [OF assms(1) b] missing_account(3) [OF assms(1) b, of g] v show ?thesis by simp
qed

lemma foreign_account_reply:
  assumes no: "i \<notin> tenant_ids t w" and ep: "endpoint_account ep = Some i"
    and run: "run_endpoint X E C q ep t w = Some (resp, w')"
  shows "same_tables (db w) (db w') \<and> wire w' = wire w \<and>
    (missing_reply i resp \<or> wb_email_query X (hq_query q) = Inl resp \<or> wb_send_body X q = Inl resp)"
proof (cases ep)
  case (DisconnectAccount j)
  with ep run show ?thesis by (auto simp: disconnect_account_def dest!: missing_respond [OF no])
next
  case (ListEmails j)
  with ep run show ?thesis
    by (cases "wb_email_query X (hq_query q)")
      (auto simp: list_emails_def extracted_def dest!: missing_respond [OF no])
next
  case (GetEmail j m)
  with ep run show ?thesis by (auto simp: get_email_def dest!: missing_respond [OF no])
next
  case (SendEmail j)
  with ep run show ?thesis
    by (cases "wb_send_body X q") (auto simp: send_email_def extracted_def dest!: missing_respond [OF no])
qed (use ep in simp_all)

end
