(* ===== verification/Mcp.thy ===== *)
theory Mcp
  imports Tenancy
begin

text \<open>
  \<open>src/mcp/mod.rs\<close>: the tools of the MCP server. Every tool works for the default tenant.
  \<open>pretty\<close> is \<open>serde_json::to_string_pretty\<close>; what \<open>rmcp\<close> does before a tool runs (the transport, the
  decoding of the parameters) is not modelled: \<open>tool_call\<close> is a call with its decoded parameters.
\<close>

record list_emails_params =
  lp_account :: string
  lp_limit :: "nat option"

record search_emails_params =
  sp_account :: string
  sp_query :: string

record read_email_params =
  rp_account :: string
  rp_message :: string

record send_email_params =
  ep_account :: string
  ep_to :: string
  ep_subject :: string
  ep_body :: string

record unified_inbox_params =
  up_limit :: "nat option"

text \<open>\<open>CallToolResult\<close> with its one block of text, and \<open>ErrorData\<close>.\<close>

record call_tool_result =
  tl_is_error :: bool
  tl_text :: string

datatype protocol_error = InternalError string

type_synonym tool_outcome = "protocol_error + call_tool_result"

section \<open>Result helpers\<close>

definition tool_ok :: "(json \<Rightarrow> string + string) \<Rightarrow> json \<Rightarrow> call_tool_result" where
  "tool_ok pretty j = \<lparr>tl_is_error = False, tl_text = (case pretty j of Inr s \<Rightarrow> s | Inl _ \<Rightarrow> ''{}'')\<rparr>"

definition tool_error :: "app_error \<Rightarrow> call_tool_result" where
  "tool_error e = \<lparr>tl_is_error = True, tl_text = display e\<rparr>"

definition to_protocol_error :: "app_error \<Rightarrow> protocol_error" where
  "to_protocol_error e = InternalError ''internal server error''"

text \<open>\<open>match ... { Ok(v) => Ok(tool_ok(&v)), Err(e) => Ok(tool_error(&e)) }\<close>.\<close>

definition tool_result ::
    "(json \<Rightarrow> string + string) \<Rightarrow> ('a \<Rightarrow> json) \<Rightarrow> 'a result \<times> world \<Rightarrow> tool_outcome \<times> world" where
  "tool_result pretty f rw =
     (case rw of (Inl e, w) \<Rightarrow> (Inr (tool_error e), w) | (Inr a, w) \<Rightarrow> (Inr (tool_ok pretty (f a)), w))"

section \<open>Tools\<close>

definition MCP_DEFAULT_LIMIT :: nat where
  "MCP_DEFAULT_LIMIT = 20"

definition capped :: "nat \<Rightarrow> nat \<Rightarrow> nat option \<Rightarrow> nat" where
  "capped dflt cap limit = min (case limit of None \<Rightarrow> dflt | Some n \<Rightarrow> n) cap"

definition resolve_account :: "config \<Rightarrow> string \<Rightarrow> world \<Rightarrow> account result \<times> world" where
  "resolve_account C id_or_email w =
     lookup_either account_get account_get_by_email (default_tenant_id C) id_or_email w"

definition mcp_list_accounts ::
    "(json \<Rightarrow> string + string) \<Rightarrow> config \<Rightarrow> world \<Rightarrow> tool_outcome \<times> world" where
  "mcp_list_accounts pretty C w =
     (case account_list (default_tenant_id C) w of
        (Inl e, w) \<Rightarrow> (Inl (to_protocol_error e), w)
      | (Inr accs, w) \<Rightarrow> (Inr (tool_ok pretty (JArr (map account_json accs))), w))"

definition mcp_list_emails ::
    "(json \<Rightarrow> string + string) \<Rightarrow> env \<Rightarrow> config \<Rightarrow> list_emails_params \<Rightarrow> world \<Rightarrow> tool_outcome \<times> world" where
  "mcp_list_emails pretty E C p w =
     tool_result pretty (\<lambda>ms. JArr (map mail_json ms))
       (bindE (resolve_account C (lp_account p) w) (\<lambda>a w.
          list_messages E C a (capped MCP_DEFAULT_LIMIT 200 (lp_limit p)) None w))"

definition mcp_search_emails ::
    "(json \<Rightarrow> string + string) \<Rightarrow> env \<Rightarrow> config \<Rightarrow> search_emails_params \<Rightarrow> world \<Rightarrow> tool_outcome \<times> world" where
  "mcp_search_emails pretty E C p w =
     tool_result pretty (\<lambda>ms. JArr (map mail_json ms))
       (bindE (resolve_account C (sp_account p) w) (\<lambda>a w. list_messages E C a 50 (Some (sp_query p)) w))"

definition mcp_read_email ::
    "(json \<Rightarrow> string + string) \<Rightarrow> env \<Rightarrow> config \<Rightarrow> read_email_params \<Rightarrow> world \<Rightarrow> tool_outcome \<times> world" where
  "mcp_read_email pretty E C p w =
     tool_result pretty mail_json
       (bindE (resolve_account C (rp_account p) w) (\<lambda>a w. get_message E C a (rp_message p) w))"

definition mcp_send_email ::
    "(json \<Rightarrow> string + string) \<Rightarrow> env \<Rightarrow> config \<Rightarrow> send_email_params \<Rightarrow> world \<Rightarrow> tool_outcome \<times> world" where
  "mcp_send_email pretty E C p w =
     tool_result pretty (\<lambda>_. JObj [(''sent'', JBool True)])
       (bindE (resolve_account C (ep_account p) w) (\<lambda>a w.
          send_message E C a (ep_to p) (ep_subject p) (ep_body p) w))"

definition mcp_unified_inbox ::
    "(json \<Rightarrow> string + string) \<Rightarrow> env \<Rightarrow> config \<Rightarrow> unified_inbox_params \<Rightarrow> world \<Rightarrow> tool_outcome \<times> world" where
  "mcp_unified_inbox pretty E C p w =
     (case account_list (default_tenant_id C) w of
        (Inl e, w) \<Rightarrow> (Inl (to_protocol_error e), w)
      | (Inr accs, w) \<Rightarrow>
          tool_result pretty (\<lambda>us. JArr (map unified_json us))
            (aggregate_unified_inbox E (list_messages E C) accs (capped 50 500 (up_limit p)) w))"

datatype tool_call =
    ListAccountsTool
  | ListEmailsTool list_emails_params
  | SearchEmailsTool search_emails_params
  | ReadEmailTool read_email_params
  | SendEmailTool send_email_params
  | UnifiedInboxTool unified_inbox_params

fun call_tool ::
    "(json \<Rightarrow> string + string) \<Rightarrow> env \<Rightarrow> config \<Rightarrow> tool_call \<Rightarrow> world \<Rightarrow> tool_outcome \<times> world" where
  "call_tool pretty E C ListAccountsTool w = mcp_list_accounts pretty C w"
| "call_tool pretty E C (ListEmailsTool p) w = mcp_list_emails pretty E C p w"
| "call_tool pretty E C (SearchEmailsTool p) w = mcp_search_emails pretty E C p w"
| "call_tool pretty E C (ReadEmailTool p) w = mcp_read_email pretty E C p w"
| "call_tool pretty E C (SendEmailTool p) w = mcp_send_email pretty E C p w"
| "call_tool pretty E C (UnifiedInboxTool p) w = mcp_unified_inbox pretty E C p w"

section \<open>What a tool can do\<close>

lemma snd_tool_result [simp]: "snd (tool_result pretty f r) = snd r"
  by (auto simp: tool_result_def split: prod.splits sum.splits)

lemma tool_result_Inl [simp]: "fst (tool_result pretty f r) \<noteq> Inl e"
  by (auto simp: tool_result_def split: prod.splits sum.splits)

lemma resolve_account_found:
  assumes "resolve_account C x w = (r, w')"
  shows "account_rows w' = account_rows w"
    and "r = Inr a \<Longrightarrow> a \<in> set (account_rows w) \<and> acc_tenant a = default_tenant_id C \<and>
      (acc_id a = x \<or> sql_lower (acc_email a) = sql_lower x)"
  using sqlite_accounts.either_sound [OF assms [unfolded resolve_account_def]] by blast+

lemma acts_for_resolve:
  assumes "store_ok E K T w"
  shows "acts_for E K T t w (snd (resolve_account C x w))"
proof -
  let ?t = "default_tenant_id C"
  obtain r1 w1 where g: "account_get ?t x w = (r1, w1)" by force
  have a1: "acts_for E K T t w w1" using acts_for_account_get [OF assms, of t ?t x] g by simp
  show ?thesis
  proof (cases r1)
    case (Inl e)
    with g have "resolve_account C x w = account_get_by_email ?t x w1"
      by (simp add: resolve_account_def lookup_either_def)
    with acting.step_effect [OF a1 acts_for_by_email] show ?thesis by simp
  next
    case (Inr a)
    with g a1 show ?thesis by (simp add: resolve_account_def lookup_either_def)
  qed
qed

lemma acts_for_on_resolved:
  assumes ok: "store_ok E K T w"
    and f: "\<And>a v. store_ok E K T v \<Longrightarrow> acc_id a \<in> tenant_ids (default_tenant_id C) v \<Longrightarrow>
      acts_for E K T (default_tenant_id C) v (snd (f a v))"
  shows "acts_for E K T (default_tenant_id C) w (snd (bindE (resolve_account C x w) f))"
proof (rule acting.bind_effect)
  let ?t = "default_tenant_id C" and ?w = "snd (resolve_account C x w)"
  show "acts_for E K T ?t w ?w" by (rule acts_for_resolve [OF ok])
  fix a
  assume a: "fst (resolve_account C x w) = Inr a" and ok1: "store_ok E K T ?w"
  have "acc_id a \<in> tenant_ids ?t ?w"
    using resolve_account_found(1) [OF surjective_pairing, of C x w]
      resolve_account_found(2) [OF surjective_pairing, of C x w a] a by (auto simp: tenant_ids_def)
  from f [OF ok1 this] show "acts_for E K T ?t ?w (snd (f a ?w))" .
qed

lemma call_tool_acts_for:
  assumes ok: "store_ok E (encryption_key C) T w" and idp: "idp_ok E T"
  shows "acts_for E (encryption_key C) T (default_tenant_id C) w (snd (call_tool pretty E C call w))"
proof (cases call)
  case ListAccountsTool
  have "snd (mcp_list_accounts pretty C w) = snd (account_list (default_tenant_id C) w)"
    by (auto simp: mcp_list_accounts_def split: prod.splits sum.splits)
  with ListAccountsTool acts_for_account_list [OF ok] show ?thesis by simp
next
  case (ListEmailsTool p)
  then show ?thesis
    by (simp add: mcp_list_emails_def acts_for_on_resolved [OF ok] acts_for_list_messages [OF _ idp])
next
  case (SearchEmailsTool p)
  then show ?thesis
    by (simp add: mcp_search_emails_def acts_for_on_resolved [OF ok] acts_for_list_messages [OF _ idp])
next
  case (ReadEmailTool p)
  then show ?thesis
    by (simp add: mcp_read_email_def acts_for_on_resolved [OF ok] acts_for_get_message [OF _ idp])
next
  case (SendEmailTool p)
  then show ?thesis
    by (simp add: mcp_send_email_def acts_for_on_resolved [OF ok] acts_for_send_message [OF _ idp])
next
  case (UnifiedInboxTool p)
  have "snd (mcp_unified_inbox pretty E C p w) = snd (bindE (account_list (default_tenant_id C) w) (\<lambda>accs w.
      aggregate_unified_inbox E (list_messages E C) accs (capped 50 500 (up_limit p)) w))"
    by (auto simp: mcp_unified_inbox_def bindE_def split: prod.splits sum.splits)
  with UnifiedInboxTool acts_for_inbox [OF ok idp] show ?thesis by simp
qed

text \<open>Errors at the protocol level carry no detail, and only the two listing tools have any.\<close>

lemma call_tool_protocol_error:
  assumes "fst (call_tool pretty E C call w) = Inl e"
  shows "e = InternalError ''internal server error'' \<and>
    (call = ListAccountsTool \<or> (\<exists>p. call = UnifiedInboxTool p)) \<and>
    (\<exists>m. fst (account_list (default_tenant_id C) w) = Inl (Storage m))"
proof -
  obtain r v where l: "account_list (default_tenant_id C) w = (r, v)" by force
  have "r = Inl x \<Longrightarrow> \<exists>m. x = Storage m" for x using account_list_result [OF l] by auto
  with assms l show ?thesis
    by (cases call; cases r) (auto simp: mcp_list_accounts_def mcp_list_emails_def mcp_search_emails_def
        mcp_read_email_def mcp_send_email_def mcp_unified_inbox_def to_protocol_error_def)
qed

end
