(* ===== verification/Callback.thy ===== *)
theory Callback
  imports TokenProps
begin

text \<open>
  \<open>src/auth/callback.rs\<close>: the server that receives the OAuth redirect. \<open>callback_state\<close> is the
  state its handlers share, \<open>handle_callback\<close> the handler, \<open>serve_callback_once\<close> the CLI's
  one-shot server. A response is its status and its body; bytes above 127 are the UTF-8 of the
  characters the source has.
\<close>

record callback_params =
  cp_code :: "string option"
  cp_state :: "string option"
  cp_error :: "string option"
  cp_description :: "string option"

record html_response =
  hr_status :: nat
  hr_body :: string

text \<open>The sender of the shutdown signal while it has not been used, whether the signal was sent, and
  in CLI mode the slot for the outcome.\<close>

record callback_state =
  cs_done :: bool
  cs_signalled :: bool
  cs_result :: "account result option option"

section \<open>Pages\<close>

definition escape_html :: "string \<Rightarrow> string" where
  "escape_html s =
     replace_char (CHR 0x22) ''&quot;'' (replace_char (CHR ''>'') ''&gt;''
       (replace_char (CHR ''<'') ''&lt;'' (replace_char (CHR ''&'') ''&amp;'' s)))"

definition em_dash :: string where
  "em_dash = [CHR 0xE2, CHR 0x80, CHR 0x94]"

definition quoted :: "string \<Rightarrow> string" where
  "quoted s = [CHR 0x22] @ s @ [CHR 0x22]"

definition success_response :: "account \<Rightarrow> html_response" where
  "success_response a = \<lparr>hr_status = 200, hr_body =
     ''<html><head><title>UniMail '' @ em_dash @ '' Connected</title></head>'' @
     ''<body style='' @ quoted ''font-family:sans-serif;max-width:640px;margin:4rem auto;text-align:center'' @ ''>'' @
     ''<h1 style='' @ quoted ''color:#16a34a'' @ ''>'' @ [CHR 0xE2, CHR 0x9C, CHR 0x85] @ '' Account connected</h1>'' @
     ''<p><strong>'' @ escape_html (acc_email a) @ ''</strong> is now connected to your unified inbox.</p>'' @
     ''<p style='' @ quoted ''color:#64748b'' @ ''>You can close this tab and return to UniMail.</p>'' @
     ''</body></html>''\<rparr>"

definition error_response :: "string \<Rightarrow> html_response" where
  "error_response message = \<lparr>hr_status = 400, hr_body =
     ''<html><head><title>UniMail '' @ em_dash @ '' Error</title></head>'' @
     ''<body style='' @ quoted ''font-family:sans-serif;max-width:640px;margin:4rem auto;text-align:center'' @ ''>'' @
     ''<h1 style='' @ quoted ''color:#dc2626'' @ ''>'' @ [CHR 0xE2, CHR 0x9D, CHR 0x8C] @ '' Connection failed</h1>'' @
     ''<p>'' @ escape_html message @ ''</p>'' @
     ''<p style='' @ quoted ''color:#64748b'' @ ''>Close this tab and try again.</p>'' @
     ''</body></html>''\<rparr>"

section \<open>The handler\<close>

definition complete_callback ::
    "env \<Rightarrow> config \<Rightarrow> resolver \<Rightarrow> callback_params \<Rightarrow> world \<Rightarrow> account result \<times> world" where
  "complete_callback E C resolve p w =
     (case cp_error p of
        Some err \<Rightarrow>
          (let detail = (case cp_description p of None \<Rightarrow> '''' | Some d \<Rightarrow> '' '' @ em_dash @ '' '' @ d)
           in (Inl (Auth (''Authorization failed: '' @ err @ detail)), w))
      | None \<Rightarrow>
          (case (cp_code p, cp_state p) of
             (Some code, Some state) \<Rightarrow> complete_flow E C resolve code state w
           | _ \<Rightarrow> (Inl (Auth ''missing code or state parameter in callback''), w)))"

definition handle_callback ::
    "env \<Rightarrow> config \<Rightarrow> resolver \<Rightarrow> callback_params \<Rightarrow> callback_state \<Rightarrow> world \<Rightarrow>
     html_response \<times> callback_state \<times> world" where
  "handle_callback E C resolve p st w =
     (let (result, w) = complete_callback E C resolve p w;
          response = (case result of Inr account \<Rightarrow> success_response account
            | Inl e \<Rightarrow> error_response (display e));
          st = (case cs_result st of Some _ \<Rightarrow> st\<lparr>cs_result := Some (Some result)\<rparr> | None \<Rightarrow> st);
          st = (if cs_done st then st\<lparr>cs_done := False, cs_signalled := True\<rparr> else st)
      in (response, st, w))"

text \<open>The routers: every path goes to the handler.\<close>

definition callback_router :: callback_state where
  "callback_router = \<lparr>cs_done = False, cs_signalled = False, cs_result = None\<rparr>"

definition once_router :: callback_state where
  "once_router = \<lparr>cs_done = True, cs_signalled = False, cs_result = Some None\<rparr>"

fun handle_all ::
    "env \<Rightarrow> config \<Rightarrow> resolver \<Rightarrow> callback_params list \<Rightarrow> callback_state \<Rightarrow> world \<Rightarrow>
     html_response list \<times> callback_state \<times> world" where
  "handle_all E C resolve [] st w = ([], st, w)"
| "handle_all E C resolve (p # ps) st w =
     (let (r, st, w) = handle_callback E C resolve p st w;
          (rs, st, w) = handle_all E C resolve ps st w
      in (r # rs, st, w))"

text \<open>\<open>serve_callback_once\<close>: \<open>bind\<close> and \<open>serve\<close> are the errors of binding the address and of the
  server, \<open>ps\<close> the requests it handles before it has shut down: up to the one that signals, and
  those already in flight then.\<close>

definition serve_callback_once ::
    "env \<Rightarrow> config \<Rightarrow> resolver \<Rightarrow> string \<Rightarrow> string option \<Rightarrow> string option \<Rightarrow> callback_params list \<Rightarrow>
     world \<Rightarrow> account result \<times> world" where
  "serve_callback_once E C resolve addr bind_error serve_error ps w =
     (case bind_error of
        Some e \<Rightarrow> (Inl (Io (''bind '' @ addr @ '': '' @ e)), w)
      | None \<Rightarrow>
          (let (_, st, w) = handle_all E C resolve ps once_router w
           in case serve_error of
                Some e \<Rightarrow> (Inl (Io (''callback server: '' @ e)), w)
              | None \<Rightarrow>
                  (case cs_result st of
                     Some (Some outcome) \<Rightarrow> (outcome, w)
                   | _ \<Rightarrow> (Inl (Auth ''callback completed without a result''), w))))"

section \<open>Escaping\<close>

text \<open>The four passes are one: no pass touches what an earlier one wrote.\<close>

definition escape_char :: "char \<Rightarrow> string" where
  "escape_char c =
     (if c = CHR ''&'' then ''&amp;'' else if c = CHR ''<'' then ''&lt;''
      else if c = CHR ''>'' then ''&gt;'' else if c = CHR 0x22 then ''&quot;'' else [c])"

lemma replace_char_Nil [simp]: "replace_char c r [] = []"
  by (simp add: replace_char_def)

lemma replace_char_append [simp]: "replace_char c r (s @ t) = replace_char c r s @ replace_char c r t"
  by (simp add: replace_char_def)

lemma replace_char_Cons: "replace_char c r (x # s) = (if x = c then r else [x]) @ replace_char c r s"
  by (simp add: replace_char_def)

lemma escape_html_Cons: "escape_html (x # s) = escape_char x @ escape_html s"
  by (simp add: escape_html_def escape_char_def replace_char_Cons)

lemma escape_html_Nil [simp]: "escape_html [] = []"
  by (simp add: escape_html_def replace_char_def)

lemma escape_html_map: "escape_html s = concat (map escape_char s)"
  by (induction s) (simp_all add: escape_html_Cons)

lemma escape_html_safe: "set (escape_html s) \<inter> {CHR ''<'', CHR ''>'', CHR 0x22} = {}"
  by (induction s) (auto simp: escape_html_Cons escape_char_def)

lemma escape_char_prefix:
  "escape_char a @ s = escape_char b @ t \<Longrightarrow> a = b \<and> s = t"
  by (auto simp: escape_char_def split: if_splits)

lemma escape_html_inj: "escape_html s = escape_html t \<Longrightarrow> s = t"
proof (induction s arbitrary: t)
  case Nil
  then show ?case by (cases t) (auto simp: escape_html_Cons escape_char_def split: if_splits)
next
  case (Cons a s)
  then obtain b u where t: "t = b # u"
    by (cases t) (auto simp: escape_html_Cons escape_char_def split: if_splits)
  with Cons.prems have "escape_char a @ escape_html s = escape_char b @ escape_html u"
    by (simp add: escape_html_Cons)
  from escape_char_prefix [OF this] Cons.IH t show ?case by simp
qed

section \<open>Requests and their outcomes\<close>

text \<open>Only a request without an error and with both parameters reaches the token manager.\<close>

definition carries_flow :: "callback_params \<Rightarrow> (string \<times> string) option" where
  "carries_flow p = (if cp_error p = None then
     (case (cp_code p, cp_state p) of (Some c, Some s) \<Rightarrow> Some (c, s) | _ \<Rightarrow> None) else None)"

lemma complete_callback_cases:
  "carries_flow p = Some (c, s) \<Longrightarrow> complete_callback E C resolve p w = complete_flow E C resolve c s w"
  "carries_flow p = None \<Longrightarrow> \<exists>m. complete_callback E C resolve p w = (Inl (Auth m), w)"
  by (auto simp: carries_flow_def complete_callback_def Let_def split: option.splits if_splits)

lemma handle_callback_world:
  "snd (snd (handle_callback E C resolve p st w)) = snd (complete_callback E C resolve p w)"
  by (simp add: handle_callback_def case_prod_unfold Let_def)

lemma handle_callback_slot:
  "cs_result st = Some x \<Longrightarrow> cs_result (fst (snd (handle_callback E C resolve p st w))) =
     Some (Some (fst (complete_callback E C resolve p w)))"
  by (simp add: handle_callback_def case_prod_unfold Let_def)

text \<open>The worlds in which the single requests of a run are handled.\<close>

fun world_after :: "env \<Rightarrow> config \<Rightarrow> resolver \<Rightarrow> callback_params list \<Rightarrow> world \<Rightarrow> world" where
  "world_after E C resolve [] w = w"
| "world_after E C resolve (p # ps) w = world_after E C resolve ps (snd (complete_callback E C resolve p w))"

lemma handle_all_world: "snd (snd (handle_all E C resolve ps st w)) = world_after E C resolve ps w"
  by (induction ps arbitrary: st w) (simp_all add: case_prod_unfold Let_def handle_callback_world)

lemma handle_all_slot:
  "cs_result st = Some x \<Longrightarrow> cs_result (fst (snd (handle_all E C resolve ps st w))) =
     (case ps of [] \<Rightarrow> Some x
      | _ \<Rightarrow> Some (Some (fst (complete_callback E C resolve (last ps) (world_after E C resolve (butlast ps) w)))))"
proof (induction ps arbitrary: st w x)
  case (Cons p ps)
  obtain r st1 w1 where h: "handle_callback E C resolve p st w = (r, st1, w1)" by (cases "handle_callback E C resolve p st w")
  from handle_callback_slot [OF Cons.prems, of E C resolve p w] handle_callback_world [of E C resolve p st w] h
  have st1: "cs_result st1 = Some (Some (fst (complete_callback E C resolve p w)))"
    and w1: "w1 = snd (complete_callback E C resolve p w)" by simp_all
  from Cons.IH [OF st1, of w1] h w1 show ?case
    by (cases ps) (simp_all add: case_prod_unfold Let_def)
qed simp

text \<open>The one-shot server returns the outcome of the last request it handled.\<close>

lemma serve_once_last:
  assumes "ps \<noteq> []"
  shows "serve_callback_once E C resolve addr None None ps w =
    complete_callback E C resolve (last ps) (world_after E C resolve (butlast ps) w)"
proof -
  obtain rs st w1 where h: "handle_all E C resolve ps once_router w = (rs, st, w1)"
    by (cases "handle_all E C resolve ps once_router w")
  have "cs_result once_router = Some None" by (simp add: once_router_def)
  from handle_all_slot [OF this, of E C resolve ps w] handle_all_world [of E C resolve ps once_router w] h assms
  have st: "cs_result st = Some (Some (fst (complete_callback E C resolve (last ps) (world_after E C resolve (butlast ps) w))))"
    and w1: "w1 = world_after E C resolve ps w" by (auto split: list.splits)
  have "world_after E C resolve (qs @ [p]) v = snd (complete_callback E C resolve p (world_after E C resolve qs v))"
    for qs p v by (induction qs arbitrary: v) simp_all
  from this [of "butlast ps" "last ps" w] assms
  have "w1 = snd (complete_callback E C resolve (last ps) (world_after E C resolve (butlast ps) w))" using w1 by simp
  with h st show ?thesis by (simp add: serve_callback_once_def)
qed

lemma handle_callback_signals:
  "cs_done st \<Longrightarrow> cs_signalled (fst (snd (handle_callback E C resolve p st w))) \<and>
     \<not> cs_done (fst (snd (handle_callback E C resolve p st w)))"
  by (simp add: handle_callback_def case_prod_unfold Let_def split: option.splits)

section \<open>Templates\<close>

lemma success_template:
  "\<exists>pre post. \<forall>a. success_response a = \<lparr>hr_status = 200, hr_body = pre @ escape_html (acc_email a) @ post\<rparr>"
proof -
  have "success_response a = \<lparr>hr_status = 200, hr_body =
     (''<html><head><title>UniMail '' @ em_dash @ '' Connected</title></head>'' @
     ''<body style='' @ quoted ''font-family:sans-serif;max-width:640px;margin:4rem auto;text-align:center'' @ ''>'' @
     ''<h1 style='' @ quoted ''color:#16a34a'' @ ''>'' @ [CHR 0xE2, CHR 0x9C, CHR 0x85] @ '' Account connected</h1>'' @
     ''<p><strong>'') @ escape_html (acc_email a) @ (''</strong> is now connected to your unified inbox.</p>'' @
     ''<p style='' @ quoted ''color:#64748b'' @ ''>You can close this tab and return to UniMail.</p>'' @
     ''</body></html>'')\<rparr>" for a
    by (simp only: success_response_def append_assoc)
  then show ?thesis by blast
qed

lemma error_template:
  "\<exists>pre post. \<forall>m. error_response m = \<lparr>hr_status = 400, hr_body = pre @ escape_html m @ post\<rparr>"
proof -
  have "error_response m = \<lparr>hr_status = 400, hr_body =
     (''<html><head><title>UniMail '' @ em_dash @ '' Error</title></head>'' @
     ''<body style='' @ quoted ''font-family:sans-serif;max-width:640px;margin:4rem auto;text-align:center'' @ ''>'' @
     ''<h1 style='' @ quoted ''color:#dc2626'' @ ''>'' @ [CHR 0xE2, CHR 0x9D, CHR 0x8C] @ '' Connection failed</h1>'' @
     ''<p>'') @ escape_html m @ (''</p>'' @
     ''<p style='' @ quoted ''color:#64748b'' @ ''>Close this tab and try again.</p>'' @
     ''</body></html>'')\<rparr>" for m
    by (simp only: error_response_def append_assoc)
  then show ?thesis by blast
qed

end
