(* ===== verification/Cli.thy ===== *)
theory Cli
  imports Mcp Callback
begin

text \<open>
  \<open>src/cli/mod.rs\<close>: the subcommands, and the wiring of the server. Standard output is the list of
  lines a command prints. \<open>outside\<close> says what the parts without a model do in one run: binding
  addresses, the HTTP servers, the MCP transport, the requests the one-shot callback server gets.
  Whether a program can be started (\<open>open_browser\<close>) is a parameter; the log is left out.
\<close>

record outside =
  xo_http :: "string option"           \<comment> \<open>building the HTTP client fails\<close>
  xo_once_bind :: "string option"
  xo_once_serve :: "string option"
  xo_callbacks :: "callback_params list"
  xo_callback_bind :: "string option"
  xo_api_bind :: "string option"
  xo_api_serve :: "string option"
  xo_mcp_init :: "string option"
  xo_mcp_stop :: "string option"

section \<open>Accounts\<close>

definition tenant_or_default :: "config \<Rightarrow> string option \<Rightarrow> string" where
  "tenant_or_default C tenant = (case tenant of Some t \<Rightarrow> t | None \<Rightarrow> default_tenant_id C)"

definition host_port :: "string \<Rightarrow> 16 word \<Rightarrow> string" where
  "host_port host port = host @ '':'' @ show_nat (unat port)"

text \<open>\<open>Display\<close> of a \<open>SocketAddr\<close>: an IPv6 address stands in brackets.\<close>

definition show_socket_addr :: "string \<times> 16 word \<Rightarrow> string" where
  "show_socket_addr a =
     (if CHR '':'' \<in> set (fst a) then host_port (''['' @ fst a @ '']'') (snd a) else host_port (fst a) (snd a))"

definition check_mark :: string where
  "check_mark = [CHR 0xE2, CHR 0x9C, CHR 0x85]"

definition cross_mark :: string where
  "cross_mark = [CHR 0xE2, CHR 0x9D, CHR 0x8C]"

definition connected_line :: "account \<Rightarrow> string" where
  "connected_line a = check_mark @ '' Connected '' @ acc_email a @ '' ('' @
     (case acc_name a of Some n \<Rightarrow> n | None \<Rightarrow> ''no display name'') @ '')''"

text \<open>
  \<open>open_browser\<close>: the commands that are tried, a program with its arguments each. The list of programs is
  fixed when the crate is compiled; \<open>starts\<close> tells which commands can be started.
\<close>

datatype platform = Linux | MacOS | Windows | OtherPlatform

type_synonym os_command = "string \<times> string list"

fun openers :: "platform \<Rightarrow> string list" where
  "openers Linux = [''xdg-open'', ''sensible-browser'']"
| "openers MacOS = [''open'']"
| "openers Windows = [''cmd'', ''start'']"
| "openers OtherPlatform = []"

fun try_openers :: "platform \<Rightarrow> (os_command \<Rightarrow> bool) \<Rightarrow> string \<Rightarrow> string list \<Rightarrow> os_command list" where
  "try_openers platform starts url [] = []"
| "try_openers platform starts url (opener # rest) =
     (let cmd = (opener, (if platform = Windows then [''/C'', ''start''] else []) @ [url])
      in cmd # (if starts cmd then [] else try_openers platform starts url rest))"

definition open_browser :: "platform \<Rightarrow> (os_command \<Rightarrow> bool) \<Rightarrow> string \<Rightarrow> os_command list" where
  "open_browser platform starts url = try_openers platform starts url (openers platform)"

text \<open>At most one command is started, the last one tried, and each gets the whole URL as its last argument.\<close>

lemma try_openers_result:
  "(\<forall>c \<in> set (butlast (try_openers p starts url os)). \<not> starts c) \<and>
   (\<forall>c \<in> set (try_openers p starts url os). fst c \<in> set os \<and> last (snd c) = url)"
  by (induction os) (auto simp: Let_def)

lemma open_browser_starts_once:
  "length (filter starts (open_browser p starts url)) \<le> 1"
proof (cases "open_browser p starts url" rule: rev_cases)
  case (snoc cs c)
  then have "filter starts cs = []"
    using try_openers_result [of p starts url "openers p"] by (auto simp: open_browser_def filter_empty_conv)
  with snoc show ?thesis by simp
qed simp

text \<open>\<open>add_account\<close>; \<open>None\<close> is the panic of \<open>FlowStore::insert\<close>.\<close>

definition add_account ::
    "env \<Rightarrow> config \<Rightarrow> outside \<Rightarrow> string option \<Rightarrow> world \<Rightarrow> ((unit result \<times> string list) \<times> world) option" where
  "add_account E C xo tenant w =
     (case begin_flow E C (tenant_or_default C tenant) w of
        None \<Rightarrow> None
      | Some (Inl e, w) \<Rightarrow> Some ((Inl e, []), w)
      | Some (Inr url, w) \<Rightarrow>
          (let out = [''Opening your browser to sign in to Microsoft...'' @ [CHR 0x0A],
                 ''If it does not open automatically, visit:'' @ [CHR 0x0A] @ url_text url @ [CHR 0x0A]]
           in Some (case callback_addr E C of
                Inl e \<Rightarrow> ((Inl e, out), w)
              | Inr (host, port) \<Rightarrow>
                  (case parse_socket_addr E (host_port host port) of
                     Inl e \<Rightarrow> ((Inl (Config (''invalid callback address '' @ host_port host port @ '': '' @ e)), out), w)
                   | Inr addr \<Rightarrow>
                       (case serve_callback_once E C (graph_resolve E C) (show_socket_addr addr)
                               (xo_once_bind xo) (xo_once_serve xo) (xo_callbacks xo) w of
                          (Inl e, w) \<Rightarrow> ((Inl e, out), w)
                        | (Inr a, w) \<Rightarrow> ((Inr (), out @ [connected_line a]), w))))))"

definition account_line :: "account \<Rightarrow> string" where
  "account_line a = acc_id a @ [CHR 0x09] @ acc_email a @ [CHR 0x09] @ status_str (acc_status a) @
     [CHR 0x09] @ acc_updated a"

definition cli_list_accounts ::
    "config \<Rightarrow> string option \<Rightarrow> world \<Rightarrow> (unit result \<times> string list) \<times> world" where
  "cli_list_accounts C tenant w =
     (case account_list (tenant_or_default C tenant) w of
        (Inl e, w) \<Rightarrow> ((Inl e, []), w)
      | (Inr accs, w) \<Rightarrow>
          ((Inr (), if accs = [] then [''No connected accounts.''] else map account_line accs), w))"

definition remove_account :: "config \<Rightarrow> string \<Rightarrow> string option \<Rightarrow> world \<Rightarrow> (unit result \<times> string list) \<times> world" where
  "remove_account C account tenant w =
     (let tenant_id = tenant_or_default C tenant;
          (r, w) = bindE (lookup_either account_get account_get_by_email tenant_id account w) (\<lambda>resolved w.
            bindE (account_delete tenant_id (acc_id resolved) w) (\<lambda>_ w.
              (Inr (''Removed account '' @ acc_email resolved), w)))
      in case r of Inl e \<Rightarrow> ((Inl e, []), w) | Inr line \<Rightarrow> ((Inr (), [line]), w))"

definition outcome_line :: "account \<times> unit result \<Rightarrow> string" where
  "outcome_line o1 = (case o1 of
     (a, Inr _) \<Rightarrow> check_mark @ '' refreshed '' @ acc_email a
   | (a, Inl e) \<Rightarrow> cross_mark @ '' '' @ acc_email a @ '' '' @ em_dash @ '' '' @ display e)"

definition cli_refresh_all :: "env \<Rightarrow> config \<Rightarrow> world \<Rightarrow> (unit result \<times> string list) \<times> world" where
  "cli_refresh_all E C w =
     (let (outcomes, w) = refresh_all E C w in ((Inr (), map outcome_line outcomes), w))"

section \<open>The server\<close>

definition parse_address :: "env \<Rightarrow> (string \<Rightarrow> app_error) \<Rightarrow> string \<Rightarrow> (string \<times> 16 word) result" where
  "parse_address E err text = map_err err (parse_socket_addr E text)"

definition api_address :: "env \<Rightarrow> config \<Rightarrow> (string \<times> 16 word) result" where
  "api_address E C = parse_address E
     (\<lambda>e. Config (''invalid API_BIND_ADDR '' @ [CHR 0x27] @ api_bind_addr C @ [CHR 0x27] @ '': '' @ e)) (api_bind_addr C)"

definition listener_address :: "env \<Rightarrow> config \<Rightarrow> (string \<times> 16 word) result" where
  "listener_address E C =
     (case callback_addr E C of
        Inl e \<Rightarrow> Inl e
      | Inr (host, port) \<Rightarrow>
          parse_address E (\<lambda>e. Config (''invalid callback address: '' @ e)) (host_port host port))"

definition refresh_interval :: "config \<Rightarrow> nat" where
  "refresh_interval C = max (refresh_interval_secs C) 60"

datatype service = CallbackListener "string \<times> 16 word" | RefreshLoop nat | RestApi "string \<times> 16 word"

text \<open>The services \<open>serve\<close> starts, in order, and what it returns when the last of them ends.\<close>

definition serve :: "env \<Rightarrow> config \<Rightarrow> outside \<Rightarrow> unit result \<times> service list" where
  "serve E C xo =
     (case api_address E C of
        Inl e \<Rightarrow> (Inl e, [])
      | Inr api_addr \<Rightarrow>
     (case listener_address E C of
        Inl e \<Rightarrow> (Inl e, [])
      | Inr cb_addr \<Rightarrow>
          (let background = (case xo_callback_bind xo of None \<Rightarrow> [CallbackListener cb_addr] | Some _ \<Rightarrow> []) @
                 [RefreshLoop (refresh_interval C)]
           in case xo_api_bind xo of
                Some e \<Rightarrow> (Inl (Io (''bind '' @ show_socket_addr api_addr @ '': '' @ e)), background)
              | None \<Rightarrow>
                  (case xo_api_serve xo of
                     Some e \<Rightarrow> (Inl (Io e), background @ [RestApi api_addr])
                   | None \<Rightarrow> (Inr (), background @ [RestApi api_addr])))))"

text \<open>The first \<open>n\<close> rounds of \<open>refresh_loop\<close>: the number of accounts refreshed in each, and the world
  after the sleep that ends the last. \<open>asleep m secs\<close> is what the rest of the program does to the world
  during the sleep of \<open>secs\<close> seconds that ends round \<open>m\<close>. \<open>None\<close> is the panic of \<open>chrono\<close>, which ends
  the task.\<close>

fun refresh_loop ::
    "env \<Rightarrow> config \<Rightarrow> (nat \<Rightarrow> nat \<Rightarrow> world \<Rightarrow> world) \<Rightarrow> nat \<Rightarrow> world \<Rightarrow> (nat list \<times> world) option" where
  "refresh_loop E C asleep 0 w = Some ([], w)"
| "refresh_loop E C asleep (Suc n) w =
     (case refresh_loop E C asleep n w of
        None \<Rightarrow> None
      | Some (counts, w) \<Rightarrow>
          (case refresh_stale E C (token_inactivity_days C) w of
             None \<Rightarrow> None
           | Some (k, w) \<Rightarrow> Some (counts @ [k], asleep n (refresh_interval C) w)))"

definition serve_stdio :: "outside \<Rightarrow> unit result" where
  "serve_stdio xo =
     (case xo_mcp_init xo of
        Some e \<Rightarrow> Inl (Internal (''MCP initialization failed: '' @ e))
      | None \<Rightarrow>
          (case xo_mcp_stop xo of
             Some e \<Rightarrow> Inl (Internal (''MCP server stopped: '' @ e))
           | None \<Rightarrow> Inr ()))"

section \<open>The program\<close>

datatype cli_command =
    AddAccountCmd "string option"
  | ListAccountsCmd "string option"
  | RemoveAccountCmd string "string option"
  | RefreshAllCmd
  | ServeCmd
  | McpCmd

definition dispatch ::
    "env \<Rightarrow> config \<Rightarrow> outside \<Rightarrow> cli_command \<Rightarrow> world \<Rightarrow> ((unit result \<times> string list) \<times> world) option" where
  "dispatch E C xo command w =
     (case command of
        AddAccountCmd tenant \<Rightarrow> add_account E C xo tenant w
      | ListAccountsCmd tenant \<Rightarrow> Some (cli_list_accounts C tenant w)
      | RemoveAccountCmd account tenant \<Rightarrow> Some (remove_account C account tenant w)
      | RefreshAllCmd \<Rightarrow> Some (cli_refresh_all E C w)
      | ServeCmd \<Rightarrow> Some ((fst (serve E C xo), []), w)
      | McpCmd \<Rightarrow> Some ((serve_stdio xo, []), w))"

text \<open>\<open>run\<close>, on the environment variables and the database file it finds.\<close>

definition run ::
    "env \<Rightarrow> outside \<Rightarrow> (string \<rightharpoonup> string) \<Rightarrow> tables option \<Rightarrow> string option list \<Rightarrow> nat \<Rightarrow> cli_command \<Rightarrow>
     (unit result \<times> string list) option" where
  "run E xo vars file schedule n command =
     (case from_env E vars of
        Inl e \<Rightarrow> Some (Inl e, [])
      | Inr C \<Rightarrow>
          (case build_state (xo_http xo) file schedule n of
             Inl e \<Rightarrow> Some (Inl e, [])
           | Inr w \<Rightarrow> map_option fst (dispatch E C xo command w)))"

text \<open>\<open>main\<close>: the exit code and what goes to standard error.\<close>

definition main_exit :: "unit result \<Rightarrow> nat \<times> string list" where
  "main_exit r = (case r of Inr _ \<Rightarrow> (0, []) | Inl e \<Rightarrow> (1, [''error: '' @ display e]))"

section \<open>Removing an account\<close>

text \<open>The account found, within the tenant and under its id or email address, is gone with its token, and
  no other account or token is touched.\<close>

definition removed :: "env \<Rightarrow> bytes \<Rightarrow> string \<Rightarrow> string \<Rightarrow> world \<Rightarrow> world \<Rightarrow> bool" where
  "removed E K t x w w' \<longleftrightarrow>
     (\<exists>a \<in> set (account_rows w). acc_tenant a = t \<and> (acc_id a = x \<or> sql_lower (acc_email a) = sql_lower x) \<and>
        account_rows w' = filter (\<lambda>b. acc_id b \<noteq> acc_id a) (account_rows w) \<and>
        token_view E K w' = (token_view E K w)(acc_id a := None))"

lemma token_view_filter:
  assumes "tokens (db w') = filter (\<lambda>k. tr_account k \<noteq> i) (tokens (db w))"
  shows "token_view E K w' = (token_view E K w)(i := None)"
proof
  fix j
  show "token_view E K w' j = ((token_view E K w)(i := None)) j"
  proof (cases "j = i")
    case True
    then show ?thesis using assms by (simp add: token_view_def find_filter_none)
  next
    case False
    then have "List.find (\<lambda>t. tr_account t = j) (filter (\<lambda>k. tr_account k \<noteq> i) (tokens (db w))) =
        List.find (\<lambda>t. tr_account t = j) (tokens (db w))" by (intro find_filter_other) simp
    with False assms show ?thesis by (simp add: token_view_def)
  qed
qed

lemma account_delete_row:
  assumes wf: "wf_db (db w)" and a: "a \<in> set (account_rows w)" "acc_tenant a = t"
    and run: "account_delete t (acc_id a) w = (Inr b, w')"
  shows "account_rows w' = filter (\<lambda>b. acc_id b \<noteq> acc_id a) (account_rows w)"
    and "token_view E K w' = (token_view E K w)(acc_id a := None)"
proof -
  obtain q where q: "q \<in> set (accounts (db w))" "a = of_row q" using a by (auto simp: account_rows_def)
  have one: "ar_tenant r = t" if "r \<in> set (accounts (db w))" "ar_id r = acc_id a" for r
  proof -
    have "inj_on ar_id (set (accounts (db w)))" using wf_ids [OF wf] by (simp add: distinct_map)
    from inj_onD [OF this _ that(1) q(1)] that(2) q(2) have "r = q" by simp
    with q a show ?thesis by simp
  qed
  note res = account_delete_result [OF run]
  have "accounts (db w') = filter (\<lambda>r. ar_id r \<noteq> acc_id a) (accounts (db w))"
    using res one by (auto intro: filter_cong)
  then show "account_rows w' = filter (\<lambda>b. acc_id b \<noteq> acc_id a) (account_rows w)"
    by (simp add: account_rows_def filter_map comp_def)
  have "ar_id ` {r \<in> set (accounts (db w)). ar_tenant r = t \<and> ar_id r = acc_id a} = {acc_id a}"
    using q a by (force simp: image_iff)
  then have "tokens (db w') = filter (\<lambda>k. tr_account k \<noteq> acc_id a) (tokens (db w))" using res by simp
  then show "token_view E K w' = (token_view E K w)(acc_id a := None)" by (rule token_view_filter)
qed

lemma remove_account_result:
  assumes ok: "store_ok E K T w" and run: "remove_account C x tenant w = ((r, out), w')"
  shows "r = Inr u \<Longrightarrow> removed E K (tenant_or_default C tenant) x w w'"
    and "r = Inl e \<Longrightarrow> account_rows w' = account_rows w \<and> token_view E K w' = token_view E K w \<and> out = []"
proof -
  let ?t = "tenant_or_default C tenant"
  obtain r1 w1 where l: "lookup_either account_get account_get_by_email ?t x w = (r1, w1)" by force
  have a1: "acts_for E K T ?t w w1 \<and> same_tables (db w) (db w1)"
  proof -
    obtain r0 w0 where g: "account_get ?t x w = (r0, w0)" by force
    have g0: "same_tables (db w) (db w0)" using account_get_result [OF g] by simp
    have a0: "acts_for E K T ?t w w0" using acts_for_account_get [OF ok, of ?t ?t x] g by simp
    show ?thesis
    proof (cases r0)
      case (Inl e)
      with l g have b: "account_get_by_email ?t x w0 = (r1, w1)" by (simp add: lookup_either_def)
      have "acts_for E K T ?t w0 w1" using acts_for_by_email [of E K T w0 ?t ?t x] a0 b by (simp add: acts_for_def)
      with acts_for_trans [OF a0 this] g0 account_get_by_email_result [OF b] same_tables_trans show ?thesis by blast
    next
      case (Inr a)
      with l g g0 a0 show ?thesis by (simp add: lookup_either_def)
    qed
  qed
  then have same: "accounts (db w1) = accounts (db w)" "tokens (db w1) = tokens (db w)" and "store_ok E K T w1"
    by (simp_all add: same_tables_def acts_for_def)
  then have st: "account_rows w1 = account_rows w" "token_view E K w1 = token_view E K w" "wf_db (db w1)"
    using token_view_cong [OF same(2)] by (simp_all add: account_rows_def store_ok_def)
  note found = sqlite_accounts.either_sound [OF l]
  have "(r = Inr u \<longrightarrow> removed E K ?t x w w') \<and>
      (r = Inl e \<longrightarrow> account_rows w' = account_rows w \<and> token_view E K w' = token_view E K w \<and> out = [])"
  proof (cases r1)
    case (Inl e1)
    with run l st show ?thesis by (auto simp: remove_account_def)
  next
    case (Inr a)
    with found st have a: "a \<in> set (account_rows w1)" "acc_tenant a = ?t"
      "acc_id a = x \<or> sql_lower (acc_email a) = sql_lower x" by simp_all
    obtain r2 w2 where d: "account_delete ?t (acc_id a) w1 = (r2, w2)" by force
    show ?thesis
    proof (cases r2)
      case (Inl e2)
      with account_delete_result [OF d] have "same_tables (db w1) (db w2)" by auto
      then have "accounts (db w2) = accounts (db w1)" and tk: "tokens (db w2) = tokens (db w1)"
        by (simp_all add: same_tables_def)
      then have "account_rows w2 = account_rows w" "token_view E K w2 = token_view E K w"
        using st token_view_cong [OF tk] by (simp_all add: account_rows_def)
      with run l d Inr Inl show ?thesis by (auto simp: remove_account_def Let_def)
    next
      case inr: (Inr b)
      with d have "account_delete ?t (acc_id a) w1 = (Inr b, w2)" by simp
      note gone = account_delete_row [OF st(3) a(1,2) this]
      have "w' = w2" "r = Inr ()" using run l d Inr inr by (auto simp: remove_account_def Let_def)
      with gone a st show ?thesis by (auto simp: removed_def)
    qed
  qed
  then show "r = Inr u \<Longrightarrow> removed E K ?t x w w'"
    and "r = Inl e \<Longrightarrow> account_rows w' = account_rows w \<and> token_view E K w' = token_view E K w \<and> out = []"
    by blast+
qed

section \<open>The background loop\<close>

text \<open>It runs on as long as \<open>chrono\<close> can compute the threshold of every reading of the clock, and keeps
  the schema's invariant as long as the rest of the program does.\<close>

lemma refresh_loop_total:
  assumes "\<forall>m. now_minus_days E (clock E m) (token_inactivity_days C) \<noteq> None"
  shows "\<exists>counts w'. refresh_loop E C asleep n w = Some (counts, w') \<and> length counts = n"
proof (induction n)
  case (Suc n)
  then obtain counts v where l: "refresh_loop E C asleep n w = Some (counts, v)" "length counts = n" by blast
  have "refresh_stale E C (token_inactivity_days C) v \<noteq> None"
    using assms by (simp add: refresh_stale_def utc_now_def split: option.split)
  with l show ?case by auto
qed simp

lemma refresh_loop_wf:
  assumes "\<And>k d v. wf_db (db v) \<Longrightarrow> wf_db (db (asleep k d v))" and "wf_db (db w)"
    and "refresh_loop E C asleep n w = Some (counts, w')"
  shows "wf_db (db w')"
  using assms(3)
proof (induction n arbitrary: counts w')
  case (Suc n)
  from Suc.prems obtain k v1 v ks where l: "refresh_loop E C asleep n w = Some (ks, v)"
    and s: "refresh_stale E C (token_inactivity_days C) v = Some (k, v1)" and w': "w' = asleep n (refresh_interval C) v1"
    by (auto split: option.splits)
  show ?case unfolding w' by (rule assms(1) [OF wf_refresh_stale [OF Suc.IH [OF l] s]])
qed (use assms(2) in simp)

lemma refresh_loop_panics:
  "\<forall>m. now_minus_days E (clock E m) (token_inactivity_days C) = None \<Longrightarrow> refresh_loop E C asleep (Suc n) w = None"
  by (simp add: refresh_stale_def utc_now_def split: option.split)

lemma refresh_interval_bounds: "60 \<le> refresh_interval C" "refresh_interval_secs C \<le> refresh_interval C"
  by (simp_all add: refresh_interval_def)

section \<open>Starting the server\<close>

text \<open>The callback listener is optional: the API starts without it, with an address for it that parses.\<close>

lemma serve_starts:
  assumes "api_address E C = Inr api" and "listener_address E C = Inr cb" and "xo_api_bind xo = None"
  shows "RestApi api \<in> set (snd (serve E C xo)) \<and> RefreshLoop (refresh_interval C) \<in> set (snd (serve E C xo)) \<and>
    (CallbackListener cb \<in> set (snd (serve E C xo)) \<longleftrightarrow> xo_callback_bind xo = None)"
  using assms by (auto simp: serve_def Let_def split: option.splits)

lemma serve_nothing:
  assumes "is_err (api_address E C) \<or> is_err (listener_address E C)"
  shows "\<exists>m. serve E C xo = (Inl (Config m), [])"
proof -
  have "\<exists>m. e = Config m" if "callback_addr E C = Inl e" for e
    using that by (auto simp: callback_addr_def Let_def split: option.splits sum.splits prod.splits)
  then have "listener_address E C = Inl e \<Longrightarrow> \<exists>m. e = Config m" for e
    by (auto simp: listener_address_def parse_address_def map_err_Inl_iff split: sum.splits)
  moreover have "api_address E C = Inl e \<Longrightarrow> \<exists>m. e = Config m" for e
    by (auto simp: api_address_def parse_address_def map_err_Inl_iff)
  ultimately show ?thesis using assms
    by (auto simp: serve_def is_err_iff split: sum.splits)
qed

text \<open>\<open>callback_addr\<close> gives an IPv6 host without its brackets, so joined to the port again it is no
  address: with such an override the server and \<open>add-account\<close> refuse to start.\<close>

lemma ipv6_listener:
  assumes "callback_bind_addr C = Some (''['' @ ip @ '']:'' @ show_nat (unat port))"
    and "parse_socket_addr E (''['' @ ip @ '']:'' @ show_nat (unat port)) = Inr (ip, port)"
    and "parse_socket_addr E (ip @ '':'' @ show_nat (unat port)) = Inl e"
  shows "listener_address E C = Inl (Config (''invalid callback address: '' @ e))"
  using assms by (simp add: listener_address_def callback_addr_def parse_address_def host_port_def)

end
