(* ===== verification/Concurrency.thy ===== *)
theory Concurrency
  imports TokenProps
begin

text \<open>
  The token manager under concurrent requests. \<open>refresh_account\<close>, \<open>disconnect\<close> and the cached path of
  \<open>get_access_token\<close> are cut where other tasks can run: at the per-account mutex, at the request to the
  identity provider, and between two critical sections of the database; the read that ends
  \<open>get_access_token\<close> after a refresh changes nothing and is left to \<open>Uses\<close>, which adds it with the answers. \<open>task\<close> is where a task stands,
  \<open>system_step\<close> one move of one task, \<open>schedule\<close> an interleaving. The sections show that the cut
  operations are the uncut ones when nothing interferes, that the mutex is exclusive per account and
  never deadlocks, that refreshes alone never lose an update, and which pairs of operations do.
\<close>

datatype task =
    RefreshStart string
  | RefreshWaits string nat                       \<comment> \<open>has the handle of the mutex\<close>
  | RefreshHolds string nat                       \<comment> \<open>holds the mutex\<close>
  | RefreshAsks string nat stored_token           \<comment> \<open>has read the token\<close>
  | RefreshAnswered string nat stored_token token_set
  | UseStart string                               \<comment> \<open>a request for an access token\<close>
  | UseBumps string stored_token                  \<comment> \<open>has read a fresh token\<close>
  | DisconnectStart account
  | DisconnectMarks account                       \<comment> \<open>has deleted the token\<close>
  | Finished "unit result"

record system =
  sys_world :: world
  sys_tasks :: "nat \<Rightarrow> task"
  sys_held :: "nat \<Rightarrow> nat option"                \<comment> \<open>the task that holds a mutex\<close>

definition moved :: "system \<Rightarrow> nat \<Rightarrow> task \<Rightarrow> world \<Rightarrow> system" where
  "moved s k t w = s\<lparr>sys_world := w, sys_tasks := (sys_tasks s)(k := t)\<rparr>"

definition taking :: "nat \<Rightarrow> nat \<Rightarrow> system \<Rightarrow> system" where
  "taking m k s = s\<lparr>sys_held := (sys_held s)(m := Some k)\<rparr>"

definition releasing :: "nat \<Rightarrow> system \<Rightarrow> system" where
  "releasing m s = s\<lparr>sys_held := (sys_held s)(m := None)\<rparr>"

text \<open>The test of \<open>get_access_token\<close>: the token read, if it is fresh enough to be handed out.\<close>

definition fresh_read :: "env \<Rightarrow> stored_token option \<Rightarrow> world \<Rightarrow> stored_token option \<times> world" where
  "fresh_read E x w =
     (case x of
        None \<Rightarrow> (None, w)
      | Some token \<Rightarrow>
          (case st_expires token of
             None \<Rightarrow> (None, w)
           | Some expires_at \<Rightarrow>
               (let (t, w) = utc_now E w
                in (if expires_at > t + EXPIRY_SKEW then Some token else None, w))))"

inductive system_step :: "env \<Rightarrow> config \<Rightarrow> system \<Rightarrow> nat \<Rightarrow> system \<Rightarrow> bool" for E C where
  lookup_lock: "sys_tasks s k = RefreshStart i \<Longrightarrow> account_lock i (sys_world s) = (m, w) \<Longrightarrow>
     system_step E C s k (moved s k (RefreshWaits i m) w)"
| acquire: "sys_tasks s k = RefreshWaits i m \<Longrightarrow> sys_held s m = None \<Longrightarrow>
     system_step E C s k (taking m k (moved s k (RefreshHolds i m) (sys_world s)))"
| read: "sys_tasks s k = RefreshHolds i m \<Longrightarrow> refresh_read E C i (sys_world s) = (Inr cur, w) \<Longrightarrow>
     system_step E C s k (moved s k (RefreshAsks i m cur) w)"
| read_fails: "sys_tasks s k = RefreshHolds i m \<Longrightarrow> refresh_read E C i (sys_world s) = (Inl e, w) \<Longrightarrow>
     system_step E C s k (releasing m (moved s k (Finished (Inl e)) w))"
| ask: "sys_tasks s k = RefreshAsks i m cur \<Longrightarrow>
     refresh_tokens E C (st_refresh cur) (sys_world s) = (Inr ts, w) \<Longrightarrow>
     system_step E C s k (moved s k (RefreshAnswered i m cur ts) w)"
| ask_fails: "sys_tasks s k = RefreshAsks i m cur \<Longrightarrow>
     refresh_tokens E C (st_refresh cur) (sys_world s) = (Inl e, w) \<Longrightarrow>
     system_step E C s k (releasing m (moved s k (Finished (Inl e)) w))"
| store: "sys_tasks s k = RefreshAnswered i m cur ts \<Longrightarrow>
     refresh_store E C i cur ts (sys_world s) = (r, w) \<Longrightarrow>
     system_step E C s k (releasing m (moved s k (Finished r) w))"
| use: "sys_tasks s k = UseStart i \<Longrightarrow>
     token_get E (encryption_key C) i (sys_world s) = (Inr x, v) \<Longrightarrow> fresh_read E x v = (Some tok, w) \<Longrightarrow>
     system_step E C s k (moved s k (UseBumps i tok) w)"
| use_stale: "sys_tasks s k = UseStart i \<Longrightarrow>
     token_get E (encryption_key C) i (sys_world s) = (Inr x, v) \<Longrightarrow> fresh_read E x v = (None, w) \<Longrightarrow>
     system_step E C s k (moved s k (RefreshStart i) w)"
| use_fails: "sys_tasks s k = UseStart i \<Longrightarrow>
     token_get E (encryption_key C) i (sys_world s) = (Inl e, w) \<Longrightarrow>
     system_step E C s k (moved s k (Finished (Inl e)) w)"
| bump: "sys_tasks s k = UseBumps i tok \<Longrightarrow> bump_last_used E C i tok (sys_world s) = w \<Longrightarrow>
     system_step E C s k (moved s k (Finished (Inr ())) w)"
| drop_token: "sys_tasks s k = DisconnectStart a \<Longrightarrow> token_delete (acc_id a) (sys_world s) = (Inr u, w) \<Longrightarrow>
     system_step E C s k (moved s k (DisconnectMarks a) w)"
| drop_fails: "sys_tasks s k = DisconnectStart a \<Longrightarrow> token_delete (acc_id a) (sys_world s) = (Inl e, w) \<Longrightarrow>
     system_step E C s k (moved s k (Finished (Inl e)) w)"
| mark: "sys_tasks s k = DisconnectMarks a \<Longrightarrow>
     account_set_status E (acc_tenant a) (acc_id a) Disconnected (sys_world s) = (r, w) \<Longrightarrow>
     system_step E C s k (moved s k (Finished r) w)"

text \<open>An interleaving: the tasks in the order they move.\<close>

inductive schedule :: "env \<Rightarrow> config \<Rightarrow> system \<Rightarrow> nat list \<Rightarrow> system \<Rightarrow> bool" for E C where
  stop: "schedule E C s [] s"
| move: "system_step E C s k s1 \<Longrightarrow> schedule E C s1 ks s2 \<Longrightarrow> schedule E C s (k # ks) s2"

lemma moved_simps [simp]:
  "sys_world (moved s k t w) = w" "sys_tasks (moved s k t w) = (sys_tasks s)(k := t)"
  "sys_held (moved s k t w) = sys_held s"
  by (simp_all add: moved_def)

lemma taking_simps [simp]:
  "sys_world (taking m k s) = sys_world s" "sys_tasks (taking m k s) = sys_tasks s"
  "sys_held (taking m k s) = (sys_held s)(m := Some k)"
  by (simp_all add: taking_def)

lemma releasing_simps [simp]:
  "sys_world (releasing m s) = sys_world s" "sys_tasks (releasing m s) = sys_tasks s"
  "sys_held (releasing m s) = (sys_held s)(m := None)"
  by (simp_all add: releasing_def)

inductive_simps schedule_Nil [simp]: "schedule E C s [] s'"
inductive_simps schedule_Cons: "schedule E C s (k # ks) s'"
inductive_cases system_stepE: "system_step E C s k s'"

lemma schedule_append:
  "schedule E C s ks s1 \<Longrightarrow> schedule E C s1 ls s2 \<Longrightarrow> schedule E C s (ks @ ls) s2"
  by (induction rule: schedule.induct) (auto intro: schedule.move)

text \<open>The system all of whose tasks are about to start, with the given ones among them.\<close>

definition start :: "task \<Rightarrow> bool" where
  "start t = (case t of RefreshStart _ \<Rightarrow> True | UseStart _ \<Rightarrow> True | DisconnectStart _ \<Rightarrow> True
     | Finished _ \<Rightarrow> True | _ \<Rightarrow> False)"

definition begins :: "(nat \<Rightarrow> task) \<Rightarrow> world \<Rightarrow> system" where
  "begins ts w = \<lparr>sys_world = w, sys_tasks = ts, sys_held = (\<lambda>_. None)\<rparr>"

section \<open>Progress\<close>

text \<open>A task moves a bounded number of times.\<close>

fun moves_left :: "task \<Rightarrow> nat" where
  "moves_left (UseStart _) = 6"
| "moves_left (RefreshStart _) = 5"
| "moves_left (RefreshWaits _ _) = 4"
| "moves_left (RefreshHolds _ _) = 3"
| "moves_left (RefreshAsks _ _ _) = 2"
| "moves_left (RefreshAnswered _ _ _ _) = 1"
| "moves_left (UseBumps _ _) = 1"
| "moves_left (DisconnectStart _) = 2"
| "moves_left (DisconnectMarks _) = 1"
| "moves_left (Finished _) = 0"

lemma step_moves_left:
  "system_step E C s k s' \<Longrightarrow>
     moves_left (sys_tasks s' k) < moves_left (sys_tasks s k) \<and> (\<forall>l. l \<noteq> k \<longrightarrow> sys_tasks s' l = sys_tasks s l)"
  by (induction rule: system_step.induct) simp_all

lemma schedule_bounded:
  assumes "finite K" and "\<forall>k. k \<notin> K \<longrightarrow> moves_left (sys_tasks s k) = 0" and "schedule E C s ks s'"
  shows "length ks \<le> (\<Sum>k \<in> K. moves_left (sys_tasks s k))"
  using assms(3,2)
proof (induction rule: schedule.induct)
  case (move s k s1 ks s2)
  note st = step_moves_left [OF move.hyps(1)]
  have k: "k \<in> K" using st move.prems by fastforce
  have "\<forall>l. l \<notin> K \<longrightarrow> moves_left (sys_tasks s1 l) = 0" using st move.prems k by metis
  from move.IH [OF this] have "length ks \<le> (\<Sum>l \<in> K. moves_left (sys_tasks s1 l))" .
  also have "\<dots> = moves_left (sys_tasks s1 k) + (\<Sum>l \<in> K - {k}. moves_left (sys_tasks s1 l))"
    by (rule sum.remove [OF assms(1) k])
  also have "(\<Sum>l \<in> K - {k}. moves_left (sys_tasks s1 l)) = (\<Sum>l \<in> K - {k}. moves_left (sys_tasks s l))"
    using st by (intro sum.cong) simp_all
  also have "moves_left (sys_tasks s1 k) + \<dots> < moves_left (sys_tasks s k) + (\<Sum>l \<in> K - {k}. moves_left (sys_tasks s l))"
    using st by simp
  also have "\<dots> = (\<Sum>l \<in> K. moves_left (sys_tasks s l))" by (rule sum.remove [OF assms(1) k, symmetric])
  finally show ?case by simp
qed simp

section \<open>The cut operations are the uncut ones\<close>

text \<open>A task that runs alone to its end does what the operation does in one go.\<close>

definition runs_to :: "env \<Rightarrow> config \<Rightarrow> system \<Rightarrow> nat \<Rightarrow> unit result \<Rightarrow> world \<Rightarrow> bool" where
  "runs_to E C s k r w \<longleftrightarrow>
     (\<exists>n s'. schedule E C s (replicate n k) s' \<and> sys_tasks s' k = Finished r \<and> sys_world s' = w \<and>
        sys_held s' = sys_held s)"

lemma runs_to_finished: "sys_tasks s k = Finished r \<Longrightarrow> runs_to E C s k r (sys_world s)"
  unfolding runs_to_def by (intro exI [of _ 0] exI [of _ s]) simp

lemma runs_to_step:
  assumes "system_step E C s k s1" and "runs_to E C s1 k r w" and "sys_held s1 = sys_held s"
  shows "runs_to E C s k r w"
proof -
  from assms(2) obtain n s' where "schedule E C s1 (replicate n k) s'" "sys_tasks s' k = Finished r"
    "sys_world s' = w" "sys_held s' = sys_held s1" by (auto simp: runs_to_def)
  with assms(1,3) schedule.move [OF assms(1)] show ?thesis
    unfolding runs_to_def by (intro exI [of _ "Suc n"] exI [of _ s']) simp
qed

text \<open>The critical section, entered with a free mutex.\<close>

lemma refresh_critical:
  assumes t: "sys_tasks s k = RefreshHolds i m" and held: "sys_held s m = Some k"
    and run: "bindE (refresh_read E C i (sys_world s)) (\<lambda>current w.
         bindE (refresh_tokens E C (st_refresh current) w) (\<lambda>ts w.
           refresh_store E C i current ts w)) = (r, w')"
  shows "\<exists>n s'. schedule E C s (replicate n k) s' \<and> sys_tasks s' k = Finished r \<and> sys_world s' = w' \<and>
    sys_held s' = (sys_held s)(m := None)"
proof -
  obtain r1 w1 where rd: "refresh_read E C i (sys_world s) = (r1, w1)" by force
  show ?thesis
  proof (cases r1)
    case (Inl e)
    let ?s = "releasing m (moved s k (Finished (Inl e)) w1)"
    have "system_step E C s k ?s" using t rd Inl by (auto intro: system_step.read_fails)
    then have "schedule E C s (replicate 1 k) ?s" by (simp add: schedule.move)
    with run rd Inl show ?thesis by (intro exI [of _ 1] exI [of _ ?s]) simp
  next
    case (Inr cur)
    let ?s1 = "moved s k (RefreshAsks i m cur) w1"
    have st1: "system_step E C s k ?s1" using t rd Inr by (auto intro: system_step.read)
    obtain r2 w2 where ask: "refresh_tokens E C (st_refresh cur) w1 = (r2, w2)" by force
    show ?thesis
    proof (cases r2)
      case (Inl e)
      let ?s = "releasing m (moved ?s1 k (Finished (Inl e)) w2)"
      have "system_step E C ?s1 k ?s"
        by (rule system_step.ask_fails [where i = i and cur = cur]) (use ask Inl in simp_all)
      with st1 have "schedule E C s (replicate 2 k) ?s" by (simp add: schedule.move numeral_2_eq_2)
      with run rd \<open>r1 = Inr cur\<close> ask Inl show ?thesis by (intro exI [of _ 2] exI [of _ ?s]) simp
    next
      case (Inr ts)
      let ?s2 = "moved ?s1 k (RefreshAnswered i m cur ts) w2"
      have st2: "system_step E C ?s1 k ?s2"
        by (rule system_step.ask) (use ask Inr in simp_all)
      have fin: "refresh_store E C i cur ts w2 = (r, w')" using run rd \<open>r1 = Inr cur\<close> ask Inr by simp
      let ?s = "releasing m (moved ?s2 k (Finished r) w')"
      have "system_step E C ?s2 k ?s"
        by (rule system_step.store [where i = i and cur = cur and ts = ts]) (use fin in simp_all)
      with st1 st2 have "schedule E C s (replicate 3 k) ?s" by (simp add: schedule.move numeral_3_eq_3)
      then show ?thesis by (intro exI [of _ 3] exI [of _ ?s]) simp
    qed
  qed
qed

lemma refresh_runs_to:
  assumes t: "sys_tasks s k = RefreshStart i" and free: "sys_held s (fst (account_lock i (sys_world s))) = None"
    and run: "refresh_account E C i (sys_world s) = (r, w')"
  shows "runs_to E C s k r w'"
proof -
  obtain m w1 where l: "account_lock i (sys_world s) = (m, w1)" by force
  let ?s1 = "moved s k (RefreshWaits i m) w1"
  let ?s2 = "taking m k (moved ?s1 k (RefreshHolds i m) w1)"
  have st1: "system_step E C s k ?s1" using t l by (auto intro: system_step.lookup_lock)
  have st2: "system_step E C ?s1 k ?s2"
    using system_step.acquire [of ?s1 k i m E C] free l by simp
  have rest: "bindE (refresh_read E C i (sys_world ?s2)) (\<lambda>current w.
      bindE (refresh_tokens E C (st_refresh current) w) (\<lambda>ts w. refresh_store E C i current ts w)) = (r, w')"
    using run l by (simp add: refresh_account_def)
  have t2: "sys_tasks ?s2 k = RefreshHolds i m" "sys_held ?s2 m = Some k" by simp_all
  from refresh_critical [OF t2 rest] obtain n s' where s': "schedule E C ?s2 (replicate n k) s'"
    "sys_tasks s' k = Finished r" "sys_world s' = w'" "sys_held s' = (sys_held ?s2)(m := None)" by blast
  have "sys_held s' = sys_held s" using s'(4) free l by (auto simp: fun_eq_iff)
  moreover have "schedule E C s (replicate (Suc (Suc n)) k) s'"
    using st1 st2 s'(1) by (simp add: schedule.move)
  ultimately show ?thesis using s'(2,3) unfolding runs_to_def by blast
qed

lemma disconnect_runs_to:
  assumes t: "sys_tasks s k = DisconnectStart a" and run: "disconnect E a (sys_world s) = (r, w')"
  shows "runs_to E C s k r w'"
proof -
  obtain r1 w1 where d: "token_delete (acc_id a) (sys_world s) = (r1, w1)" by force
  show ?thesis
  proof (cases r1)
    case (Inl e)
    let ?s = "moved s k (Finished (Inl e)) w1"
    have st: "system_step E C s k ?s" using t d Inl by (auto intro: system_step.drop_fails)
    have "r = Inl e" "w' = w1" using run d Inl by (simp_all add: disconnect_def)
    with runs_to_finished [of ?s k r E C] have "runs_to E C ?s k r w'" by simp
    from runs_to_step [OF st this] show ?thesis by simp
  next
    case (Inr u)
    let ?s1 = "moved s k (DisconnectMarks a) w1"
    let ?s2 = "moved ?s1 k (Finished r) w'"
    have st1: "system_step E C s k ?s1" using t d Inr by (auto intro: system_step.drop_token)
    have m: "account_set_status E (acc_tenant a) (acc_id a) Disconnected w1 = (r, w')"
      using run d Inr by (simp add: disconnect_def)
    have st2: "system_step E C ?s1 k ?s2"
      by (rule system_step.mark [where a = a]) (use m in simp_all)
    from runs_to_finished [of ?s2 k r E C] have "runs_to E C ?s2 k r w'" by simp
    from runs_to_step [OF st1 runs_to_step [OF st2 this]] show ?thesis by simp
  qed
qed

text \<open>A cached access token: the request that got it did nothing else.\<close>

lemma use_runs_to:
  assumes t: "sys_tasks s k = UseStart i" and g: "token_get E (encryption_key C) i (sys_world s) = (Inr x, v)"
    and f: "fresh_read E x v = (Some tok, w)"
  shows "runs_to E C s k (Inr ()) (bump_last_used E C i tok w)"
    and "get_access_token E C i (sys_world s) = (Inr (st_access tok), bump_last_used E C i tok w)"
proof -
  let ?s1 = "moved s k (UseBumps i tok) w" and ?w = "bump_last_used E C i tok w"
  let ?s2 = "moved ?s1 k (Finished (Inr ())) ?w"
  have "system_step E C s k ?s1" by (rule system_step.use [OF t g f])
  moreover have "system_step E C ?s1 k ?s2"
    by (rule system_step.bump [where i = i and tok = tok]) simp_all
  moreover have "runs_to E C ?s2 k (Inr ()) ?w" using runs_to_finished [of ?s2 k "Inr ()" E C] by simp
  ultimately show "runs_to E C s k (Inr ()) ?w" using runs_to_step by (metis moved_simps(3))
  show "get_access_token E C i (sys_world s) = (Inr (st_access tok), ?w)"
    using g f by (auto simp: get_access_token_def fresh_read_def case_prod_unfold Let_def split: option.splits if_splits)
qed

section \<open>Mutual exclusion\<close>

text \<open>Only \<open>account_lock\<close> touches the table of mutexes.\<close>

lemma on_db_locks [simp]: "refresh_locks (snd (on_db f w)) = refresh_locks w"
  by (simp add: on_db_eq)

lemma token_get_locks [simp]: "refresh_locks (snd (token_get E K i w)) = refresh_locks w"
  unfolding token_get_def
  by (rule snd_bindE_keeps [where P = "\<lambda>v. refresh_locks v = refresh_locks w"])
    (auto split: option.splits sum.splits)

lemma encrypt_field_locks [simp]: "refresh_locks (snd (encrypt_field E K x w)) = refresh_locks w"
  by (simp add: encrypt_field_def encrypt_def case_prod_unfold Let_def split: sum.splits)

lemma token_upsert_locks [simp]: "refresh_locks (snd (token_upsert E K i tok w)) = refresh_locks w"
  unfolding token_upsert_def
  by (rule snd_bindE_keeps [where P = "\<lambda>v. refresh_locks v = refresh_locks w"], simp,
      rule snd_bindE_keeps [where P = "\<lambda>v. refresh_locks v = refresh_locks w"]) simp_all

lemma token_delete_locks [simp]: "refresh_locks (snd (token_delete i w)) = refresh_locks w"
  by (simp add: token_delete_def)

lemma set_status_locks [simp]: "refresh_locks (snd (account_set_status E t i s w)) = refresh_locks w"
  by (simp add: account_set_status_def now_def utc_now_def case_prod_unfold Let_def)

lemma refresh_read_locks [simp]: "refresh_locks (snd (refresh_read E C i w)) = refresh_locks w"
  unfolding refresh_read_def
  by (rule snd_bindE_keeps [where P = "\<lambda>v. refresh_locks v = refresh_locks w"]) simp_all

lemma refresh_tokens_locks [simp]: "refresh_locks (snd (refresh_tokens E C rt w)) = refresh_locks w"
  by (simp add: refresh_tokens_def call_idp_def token_set_from_def utc_now_def case_prod_unfold Let_def
      split: sum.splits option.splits)

lemma refresh_store_locks [simp]: "refresh_locks (snd (refresh_store E C i cur ts w)) = refresh_locks w"
  by (simp add: refresh_store_def utc_now_def Let_def)

lemma bump_locks [simp]: "refresh_locks (bump_last_used E C i tok w) = refresh_locks w"
  by (simp add: bump_last_used_def utc_now_def Let_def split: option.splits)

lemma fresh_read_frame [simp]:
  "db (snd (fresh_read E x w)) = db w" "refresh_locks (snd (fresh_read E x w)) = refresh_locks w"
  by (simp_all add: fresh_read_def utc_now_def Let_def split: option.splits)

fun handle :: "task \<Rightarrow> (string \<times> nat) option" where
  "handle (RefreshWaits i m) = Some (i, m)"
| "handle (RefreshHolds i m) = Some (i, m)"
| "handle (RefreshAsks i m _) = Some (i, m)"
| "handle (RefreshAnswered i m _ _) = Some (i, m)"
| "handle _ = None"

fun critical :: "task \<Rightarrow> (string \<times> nat) option" where
  "critical (RefreshHolds i m) = Some (i, m)"
| "critical (RefreshAsks i m _) = Some (i, m)"
| "critical (RefreshAnswered i m _ _) = Some (i, m)"
| "critical _ = None"

lemma critical_handle: "critical t = Some x \<Longrightarrow> handle t = Some x"
  by (cases t) simp_all

definition mutex_ok :: "system \<Rightarrow> bool" where
  "mutex_ok s \<longleftrightarrow> locks_ok (sys_world s) \<and>
     (\<forall>k i m. handle (sys_tasks s k) = Some (i, m) \<longrightarrow> map_of (refresh_locks (sys_world s)) i = Some m) \<and>
     (\<forall>k m. (\<exists>i. critical (sys_tasks s k) = Some (i, m)) \<longleftrightarrow> sys_held s m = Some k)"

lemma mutex_okD:
  assumes "mutex_ok s"
  shows "locks_ok (sys_world s)"
    and "handle (sys_tasks s k) = Some (i, m) \<Longrightarrow> map_of (refresh_locks (sys_world s)) i = Some m"
    and "critical (sys_tasks s k) = Some (i, m) \<Longrightarrow> sys_held s m = Some k"
    and "sys_held s m = Some k \<Longrightarrow> \<exists>i. critical (sys_tasks s k) = Some (i, m)"
  using assms unfolding mutex_ok_def by blast+

text \<open>A step of one task, seen by the mutexes: it stays where it is with respect to them, takes one
  that is free, or gives back the one it has.\<close>

lemma mutex_ok_same:
  assumes ok: "mutex_ok s" and "refresh_locks w = refresh_locks (sys_world s)"
    and "handle t = handle (sys_tasks s k)" and "critical t = critical (sys_tasks s k)"
  shows "mutex_ok (moved s k t w)"
proof -
  have "locks_ok w" using mutex_okD(1) [OF ok] assms(2) by (simp add: locks_ok_def)
  then show ?thesis using ok assms(2-4) unfolding mutex_ok_def by simp
qed

lemma mutex_ok_release:
  assumes ok: "mutex_ok s" and "refresh_locks w = refresh_locks (sys_world s)"
    and c: "critical (sys_tasks s k) = Some (i, m)" and "handle t = None" and "critical t = None"
  shows "mutex_ok (releasing m (moved s k t w))"
proof -
  have l: "locks_ok w" using mutex_okD(1) [OF ok] assms(2) by (simp add: locks_ok_def)
  have held: "sys_held s m = Some k" by (rule mutex_okD(3) [OF ok c])
  have other: "sys_held s n \<noteq> Some k" if "n \<noteq> m" for n
    using mutex_okD(4) [OF ok, of n k] c that by auto
  show ?thesis
    using ok l assms(2,4,5) held other unfolding mutex_ok_def by (auto simp: fun_upd_def split: if_splits)
qed

lemma mutex_ok_step:
  assumes "system_step E C s k s'" and ok: "mutex_ok s"
  shows "mutex_ok s'"
  using assms(1)
proof (cases rule: system_step.cases)
  case (lookup_lock i m w)
  have w: "w = snd (account_lock i (sys_world s))" "m = fst (account_lock i (sys_world s))"
    using lookup_lock(3) by simp_all
  have "locks_ok w" unfolding w by (rule locks_ok_account_lock [OF mutex_okD(1) [OF ok]])
  moreover have "map_of (refresh_locks w) i = Some m" unfolding w by (rule account_lock_maps)
  moreover have "map_of (refresh_locks w) j = Some n" if "handle (sys_tasks s l) = Some (j, n)" for l j n
    unfolding w by (rule account_lock_keeps [OF mutex_okD(2) [OF ok that]])
  moreover have c: "critical (sys_tasks s k) = None" using lookup_lock(2) by simp
  moreover have "sys_held s n \<noteq> Some k" for n using mutex_okD(4) [OF ok, of n k] c by auto
  ultimately show ?thesis using lookup_lock(1) ok unfolding mutex_ok_def by auto
next
  case (acquire i m)
  have free: "sys_held s n \<noteq> Some k" for n using mutex_okD(4) [OF ok, of n k] acquire(2) by auto
  have "critical (sys_tasks s l) \<noteq> Some (j, m)" for l j using mutex_okD(3) [OF ok, of l j m] acquire(3) by auto
  moreover have "map_of (refresh_locks (sys_world s)) i = Some m"
    using mutex_okD(2) [OF ok, of k i m] acquire(2) by simp
  ultimately show ?thesis using free acquire ok unfolding mutex_ok_def by (auto split: if_splits)
next
  case (read i m cur w)
  show ?thesis unfolding read(1)
    by (rule mutex_ok_same [OF ok]) (use read refresh_read_locks [of E C i "sys_world s"] in simp_all)
next
  case (read_fails i m e w)
  show ?thesis unfolding read_fails(1)
    by (rule mutex_ok_release [OF ok]) (use read_fails refresh_read_locks [of E C i "sys_world s"] in simp_all)
next
  case (ask i m cur ts w)
  show ?thesis unfolding ask(1)
    by (rule mutex_ok_same [OF ok])
      (use ask refresh_tokens_locks [of E C "st_refresh cur" "sys_world s"] in simp_all)
next
  case (ask_fails i m cur e w)
  show ?thesis unfolding ask_fails(1)
    by (rule mutex_ok_release [OF ok])
      (use ask_fails refresh_tokens_locks [of E C "st_refresh cur" "sys_world s"] in simp_all)
next
  case (store i m cur ts r w)
  show ?thesis unfolding store(1)
    by (rule mutex_ok_release [OF ok])
      (use store refresh_store_locks [of E C i cur ts "sys_world s"] in simp_all)
next
  case (use i x v tok w)
  show ?thesis unfolding use(1)
    by (rule mutex_ok_same [OF ok])
      (use use token_get_locks [of E "encryption_key C" i "sys_world s"] fresh_read_frame(2) [of E x v] in simp_all)
next
  case (use_stale i x v w)
  show ?thesis unfolding use_stale(1)
    by (rule mutex_ok_same [OF ok])
      (use use_stale token_get_locks [of E "encryption_key C" i "sys_world s"] fresh_read_frame(2) [of E x v] in simp_all)
next
  case (use_fails i e w)
  show ?thesis unfolding use_fails(1)
    by (rule mutex_ok_same [OF ok])
      (use use_fails token_get_locks [of E "encryption_key C" i "sys_world s"] in simp_all)
next
  case (bump i tok w)
  show ?thesis unfolding bump(1)
    by (rule mutex_ok_same [OF ok]) (use bump in auto)
next
  case (drop_token a u w)
  show ?thesis unfolding drop_token(1)
    by (rule mutex_ok_same [OF ok])
      (use drop_token token_delete_locks [of "acc_id a" "sys_world s"] in simp_all)
next
  case (drop_fails a e w)
  show ?thesis unfolding drop_fails(1)
    by (rule mutex_ok_same [OF ok])
      (use drop_fails token_delete_locks [of "acc_id a" "sys_world s"] in simp_all)
next
  case (mark a r w)
  show ?thesis unfolding mark(1)
    by (rule mutex_ok_same [OF ok])
      (use mark set_status_locks [of E "acc_tenant a" "acc_id a" Disconnected "sys_world s"] in simp_all)
qed

lemma mutex_ok_schedule: "schedule E C s ks s' \<Longrightarrow> mutex_ok s \<Longrightarrow> mutex_ok s'"
  by (induction rule: schedule.induct) (blast intro: mutex_ok_step)+

lemma mutex_ok_begins:
  assumes "locks_ok w" and "\<forall>k. start (ts k)"
  shows "mutex_ok (begins ts w)"
proof -
  have "handle (ts k) = None \<and> critical (ts k) = None" for k
    using assms(2) [rule_format, of k] by (cases "ts k") (simp_all add: start_def)
  with assms(1) show ?thesis by (simp add: mutex_ok_def begins_def)
qed

text \<open>Two tasks inside the critical section of one account are one task.\<close>

lemma mutex_exclusive:
  assumes ok: "mutex_ok s" and "critical (sys_tasks s k) = Some (i, m)" and "critical (sys_tasks s l) = Some (i, n)"
  shows "k = l"
proof -
  have "m = n" using mutex_okD(2) [OF ok] critical_handle assms(2,3) by (metis option.inject)
  with mutex_okD(3) [OF ok assms(2)] mutex_okD(3) [OF ok assms(3)] show ?thesis by simp
qed

text \<open>Whoever is not finished can move, or waits for a task that can: nothing deadlocks, and a task
  never waits for a task that works on another account.\<close>

lemma critical_moves:
  assumes "critical (sys_tasks s k) = Some x"
  shows "\<exists>s'. system_step E C s k s'"
proof (cases "sys_tasks s k")
  case (RefreshHolds i m)
  then show ?thesis
    by (cases "refresh_read E C i (sys_world s)"; cases "fst (refresh_read E C i (sys_world s))")
      (auto intro: system_step.read system_step.read_fails)
next
  case (RefreshAsks i m cur)
  then show ?thesis
    by (cases "refresh_tokens E C (st_refresh cur) (sys_world s)";
        cases "fst (refresh_tokens E C (st_refresh cur) (sys_world s))")
      (auto intro: system_step.ask system_step.ask_fails)
next
  case (RefreshAnswered i m cur ts)
  then show ?thesis
    by (cases "refresh_store E C i cur ts (sys_world s)") (auto intro: system_step.store)
qed (use assms in simp_all)

lemma waits_or_moves:
  assumes ok: "mutex_ok s" and "\<forall>r. sys_tasks s k \<noteq> Finished r"
  shows "(\<exists>s'. system_step E C s k s') \<or>
    (\<exists>i m l. sys_tasks s k = RefreshWaits i m \<and> critical (sys_tasks s l) = Some (i, m) \<and>
       (\<exists>s'. system_step E C s l s'))"
proof (cases "sys_tasks s k")
  case (RefreshStart i)
  then show ?thesis by (cases "account_lock i (sys_world s)") (auto intro: system_step.lookup_lock)
next
  case (RefreshWaits i m)
  show ?thesis
  proof (cases "sys_held s m")
    case None
    with RefreshWaits show ?thesis by (auto intro: system_step.acquire)
  next
    case (Some l)
    with mutex_okD(4) [OF ok] obtain j where j: "critical (sys_tasks s l) = Some (j, m)" by blast
    have "map_of (refresh_locks (sys_world s)) i = Some m" "map_of (refresh_locks (sys_world s)) j = Some m"
      using mutex_okD(2) [OF ok, of k i m] mutex_okD(2) [OF ok critical_handle [OF j]] RefreshWaits by simp_all
    then have "i = j" by (rule locks_ok_inj [OF mutex_okD(1) [OF ok]])
    with j RefreshWaits critical_moves [OF j] show ?thesis by blast
  qed
next
  case (UseStart i)
  obtain r v where g: "token_get E (encryption_key C) i (sys_world s) = (r, v)" by force
  show ?thesis
  proof (cases r)
    case (Inl e)
    with g UseStart show ?thesis by (auto intro: system_step.use_fails)
  next
    case (Inr x)
    then show ?thesis using g UseStart
      by (cases "fresh_read E x v"; cases "fst (fresh_read E x v)")
        (auto intro: system_step.use system_step.use_stale)
  qed
next
  case (DisconnectStart a)
  then show ?thesis
    by (cases "token_delete (acc_id a) (sys_world s)"; cases "fst (token_delete (acc_id a) (sys_world s))")
      (auto intro: system_step.drop_token system_step.drop_fails)
next
  case (DisconnectMarks a)
  then show ?thesis
    by (cases "account_set_status E (acc_tenant a) (acc_id a) Disconnected (sys_world s)")
      (auto intro: system_step.mark)
next
  case (UseBumps i tok)
  then show ?thesis by (auto intro: system_step.bump)
qed (use critical_moves assms(2) in force)+

section \<open>Refreshes alone lose nothing\<close>

text \<open>The token a refresh works with, from reading it to storing the answer.\<close>

fun works_with :: "task \<Rightarrow> (string \<times> stored_token) option" where
  "works_with (RefreshAsks i _ cur) = Some (i, cur)"
| "works_with (RefreshAnswered i _ cur _) = Some (i, cur)"
| "works_with _ = None"

fun refresh_task :: "task \<Rightarrow> bool" where
  "refresh_task (UseStart _) = False"
| "refresh_task (UseBumps _ _) = False"
| "refresh_task (DisconnectStart _) = False"
| "refresh_task (DisconnectMarks _) = False"
| "refresh_task _ = True"

definition based_on :: "env \<Rightarrow> config \<Rightarrow> (int \<Rightarrow> bool) \<Rightarrow> system \<Rightarrow> bool" where
  "based_on E C T s \<longleftrightarrow> store_ok E (encryption_key C) T (sys_world s) \<and> (\<forall>k. refresh_task (sys_tasks s k)) \<and>
     (\<forall>k i cur. works_with (sys_tasks s k) = Some (i, cur) \<longrightarrow>
        token_view E (encryption_key C) (sys_world s) i = Some cur) \<and>
     (\<forall>k i m cur ts. sys_tasks s k = RefreshAnswered i m cur ts \<longrightarrow>
        (\<exists>v. fst (refresh_tokens E C (st_refresh cur) v) = Inr ts))"

lemma works_with_critical: "works_with t = Some (i, cur) \<Longrightarrow> \<exists>m. critical t = Some (i, m)"
  by (cases t) simp_all

lemma based_onD:
  assumes "based_on E C T s"
  shows "store_ok E (encryption_key C) T (sys_world s)" and "refresh_task (sys_tasks s k)"
    and "works_with (sys_tasks s k) = Some (i, cur) \<Longrightarrow> token_view E (encryption_key C) (sys_world s) i = Some cur"
    and "sys_tasks s k = RefreshAnswered i m cur ts \<Longrightarrow> \<exists>v. fst (refresh_tokens E C (st_refresh cur) v) = Inr ts"
  using assms unfolding based_on_def by blast+

lemma based_on_moved:
  assumes ok: "based_on E C T s" and "store_ok E (encryption_key C) T w" and "refresh_task t"
    and "\<forall>l i cur. l \<noteq> k \<longrightarrow> works_with (sys_tasks s l) = Some (i, cur) \<longrightarrow>
      token_view E (encryption_key C) w i = token_view E (encryption_key C) (sys_world s) i"
    and "\<forall>i cur. works_with t = Some (i, cur) \<longrightarrow> token_view E (encryption_key C) w i = Some cur"
    and "\<forall>i m cur ts. t = RefreshAnswered i m cur ts \<longrightarrow> (\<exists>v. fst (refresh_tokens E C (st_refresh cur) v) = Inr ts)"
  shows "based_on E C T (moved s k t w)"
proof -
  have "token_view E (encryption_key C) w i = Some cur"
    if "works_with (((sys_tasks s)(k := t)) l) = Some (i, cur)" for l i cur
    using that assms(4,5) based_onD(3) [OF ok, of l i cur] by (cases "l = k") simp_all
  moreover have "\<exists>v. fst (refresh_tokens E C (st_refresh cur) v) = Inr ts"
    if "((sys_tasks s)(k := t)) l = RefreshAnswered i m cur ts" for l i m cur ts
    using that assms(6) based_onD(4) [OF ok, of l i m cur ts] by (cases "l = k") simp_all
  ultimately show ?thesis
    using assms(2,3) based_onD(2) [OF ok] unfolding based_on_def by simp
qed

lemma based_on_held [simp]:
  "based_on E C T (taking m k s) = based_on E C T s" "based_on E C T (releasing m s) = based_on E C T s"
  by (simp_all add: based_on_def)

lemma based_on_db:
  "based_on E C T s \<Longrightarrow> db w = db (sys_world s) \<Longrightarrow>
   store_ok E (encryption_key C) T w \<and> token_view E (encryption_key C) w = token_view E (encryption_key C) (sys_world s)"
  using based_onD(1) store_ok_db token_view_db by metis

lemma based_on_step:
  assumes "system_step E C s k s'" and mx: "mutex_ok s" and ok: "based_on E C T s" and idp: "idp_ok E T"
  shows "based_on E C T s'"
  using assms(1)
proof (cases rule: system_step.cases)
  case (lookup_lock i m w)
  have "db w = db (sys_world s)" using account_lock_eq [OF lookup_lock(3)] by simp
  from based_on_db [OF ok this] show ?thesis unfolding lookup_lock(1)
    by (intro based_on_moved [OF ok]) simp_all
next
  case (acquire i m)
  from based_onD(1) [OF ok] show ?thesis unfolding acquire(1) based_on_held
    by (intro based_on_moved [OF ok]) simp_all
next
  case (read i m cur w)
  note rd = refresh_read_result [OF based_onD(1) [OF ok] read(3)]
  from rd(1,2,5) show ?thesis unfolding read(1) by (intro based_on_moved [OF ok]) simp_all
next
  case (read_fails i m e w)
  note rd = refresh_read_result [OF based_onD(1) [OF ok] read_fails(3)]
  from rd(1,2) show ?thesis unfolding read_fails(1) based_on_held by (intro based_on_moved [OF ok]) simp_all
next
  case (ask i m cur ts w)
  have "db w = db (sys_world s)" using refresh_tokens_frame(1) [of E C "st_refresh cur" "sys_world s"] ask(3) by simp
  moreover have "\<exists>v. fst (refresh_tokens E C (st_refresh cur) v) = Inr ts" using ask(3) by (metis fst_conv)
  moreover have "token_view E (encryption_key C) (sys_world s) i = Some cur"
    using based_onD(3) [OF ok, of k i cur] ask(2) by simp
  ultimately show ?thesis using based_on_db [OF ok, of w] unfolding ask(1)
    by (intro based_on_moved [OF ok]) simp_all
next
  case (ask_fails i m cur e w)
  have "db w = db (sys_world s)"
    using refresh_tokens_frame(1) [of E C "st_refresh cur" "sys_world s"] ask_fails(3) by simp
  from based_on_db [OF ok this] show ?thesis unfolding ask_fails(1) based_on_held
    by (intro based_on_moved [OF ok]) simp_all
next
  case (store i m cur ts r w)
  let ?K = "encryption_key C"
  obtain v where ts: "fst (refresh_tokens E C (st_refresh cur) v) = Inr ts"
    using based_onD(4) [OF ok store(2)] by blast
  have cur: "token_view E ?K (sys_world s) i = Some cur"
    using based_onD(3) [OF ok, of k i cur] store(2) by simp
  note st = refresh_store_result [OF based_onD(1) [OF ok] idp token_view_valid [OF based_onD(1) [OF ok] cur] ts store(3)]
  have other: "token_view E ?K w j = token_view E ?K (sys_world s) j" if "j \<noteq> i" for j
    using st(4,5) that by (cases r) auto
  have "j \<noteq> i" if l: "l \<noteq> k" "works_with (sys_tasks s l) = Some (j, c)" for l j c
  proof
    assume "j = i"
    with works_with_critical [OF l(2)] obtain n where "critical (sys_tasks s l) = Some (i, n)" by blast
    moreover have "critical (sys_tasks s k) = Some (i, m)" using store(2) by simp
    ultimately show False using mutex_exclusive [OF mx] l(1) by blast
  qed
  with other st(1) show ?thesis unfolding store(1) based_on_held
    by (intro based_on_moved [OF ok]) simp_all
qed (use based_onD(2) [OF ok, of k] in simp_all)

lemma based_on_schedule:
  assumes "schedule E C s ks s'" and "mutex_ok s" and "based_on E C T s" and "idp_ok E T"
  shows "based_on E C T s'"
  using assms
proof (induction rule: schedule.induct)
  case (move s k s1 ks s2)
  from based_on_step [OF move.hyps(1) move.prems] mutex_ok_step [OF move.hyps(1) move.prems(1)] move.IH move.prems(3)
  show ?case by blast
qed simp

section \<open>What interleavings keep\<close>

lemma wf_step:
  assumes "system_step E C s k s'" and "wf_db (db (sys_world s))"
  shows "wf_db (db (sys_world s'))"
  using assms(1)
proof (cases rule: system_step.cases)
  case (lookup_lock i m w)
  with assms(2) account_lock_eq [OF lookup_lock(3)] show ?thesis by simp
next
  case (read i m cur w)
  with wf_refresh_read [OF assms(2), of E C i] show ?thesis by simp
next
  case (read_fails i m e w)
  with wf_refresh_read [OF assms(2), of E C i] show ?thesis by simp
next
  case (ask i m cur ts w)
  with refresh_tokens_frame(1) [of E C "st_refresh cur" "sys_world s"] assms(2) show ?thesis by simp
next
  case (ask_fails i m cur e w)
  with refresh_tokens_frame(1) [of E C "st_refresh cur" "sys_world s"] assms(2) show ?thesis by simp
next
  case (store i m cur ts r w)
  with wf_refresh_store [OF assms(2), of E C i cur ts] show ?thesis by simp
next
  case (use i x v tok w)
  with wf_token_get [OF assms(2), of E "encryption_key C" i] fresh_read_frame(1) [of E x v] show ?thesis by simp
next
  case (use_stale i x v w)
  with wf_token_get [OF assms(2), of E "encryption_key C" i] fresh_read_frame(1) [of E x v] show ?thesis by simp
next
  case (use_fails i e w)
  with wf_token_get [OF assms(2), of E "encryption_key C" i] show ?thesis by simp
next
  case (bump i tok w)
  with wf_bump [OF assms(2), of E C i tok] show ?thesis by simp
next
  case (drop_token a u w)
  with wf_token_delete [OF assms(2), of "acc_id a"] show ?thesis by simp
next
  case (drop_fails a e w)
  with wf_token_delete [OF assms(2), of "acc_id a"] show ?thesis by simp
next
  case (mark a r w)
  with wf_account_set_status [OF assms(2), of E "acc_tenant a" "acc_id a" Disconnected] show ?thesis by simp
qed (use assms in simp_all)

lemma wf_schedule:
  "schedule E C s ks s' \<Longrightarrow> wf_db (db (sys_world s)) \<Longrightarrow> wf_db (db (sys_world s'))"
  by (induction rule: schedule.induct) (blast intro: wf_step)+

section \<open>What interleavings lose\<close>

lemma disconnect_healthy:
  assumes "healthy w" and "\<exists>q \<in> set (accounts (db w)). ar_tenant q = acc_tenant a \<and> ar_id q = acc_id a"
  shows "\<exists>w'. disconnect E a w = (Inr (), w') \<and> healthy w'"
proof -
  have quiet: "faults (db w) = []" "\<not> poisoned (db w)" using assms(1) by (simp_all add: healthy_def)
  let ?w1 = "w\<lparr>db := (db w)\<lparr>tokens := filter (\<lambda>t. tr_account t \<noteq> acc_id a) (tokens (db w))\<rparr>\<rparr>"
  have d: "token_delete (acc_id a) w = (Inr (), ?w1)"
    by (simp add: token_delete_def on_db_def quiet run_sql_quiet delete_token_def)
  have "filter (\<lambda>r. ar_tenant r = acc_tenant a \<and> ar_id r = acc_id a) (accounts (db w)) \<noteq> []"
    using assms(2) by (auto simp: filter_empty_conv)
  then have "\<exists>w'. account_set_status E (acc_tenant a) (acc_id a) Disconnected ?w1 = (Inr (), w') \<and> healthy w'"
    by (simp add: account_set_status_def now_def utc_now_def on_db_def quiet run_sql_quiet update_status_def
        healthy_def Let_def)
  with d show ?thesis by (simp add: disconnect_def)
qed

lemma schedule_alone:
  "schedule E C s ks s' \<Longrightarrow> set ks \<subseteq> {k} \<Longrightarrow> l \<noteq> k \<Longrightarrow> sys_tasks s' l = sys_tasks s l"
proof (induction rule: schedule.induct)
  case (move s j s1 ks s2)
  with step_moves_left [OF move.hyps(1)] show ?case by simp
qed simp

text \<open>A row of a token belongs to an account.\<close>

lemma token_view_account:
  assumes "store_ok E K T w" and "token_view E K w i = Some tok"
  shows "\<exists>q \<in> set (accounts (db w)). ar_id q = i"
proof -
  from assms(2) obtain t where t: "t \<in> set (tokens (db w))" "tr_account t = i"
    by (auto simp: token_view_def dest: find_Some_in split: option.splits)
  with wf_fk [OF _ t(1)] assms(1) show ?thesis by (auto simp: store_ok_def)
qed

lemma account_healthy_store:
  assumes ok: "store_ok E (encryption_key C) T w" and idp: "idp_ok E T" and h: "healthy w" and "seals E"
    and acc: "\<exists>q \<in> set (accounts (db w)). ar_id q = i" and cur: "token_valid T cur"
    and ts: "fst (refresh_tokens E C (st_refresh cur) v) = Inr ts"
  shows "\<exists>w' new. refresh_store E C i cur ts w = (Inr (), w') \<and>
    token_view E (encryption_key C) w' = (token_view E (encryption_key C) w)(i \<mapsto> new) \<and> tokens_only w w'"
proof -
  have "healthy (tock (tock w))" "\<exists>r \<in> set (accounts (db (tock (tock w)))). ar_id r = i"
    using h acc by (simp_all add: healthy_def)
  from token_upsert_healthy [OF assms(4) this] obtain w' where run: "refresh_store E C i cur ts w = (Inr (), w')"
    by (auto simp: refresh_store_def utc_now_def)
  from refresh_store_result(3,5) [OF ok idp cur ts run] run show ?thesis by blast
qed

text \<open>A refresh that was waiting for the provider while its account was disconnected stores its answer
  all the same: the account is marked as disconnected, and has a token again.\<close>

definition resurrects :: "env \<Rightarrow> config \<Rightarrow> system \<Rightarrow> string \<Rightarrow> bool" where
  "resurrects E C s i \<longleftrightarrow>
     (\<exists>ks s1 s2. schedule E C s ks s1 \<and> sys_tasks s1 1 = Finished (Inr ()) \<and>
        token_view E (encryption_key C) (sys_world s1) i = None \<and>
        schedule E C s1 [0] s2 \<and> sys_tasks s2 0 = Finished (Inr ()) \<and>
        token_view E (encryption_key C) (sys_world s2) i \<noteq> None \<and>
        (\<forall>b \<in> set (account_rows (sys_world s2)). acc_id b = i \<longrightarrow> acc_status b = Disconnected))"

lemma refresh_resurrects:
  assumes ok: "store_ok E (encryption_key C) T w" and idp: "idp_ok E T" and h: "healthy w" and "seals E"
    and tok: "token_view E (encryption_key C) w (acc_id a) = Some cur"
    and a: "a \<in> set (account_rows w)"
    and cl: "oauth_client E C = Inr cl"
    and resp: "\<forall>n. \<exists>resp. idp E n (ExchangeRefresh cl (st_refresh cur)) = Inr resp"
    and t0: "ts 0 = RefreshStart (acc_id a)" and t1: "ts 1 = DisconnectStart a"
  shows "resurrects E C (begins ts w) (acc_id a)"
proof -
  let ?K = "encryption_key C" and ?i = "acc_id a" and ?s = "begins ts w"
  obtain m w1 where l: "account_lock ?i w = (m, w1)" by force
  have w1: "db w1 = db w" using account_lock_eq [OF l] by simp
  let ?s1 = "moved ?s 0 (RefreshWaits ?i m) w1"
  let ?s2 = "taking m 0 (moved ?s1 0 (RefreshHolds ?i m) w1)"
  have st1: "system_step E C ?s 0 ?s1"
    by (rule system_step.lookup_lock) (use t0 l in \<open>simp_all add: begins_def\<close>)
  have st2: "system_step E C ?s1 0 ?s2"
    using system_step.acquire [of ?s1 0 ?i m E C] by (simp add: begins_def)
  have ok1: "store_ok E ?K T w1" "healthy w1" using ok h w1 by (simp_all add: store_ok_def healthy_def)
  have rd: "refresh_read E C ?i w1 = (Inr cur, w1)"
    using token_get_healthy [OF ok1] token_view_db [OF w1] tok by (simp add: refresh_read_def)
  let ?s3 = "moved ?s2 0 (RefreshAsks ?i m cur) w1"
  have st3: "system_step E C ?s2 0 ?s3" by (rule system_step.read) (use rd in simp_all)
  obtain r where "idp E (tick w1) (ExchangeRefresh cl (st_refresh cur)) = Inr r" using resp by blast
  then obtain tset w2 where ask: "refresh_tokens E C (st_refresh cur) w1 = (Inr tset, w2)"
    using cl by (simp add: refresh_tokens_def call_idp_def case_prod_unfold Let_def)
  have w2: "db w2 = db w" using refresh_tokens_frame(1) [of E C "st_refresh cur" w1] ask w1 by simp
  let ?s4 = "moved ?s3 0 (RefreshAnswered ?i m cur tset) w2"
  have st4: "system_step E C ?s3 0 ?s4" by (rule system_step.ask) (use ask in simp_all)
  have ok2: "store_ok E ?K T w2" "healthy w2" using ok h w2 by (simp_all add: store_ok_def healthy_def)
  have row: "\<exists>q \<in> set (accounts (db w2)). ar_tenant q = acc_tenant a \<and> ar_id q = acc_id a"
    using a w2 by (auto simp: account_rows_def)
  obtain w3 where dis: "disconnect E a w2 = (Inr (), w3)" "healthy w3" using disconnect_healthy [OF ok2(2) row] by blast
  note dr = disconnect_result [OF ok2(1) dis(1)]
  have "sys_tasks ?s4 1 = DisconnectStart a" using t1 by (simp add: begins_def)
  from disconnect_runs_to [OF this, of E "Inr ()" w3 C] dis obtain n s5 where
    s5: "schedule E C ?s4 (replicate n 1) s5" "sys_tasks s5 1 = Finished (Inr ())" "sys_world s5 = w3"
    by (auto simp: runs_to_def)
  have "sys_tasks s5 0 = sys_tasks ?s4 0" by (rule schedule_alone [OF s5(1)]) auto
  then have s50: "sys_tasks s5 0 = RefreshAnswered ?i m cur tset" by simp
  have acc3: "\<exists>q \<in> set (accounts (db w3)). ar_id q = ?i"
  proof -
    have "map acc_id (account_rows w3) = map acc_id (account_rows w2)"
      using dr(5) [of "()"] by (simp add: set_row_status_def)
    then have "ar_id ` set (accounts (db w3)) = ar_id ` set (accounts (db w2))"
      unfolding account_rows_def map_map comp_def of_row_simps by (metis list.set_map)
    with row show ?thesis by (metis (no_types, lifting) image_iff)
  qed
  have valid: "token_valid T cur" by (rule token_view_valid [OF ok tok])
  have fts: "fst (refresh_tokens E C (st_refresh cur) w1) = Inr tset" using ask by simp
  from account_healthy_store [OF dr(1) idp dis(2) assms(4) acc3 valid fts] obtain w4 new where
    sto: "refresh_store E C ?i cur tset w3 = (Inr (), w4)"
    and v4: "token_view E ?K w4 = (token_view E ?K w3)(?i \<mapsto> new)" "tokens_only w3 w4" by blast
  let ?s6 = "releasing m (moved s5 0 (Finished (Inr ())) w4)"
  have st6: "system_step E C s5 0 ?s6"
    by (rule system_step.store [OF s50]) (use sto s5(3) in simp)
  have "schedule E C ?s ([0, 0, 0, 0] @ replicate n 1) s5"
    by (rule schedule_append [OF schedule.move [OF st1 schedule.move [OF st2 schedule.move [OF st3
        schedule.move [OF st4 schedule.stop]]]] s5(1)])
  moreover have "token_view E ?K (sys_world s5) ?i = None" using dr(5) [of "()"] s5(3) by simp
  moreover have "schedule E C s5 [0] ?s6" using st6 by (auto intro: schedule.intros)
  moreover have "\<forall>b \<in> set (account_rows (sys_world ?s6)). acc_id b = ?i \<longrightarrow> acc_status b = Disconnected"
  proof -
    have one: "acc_tenant b = acc_tenant a" if b: "b \<in> set (account_rows w2)" "acc_id b = ?i" for b
    proof -
      have "distinct (map ar_id (accounts (db w)))" using ok by (simp add: store_ok_def wf_ids)
      then have inj: "inj_on ar_id (set (accounts (db w)))" by (simp add: distinct_map)
      obtain q where q: "q \<in> set (accounts (db w))" "b = of_row q" using b(1) w2 by (auto simp: account_rows_def)
      obtain p where p: "p \<in> set (accounts (db w))" "a = of_row p" using a by (auto simp: account_rows_def)
      have "q = p" by (rule inj_onD [OF inj _ q(1) p(1)]) (use b(2) q p in simp)
      with q p show ?thesis by simp
    qed
    have "account_rows w4 = account_rows w3" using v4(2) by (simp add: tokens_only_def account_rows_def)
    with dr(5) [of "()"] one show ?thesis by (auto simp: set_row_status_def)
  qed
  ultimately show ?thesis unfolding resurrects_def using s5(2) v4(1)
    by (intro exI [of _ "[0, 0, 0, 0] @ replicate n 1"] exI [of _ s5] exI [of _ ?s6]) simp
qed

text \<open>A request for an access token that has read the token writes it back whole to note its use, without
  the mutex: a refresh in between is undone, and with it the only copy of a rotated refresh token.\<close>

definition loses_rotation :: "env \<Rightarrow> config \<Rightarrow> system \<Rightarrow> string \<Rightarrow> stored_token \<Rightarrow> bool" where
  "loses_rotation E C s i tok \<longleftrightarrow>
     (\<exists>ks s1 s2 new old. schedule E C s ks s1 \<and> sys_tasks s1 1 = Finished (Inr ()) \<and>
        token_view E (encryption_key C) (sys_world s1) i = Some new \<and> st_refresh new \<noteq> st_refresh tok \<and>
        schedule E C s1 [0] s2 \<and> sys_tasks s2 0 = Finished (Inr ()) \<and>
        token_view E (encryption_key C) (sys_world s2) i = Some old \<and>
        st_refresh old = st_refresh tok \<and> st_access old = st_access tok)"

lemma bump_writes:
  assumes ok: "store_ok E (encryption_key C) T w" and idp: "idp_ok E T" and h: "healthy w" and "seals E"
    and acc: "\<exists>q \<in> set (accounts (db w)). ar_id q = i" and valid: "token_valid T tok"
    and idle: "\<forall>n. case st_last_used tok of None \<Rightarrow> True | Some l \<Rightarrow> clock E n - l > USAGE_WRITE_INTERVAL"
  shows "\<exists>u v. token_view E (encryption_key C) (bump_last_used E C i tok w) i =
    Some (tok\<lparr>st_last_used := u, st_updated := v\<rparr>)"
proof -
  let ?K = "encryption_key C"
  have put: "\<exists>w'. token_upsert E ?K i (tok\<lparr>st_last_used := Some (clock E n), st_updated := clock E (Suc n)\<rparr>) x = (Inr (), w') \<and>
      token_view E ?K w' i = Some (tok\<lparr>st_last_used := Some (clock E n), st_updated := clock E (Suc n)\<rparr>)"
    if "db x = db w" for x n
  proof -
    have x: "store_ok E ?K T x" "healthy x" "\<exists>q \<in> set (accounts (db x)). ar_id q = i"
      using that ok h acc by (simp_all add: store_ok_def healthy_def)
    have "token_valid T (tok\<lparr>st_last_used := Some (clock E n), st_updated := clock E (Suc n)\<rparr>)"
      using valid idp_okD(1) [OF idp] by (simp add: token_valid_def)
    with token_upsert_view(2) [OF x(1) this] token_upsert_healthy [OF assms(4) x(2,3)] show ?thesis
      by (metis fun_upd_same is_err_simps(2))
  qed
  show ?thesis
  proof (cases "st_last_used tok")
    case None
    from put [of "tock (tock w)" "tick w"] obtain w' where w': "token_upsert E ?K i
        (tok\<lparr>st_last_used := Some (clock E (tick w)), st_updated := clock E (Suc (tick w))\<rparr>) (tock (tock w)) = (Inr (), w')"
      and view: "token_view E ?K w' i = Some (tok\<lparr>st_last_used := Some (clock E (tick w)), st_updated := clock E (Suc (tick w))\<rparr>)"
      by auto
    from None w' have "bump_last_used E C i tok w = w'" by (simp add: bump_last_used_def utc_now_def)
    with view show ?thesis by blast
  next
    case (Some l)
    let ?n = "Suc (tick w)"
    from put [of "tock (tock (tock w))" ?n] obtain w' where w': "token_upsert E ?K i
        (tok\<lparr>st_last_used := Some (clock E ?n), st_updated := clock E (Suc ?n)\<rparr>) (tock (tock (tock w))) = (Inr (), w')"
      and view: "token_view E ?K w' i = Some (tok\<lparr>st_last_used := Some (clock E ?n), st_updated := clock E (Suc ?n)\<rparr>)"
      by auto
    from Some idle have "clock E (tick w) - l > USAGE_WRITE_INTERVAL" by simp
    with Some w' have "bump_last_used E C i tok w = w'" by (simp add: bump_last_used_def utc_now_def)
    with view show ?thesis by blast
  qed
qed

lemma use_loses_rotation:
  assumes ok: "store_ok E (encryption_key C) T w" and idp: "idp_ok E T" and h: "healthy w" and "seals E"
    and tok: "token_view E (encryption_key C) w i = Some tok" and fresh: "\<forall>n. fresh_at E n tok"
    and idle: "\<forall>n. case st_last_used tok of None \<Rightarrow> True | Some l \<Rightarrow> clock E n - l > USAGE_WRITE_INTERVAL"
    and cl: "oauth_client E C = Inr cl"
    and resp: "\<forall>n. \<exists>resp rt. idp E n (ExchangeRefresh cl (st_refresh tok)) = Inr resp \<and>
      tp_refresh resp = Some rt \<and> rt \<noteq> st_refresh tok"
    and t0: "ts 0 = UseStart i" and t1: "ts 1 = RefreshStart i"
  shows "loses_rotation E C (begins ts w) i tok"
proof -
  let ?K = "encryption_key C" and ?s = "begins ts w" and ?w = "tock w"
  have g: "token_get E ?K i (sys_world ?s) = (Inr (Some tok), w)"
    using token_get_healthy [OF ok h] tok by (simp add: begins_def)
  have f: "fresh_read E (Some tok) w = (Some tok, ?w)"
    using fresh by (auto simp: fresh_read_def fresh_at_def utc_now_def split: option.splits)
  let ?s1 = "moved ?s 0 (UseBumps i tok) ?w"
  have st1: "system_step E C ?s 0 ?s1"
    by (rule system_step.use [OF _ g f]) (use t0 in \<open>simp add: begins_def\<close>)
  have ok1: "store_ok E ?K T ?w" "healthy ?w" using ok h by (simp_all add: store_ok_def healthy_def)
  have v1: "token_view E ?K ?w i = Some tok" using token_view_db [of ?w w] tok by simp
  have "\<And>n. \<exists>resp. idp E n (ExchangeRefresh cl (st_refresh tok)) = Inr resp" using resp by blast
  from refresh_account_healthy [OF ok1 assms(4) v1 cl this] obtain w2 where
    rf: "refresh_account E C i ?w = (Inr (), w2)" "healthy w2" by blast
  note rr = refresh_account_result [OF ok1(1) idp rf(1)]
  from rr(4) [of "()"] v1 cl obtain n resp new where new: "idp E n (ExchangeRefresh cl (st_refresh tok)) = Inr resp"
    "refreshed tok resp new" "token_view E ?K w2 = (token_view E ?K ?w)(i \<mapsto> new)" by auto
  have rot: "st_refresh new \<noteq> st_refresh tok"
    using new(1,2) resp [rule_format, of n] by (auto simp: refreshed_def)
  have "sys_tasks ?s1 1 = RefreshStart i" "sys_held ?s1 (fst (account_lock i (sys_world ?s1))) = None"
    using t1 by (simp_all add: begins_def)
  from refresh_runs_to [OF this, of E C "Inr ()" w2] rf(1) obtain n s2 where
    s2: "schedule E C ?s1 (replicate n 1) s2" "sys_tasks s2 1 = Finished (Inr ())" "sys_world s2 = w2"
    by (auto simp: runs_to_def)
  have "sys_tasks s2 0 = sys_tasks ?s1 0" by (rule schedule_alone [OF s2(1)]) auto
  then have s20: "sys_tasks s2 0 = UseBumps i tok" by simp
  let ?s3 = "moved s2 0 (Finished (Inr ())) (bump_last_used E C i tok w2)"
  have st3: "system_step E C s2 0 ?s3" by (rule system_step.bump [OF s20]) (use s2(3) in simp)
  have acc: "\<exists>q \<in> set (accounts (db w2)). ar_id q = i"
    by (rule token_view_account [OF rr(1)]) (use new(3) in simp)
  from bump_writes [OF rr(1) idp rf(2) assms(4) acc token_view_valid [OF ok tok] idle] obtain u v where
    old: "token_view E ?K (bump_last_used E C i tok w2) i = Some (tok\<lparr>st_last_used := u, st_updated := v\<rparr>)" by blast
  have "schedule E C ?s (0 # replicate n 1) s2" by (rule schedule.move [OF st1 s2(1)])
  moreover have "schedule E C s2 [0] ?s3" using st3 by (auto intro: schedule.intros)
  ultimately show ?thesis
    unfolding loses_rotation_def using s2(2,3) new(3) rot old
    by (intro exI [of _ "0 # replicate n 1"] exI [of _ s2] exI [of _ ?s3] exI [of _ new]
        exI [of _ "tok\<lparr>st_last_used := u, st_updated := v\<rparr>"]) simp
qed

end
