(* ===== verification/Consents.thy ===== *)
theory Consents
  imports Graph
begin

text \<open>
  Consent callbacks under concurrent requests. \<open>complete_flow\<close> is cut at its two requests over the
  network and between its critical sections of the database; \<open>consent\<close> is where a callback stands and
  \<open>advance\<close> its next move. Undisturbed, the moves of a callback are \<open>complete_flow\<close>. Among any number of
  callbacks, and whatever else the program does in between, a state connects one account at most, and
  one of the tenant the flow was begun for.
\<close>

section \<open>A callback, move by move\<close>

datatype consent =
    Asking string string                                        \<comment> \<open>code, state\<close>
  | Taken string string pending_flow                            \<comment> \<open>code, state\<close>
  | Exchanged string pending_flow token_set string              \<comment> \<open>refresh token\<close>
  | Identified string pending_flow token_set string resolved_identity
  | Named string string account token_set string                \<comment> \<open>tenant\<close>
  | Checked string account stored_token bool                    \<comment> \<open>the row is missing\<close>
  | Rowed string account stored_token
  | Ended string "account result"

fun advance :: "env \<Rightarrow> config \<Rightarrow> resolver \<Rightarrow> consent \<Rightarrow> world \<Rightarrow> consent \<times> world" where
  "advance E C resolve (Asking code s) w =
     (case flow_take E (encryption_key C) s w of
        (Inl e, w) \<Rightarrow> (Ended s (Inl (flow_app_error e)), w)
      | (Inr flow, w) \<Rightarrow> (Taken code s flow, w))"
| "advance E C resolve (Taken code s flow) w =
     (case exchange_code E C code (pf_verifier flow) w of
        (Inl e, w) \<Rightarrow> (Ended s (Inl e), w)
      | (Inr ts, w) \<Rightarrow>
          (case ts_refresh ts of
             None \<Rightarrow> (Ended s (Inl (Auth no_refresh_token)), w)
           | Some refresh_token \<Rightarrow> (Exchanged s flow ts refresh_token, w)))"
| "advance E C resolve (Exchanged s flow ts refresh_token) w =
     (case resolve (ts_access ts) w of
        (Inl e, w) \<Rightarrow> (Ended s (Inl e), w)
      | (Inr identity, w) \<Rightarrow> (Identified s flow ts refresh_token identity, w))"
| "advance E C resolve (Identified s flow ts refresh_token identity) w =
     (case flow_account E (pf_tenant flow) identity w of
        (Inl e, w) \<Rightarrow> (Ended s (Inl e), w)
      | (Inr account, w) \<Rightarrow> (Named s (pf_tenant flow) account ts refresh_token, w))"
| "advance E C resolve (Named s tenant_id account ts refresh_token) w =
     (let (used, w) = utc_now E w; (updated, w) = utc_now E w;
          (found, w) = account_get tenant_id (acc_id account) w
      in (Checked s account (stored_from ts refresh_token used updated) (is_err found), w))"
| "advance E C resolve (Checked s account stored missing) w =
     (if missing then
        (case account_create account w of
           (Inl e, w) \<Rightarrow> (Ended s (Inl e), w)
         | (Inr _, w) \<Rightarrow> (Rowed s account stored, w))
      else (Rowed s account stored, w))"
| "advance E C resolve (Rowed s account stored) w =
     (case token_upsert E (encryption_key C) (acc_id account) stored w of
        (Inl e, w) \<Rightarrow> (Ended s (Inl e), w)
      | (Inr _, w) \<Rightarrow> (Ended s (Inr account), w))"
| "advance E C resolve (Ended s r) w = (Ended s r, w)"

text \<open>What is left to do, in one go.\<close>

fun remaining :: "env \<Rightarrow> config \<Rightarrow> resolver \<Rightarrow> consent \<Rightarrow> world \<Rightarrow> account result \<times> world" where
  "remaining E C resolve (Asking code s) w = complete_flow E C resolve code s w"
| "remaining E C resolve (Taken code s flow) w =
     bindE (exchange_code E C code (pf_verifier flow) w) (\<lambda>ts w.
     bindE (ok_or (Auth no_refresh_token) (ts_refresh ts), w) (\<lambda>refresh_token w.
     bindE (resolve (ts_access ts) w) (\<lambda>identity w.
     bindE (flow_account E (pf_tenant flow) identity w) (\<lambda>account w.
       save_flow E (encryption_key C) (pf_tenant flow) account ts refresh_token w))))"
| "remaining E C resolve (Exchanged s flow ts refresh_token) w =
     bindE (resolve (ts_access ts) w) (\<lambda>identity w.
     bindE (flow_account E (pf_tenant flow) identity w) (\<lambda>account w.
       save_flow E (encryption_key C) (pf_tenant flow) account ts refresh_token w))"
| "remaining E C resolve (Identified s flow ts refresh_token identity) w =
     bindE (flow_account E (pf_tenant flow) identity w) (\<lambda>account w.
       save_flow E (encryption_key C) (pf_tenant flow) account ts refresh_token w)"
| "remaining E C resolve (Named s tenant_id account ts refresh_token) w =
     save_flow E (encryption_key C) tenant_id account ts refresh_token w"
| "remaining E C resolve (Checked s account stored missing) w =
     bindE (if missing then account_create account w else (Inr (), w)) (\<lambda>_ w.
     bindE (token_upsert E (encryption_key C) (acc_id account) stored w) (\<lambda>_ w. (Inr account, w)))"
| "remaining E C resolve (Rowed s account stored) w =
     bindE (token_upsert E (encryption_key C) (acc_id account) stored w) (\<lambda>_ w. (Inr account, w))"
| "remaining E C resolve (Ended s r) w = (r, w)"

fun moves_to_go :: "consent \<Rightarrow> nat" where
  "moves_to_go (Asking _ _) = 7"
| "moves_to_go (Taken _ _ _) = 6"
| "moves_to_go (Exchanged _ _ _ _) = 5"
| "moves_to_go (Identified _ _ _ _ _) = 4"
| "moves_to_go (Named _ _ _ _ _) = 3"
| "moves_to_go (Checked _ _ _ _) = 2"
| "moves_to_go (Rowed _ _ _) = 1"
| "moves_to_go (Ended _ _) = 0"

fun state_of :: "consent \<Rightarrow> string" where
  "state_of (Asking _ s) = s"
| "state_of (Taken _ s _) = s"
| "state_of (Exchanged s _ _ _) = s"
| "state_of (Identified s _ _ _ _) = s"
| "state_of (Named s _ _ _ _) = s"
| "state_of (Checked s _ _ _) = s"
| "state_of (Rowed s _ _) = s"
| "state_of (Ended s _) = s"

lemma remaining_advance:
  "advance E C resolve t w = (t', w') \<Longrightarrow> remaining E C resolve t' w' = remaining E C resolve t w"
  by (cases t) (auto simp: complete_flow_def save_flow_def ok_or_def Let_def case_prod_unfold bindE_def
      split: prod.splits sum.splits option.splits if_splits)

lemma advance_progress:
  "advance E C resolve t w = (t', w') \<Longrightarrow> moves_to_go t' \<le> moves_to_go t - 1 \<and> state_of t' = state_of t"
  by (cases t) (auto simp: Let_def case_prod_unfold split: prod.splits sum.splits option.splits if_splits)

text \<open>Undisturbed, a callback ends after seven moves with the result of \<open>complete_flow\<close>.\<close>

lemma moves_exhaust:
  "moves_to_go t \<le> n \<Longrightarrow> (case_prod (advance E C resolve) ^^ n) (t, w) =
     (let (r, w') = remaining E C resolve t w in (Ended (state_of t) r, w'))"
proof (induction n arbitrary: t w)
  case 0
  then show ?case by (cases t) simp_all
next
  case (Suc n)
  obtain t1 w1 where a: "advance E C resolve t w = (t1, w1)" by force
  note pr = advance_progress [OF a]
  with Suc.prems have "moves_to_go t1 \<le> n" by linarith
  from Suc.IH [OF this, of w1] pr show ?case
    by (simp add: a remaining_advance [OF a] del: funpow.simps(2) add: funpow_Suc_right)
qed

section \<open>Interleavings\<close>

text \<open>The tenant an admitted callback works for: the one of the flow it took, and of the account it ends with.\<close>

fun tenant_for :: "consent \<Rightarrow> string option" where
  "tenant_for (Asking _ _) = None"
| "tenant_for (Taken _ _ flow) = Some (pf_tenant flow)"
| "tenant_for (Exchanged _ flow _ _) = Some (pf_tenant flow)"
| "tenant_for (Identified _ flow _ _ _) = Some (pf_tenant flow)"
| "tenant_for (Named _ _ account _ _) = Some (acc_tenant account)"
| "tenant_for (Checked _ account _ _) = Some (acc_tenant account)"
| "tenant_for (Rowed _ account _) = Some (acc_tenant account)"
| "tenant_for (Ended _ r) = (case r of Inl _ \<Rightarrow> None | Inr account \<Rightarrow> Some (acc_tenant account))"

text \<open>
  Callbacks move in any order; between their moves the rest of the program acts, as far as \<open>meanwhile\<close>
  allows.
\<close>

inductive consents ::
    "env \<Rightarrow> config \<Rightarrow> resolver \<Rightarrow> (world \<Rightarrow> world \<Rightarrow> bool) \<Rightarrow> (nat \<Rightarrow> consent) \<Rightarrow> world \<Rightarrow> (nat \<Rightarrow> consent) \<Rightarrow> world \<Rightarrow> bool"
  for E C resolve meanwhile ts w where
  idle: "consents E C resolve meanwhile ts w ts w"
| moves: "consents E C resolve meanwhile ts w us u \<Longrightarrow> advance E C resolve (us k) u = (t, v) \<Longrightarrow>
     consents E C resolve meanwhile ts w (us(k := t)) v"
| elsewhere: "consents E C resolve meanwhile ts w us u \<Longrightarrow> meanwhile u v \<Longrightarrow>
     consents E C resolve meanwhile ts w us v"

text \<open>Anything but registering a state anew.\<close>

definition never_renews :: "string \<Rightarrow> world \<Rightarrow> world \<Rightarrow> bool" where
  "never_renews s w w' \<longleftrightarrow> flow_view w' s = None \<or> flow_view w' s = flow_view w s"

lemma never_renews_refl [simp]: "never_renews s w w"
  by (simp add: never_renews_def)

lemma never_renews_flows: "oauth_flows (db w') = oauth_flows (db w) \<Longrightarrow> never_renews s w w'"
  by (simp add: never_renews_def flow_view_def)

lemma moves_many:
  "consents E C resolve meanwhile ts w us u \<Longrightarrow> (case_prod (advance E C resolve) ^^ n) (us k, u) = (t, v) \<Longrightarrow>
     consents E C resolve meanwhile ts w (us(k := t)) v"
proof (induction n arbitrary: t v)
  case 0
  then have "us(k := t) = us" "v = u" by auto
  with "0.prems"(1) show ?case by simp
next
  case (Suc n)
  obtain t1 v1 where b: "(case_prod (advance E C resolve) ^^ n) (us k, u) = (t1, v1)" by force
  from Suc.IH [OF Suc.prems(1) b] have c: "consents E C resolve meanwhile ts w (us(k := t1)) v1" .
  have "advance E C resolve ((us(k := t1)) k) v1 = (t, v)" using Suc.prems(2) b by simp
  from consents.moves [OF c this] show ?case unfolding fun_upd_upd .
qed

lemma consent_runs:
  assumes "ts k = Asking code s" and "complete_flow E C resolve code s w = (r, w')"
  shows "consents E C resolve meanwhile ts w (ts(k := Ended s r)) w'"
proof (rule moves_many [OF consents.idle])
  have "moves_to_go (Asking code s) \<le> 7" by simp
  from moves_exhaust [OF this, of E C resolve w] assms
  show "(case_prod (advance E C resolve) ^^ 7) (ts k, w) = (Ended s r, w')" by (simp del: funpow.simps)
qed

context profile_resolver
begin

text \<open>A move keeps the tenant, loses it with an error, or gets it with the flow, which is then gone.\<close>

lemma advance_cases:
  assumes "advance E C resolve t w = (t', w')"
  obtains (lost) "tenant_for t' = None" "never_renews j w w'"
  | (kept) "tenant_for t' = tenant_for t" "never_renews j w w'"
  | (got) row where "flow_view w (state_of t) = Some row" "tenant_for t' = Some (fr_tenant row)"
      "flow_view w' (state_of t) = None" "never_renews j w w'"
proof (cases t)
  case (Asking code s)
  obtain r v where tk: "flow_take E (encryption_key C) s w = (r, v)" by force
  have fv: "never_renews j w v" using flow_view_take(1) [OF tk, of j] unfolding never_renews_def by metis
  show ?thesis
  proof (cases r)
    case (Inl e)
    with assms Asking tk fv lost show ?thesis by auto
  next
    case (Inr flow)
    with flow_take_result [OF tk] obtain row where "flow_view w s = Some row" "pf_tenant flow = fr_tenant row" by auto
    with assms Asking tk Inr fv flow_view_take(2) [OF tk] got show ?thesis by auto
  qed
next
  case (Taken code s flow)
  obtain r v where x: "exchange_code E C code (pf_verifier flow) w = (r, v)" by force
  have "oauth_flows (db v) = oauth_flows (db w)" using exchange_code_frame(1) [of E C code "pf_verifier flow" w] x by simp
  note fv = never_renews_flows [OF this, of j]
  from assms Taken x have "w' = v" "tenant_for t' = None \<or> tenant_for t' = tenant_for t"
    by (auto split: sum.splits option.splits)
  with fv lost kept show ?thesis by auto
next
  case (Exchanged s flow ts rt)
  obtain r v where x: "resolve (ts_access ts) w = (r, v)" by force
  have "oauth_flows (db v) = oauth_flows (db w)" using resolve_law [OF x] by simp
  note fv = never_renews_flows [OF this, of j]
  from assms Exchanged x have "w' = v" "tenant_for t' = None \<or> tenant_for t' = tenant_for t"
    by (auto split: sum.splits)
  with fv lost kept show ?thesis by auto
next
  case (Identified s flow ts rt ident)
  obtain r v where x: "flow_account E (pf_tenant flow) ident w = (r, v)" by force
  have "oauth_flows (db v) = oauth_flows (db w)" using flow_account_result(1) [OF x] by (simp add: same_tables_def)
  note fv = never_renews_flows [OF this, of j]
  from assms Identified x flow_account_result(3) [OF x] have "w' = v" "tenant_for t' = None \<or> tenant_for t' = tenant_for t"
    by (auto split: sum.splits)
  with fv lost kept show ?thesis by auto
next
  case (Named s tn a ts rt)
  let ?w = "snd (utc_now E (snd (utc_now E w)))"
  obtain r v where x: "account_get tn (acc_id a) ?w = (r, v)" by force
  have "db ?w = db w" by (simp add: utc_now_def)
  with account_get_result [OF x] have "oauth_flows (db v) = oauth_flows (db w)" by (simp add: same_tables_def)
  note fv = never_renews_flows [OF this, of j]
  from assms Named x have "w' = v" "tenant_for t' = tenant_for t"
    by (auto simp: case_prod_unfold Let_def)
  with fv kept show ?thesis by auto
next
  case (Checked s a tok missing)
  obtain r v where x: "account_create a w = (r, v)" by force
  have "oauth_flows (db v) = oauth_flows (db w)" using account_create_result [OF x] by simp
  note fv = never_renews_flows [OF this, of j]
  from assms Checked x have "w' = v \<or> w' = w" "tenant_for t' = None \<or> tenant_for t' = tenant_for t"
    by (auto split: sum.splits if_splits)
  with fv lost kept show ?thesis by auto
next
  case (Rowed s a tok)
  obtain r v where x: "token_upsert E (encryption_key C) (acc_id a) tok w = (r, v)" by force
  have "oauth_flows (db v) = oauth_flows (db w)" using token_upsert_result [OF x] by simp
  note fv = never_renews_flows [OF this, of j]
  from assms Rowed x have "w' = v" "tenant_for t' = None \<or> tenant_for t' = tenant_for t"
    by (auto split: sum.splits)
  with fv lost kept show ?thesis by auto
next
  case (Ended s r)
  with assms kept show ?thesis by auto
qed

text \<open>What holds throughout: one callback with the state is admitted at most, it works for the tenant of
  the flow as it was pending at first, and once one is, the state is unknown.\<close>

lemma consents_invariant:
  assumes "consents E C resolve (never_renews s) ts w us u" and "\<forall>k. tenant_for (ts k) = None"
  shows "(flow_view u s = None \<or> flow_view u s = flow_view w s) \<and>
    (\<forall>k t. state_of (us k) = s \<and> tenant_for (us k) = Some t \<longrightarrow>
       flow_view u s = None \<and> (\<exists>row. flow_view w s = Some row \<and> t = fr_tenant row) \<and>
       (\<forall>l. state_of (us l) = s \<and> tenant_for (us l) \<noteq> None \<longrightarrow> l = k))"
  using assms
proof (induction rule: consents.induct)
  case idle
  then show ?case by simp
next
  case (moves us u k t v)
  note IH = moves.IH [OF moves.prems]
  have st: "state_of t = state_of (us k)" using advance_progress [OF moves.hyps(2)] by simp
  from moves.hyps(2) show ?case
  proof (cases rule: advance_cases [where j = s])
    case lost
    then have "tenant_for (us l) = tenant_for ((us(k := t)) l) \<or> tenant_for ((us(k := t)) l) = None" for l by simp
    with IH lost st show ?thesis unfolding never_renews_def by (auto split: if_splits)
  next
    case kept
    then have "tenant_for ((us(k := t)) l) = tenant_for (us l) \<and> state_of ((us(k := t)) l) = state_of (us l)" for l
      using st by simp
    with IH kept show ?thesis unfolding never_renews_def by (metis (no_types, lifting))
  next
    case (got row)
    show ?thesis
    proof (cases "state_of (us k) = s")
      case True
      with got IH have none: "tenant_for (us l) = None" if "state_of (us l) = s" for l
        using that by (cases "tenant_for (us l)") auto
      from True got IH have "flow_view w s = Some row" by auto
      with True got none st show ?thesis by (auto split: if_splits)
    next
      case False
      with IH got st show ?thesis unfolding never_renews_def by (auto split: if_splits)
    qed
  qed
next
  case (elsewhere us u v)
  then show ?case by (auto simp: never_renews_def)
qed

end

section \<open>The store\<close>

text \<open>A callback that is about to store a token has one that can be read back.\<close>

fun carries :: "(int \<Rightarrow> bool) \<Rightarrow> consent \<Rightarrow> bool" where
  "carries T (Exchanged _ _ ts refresh_token) \<longleftrightarrow> (\<forall>u v. T u \<longrightarrow> T v \<longrightarrow> token_valid T (stored_from ts refresh_token u v))"
| "carries T (Identified _ _ ts refresh_token _) \<longleftrightarrow> (\<forall>u v. T u \<longrightarrow> T v \<longrightarrow> token_valid T (stored_from ts refresh_token u v))"
| "carries T (Named _ _ _ ts refresh_token) \<longleftrightarrow> (\<forall>u v. T u \<longrightarrow> T v \<longrightarrow> token_valid T (stored_from ts refresh_token u v))"
| "carries T (Checked _ _ stored _) \<longleftrightarrow> token_valid T stored"
| "carries T (Rowed _ _ stored) \<longleftrightarrow> token_valid T stored"
| "carries T _ \<longleftrightarrow> True"

lemma exchanged_valid:
  assumes idp: "idp_ok E T" and x: "exchange_code E C code v w = (Inr ts, w')" and "ts_refresh ts = Some rt"
    and "T t" and "T u"
  shows "token_valid T (stored_from ts rt t u)"
proof -
  from exchange_code_Inr [of E C code v w ts] x obtain cl resp where resp:
    "idp E (tick w) (ExchangeCode cl code v) = Inr resp"
    "ts_access ts = tp_access resp" "ts_refresh ts = tp_refresh resp"
    "ts_expires ts = map_option (\<lambda>d. clock E (Suc (tick w)) +
      (case chrono_from_std E d of Some s \<Rightarrow> s | None \<Rightarrow> HOUR)) (tp_expires_in resp)" by auto
  have ex: "pred_option T (ts_expires ts)" using idp_okD(4) [OF idp resp(1)] resp(4) by simp
  show ?thesis
    using idp_okD(2,3) [OF idp resp(1)] resp(2) resp(3) [symmetric] assms(3-5) ex by (intro stored_from_valid) simp_all
qed

context profile_resolver
begin

lemma advance_store_ok:
  assumes ok: "store_ok E (encryption_key C) T w" and idp: "idp_ok E T" and c: "carries T t"
    and run: "advance E C resolve t w = (t', w')"
  shows "store_ok E (encryption_key C) T w' \<and> carries T t'"
proof (cases t)
  case (Asking code s)
  obtain r v where tk: "flow_take E (encryption_key C) s w = (r, v)" by force
  have "wf_db (db v)" using wf_flow_take [of w E "encryption_key C" s] tk ok by (simp add: store_ok_def)
  with ok flow_take_result [OF tk] have "store_ok E (encryption_key C) T v" by (simp add: store_ok_def tokens_ok_def)
  with run Asking tk show ?thesis by (auto split: sum.splits)
next
  case (Taken code s flow)
  obtain r v where x: "exchange_code E C code (pf_verifier flow) w = (r, v)" by force
  have "db v = db w" using exchange_code_frame(1) [of E C code "pf_verifier flow" w] x by simp
  from store_ok_db [OF this] ok have okv: "store_ok E (encryption_key C) T v" by blast
  show ?thesis
  proof (cases r)
    case (Inl e)
    with run Taken x okv show ?thesis by auto
  next
    case (Inr ts)
    with run Taken x okv exchanged_valid [OF idp, of C code "pf_verifier flow" w ts v] show ?thesis
      by (auto split: option.splits)
  qed
next
  case (Exchanged s flow ts rt)
  obtain r v where x: "resolve (ts_access ts) w = (r, v)" by force
  have "db v = db w" using resolve_law [OF x] by simp
  from store_ok_db [OF this] ok have "store_ok E (encryption_key C) T v" by blast
  with run Exchanged x c show ?thesis by (auto split: sum.splits)
next
  case (Identified s flow ts rt ident)
  obtain r v where x: "flow_account E (pf_tenant flow) ident w = (r, v)" by force
  have "store_ok E (encryption_key C) T v" by (rule store_ok_cong [OF flow_account_result(1) [OF x] ok])
  with run Identified x c show ?thesis by (auto split: sum.splits)
next
  case (Named s tn a ts rt)
  let ?w = "tock (tock w)"
  obtain r v where x: "account_get tn (acc_id a) ?w = (r, v)" by force
  have "same_tables (db ?w) (db v)" using account_get_result [OF x] by simp
  moreover have "store_ok E (encryption_key C) T ?w" using ok store_ok_db [of ?w w] by simp
  ultimately have "store_ok E (encryption_key C) T v" by (rule store_ok_cong)
  moreover have "token_valid T (stored_from ts rt (clock E (tick w)) (clock E (Suc (tick w))))"
    using c Named idp_okD(1) [OF idp] by simp
  ultimately show ?thesis using run Named x by (auto simp: utc_now_def)
next
  case (Checked s a tok missing)
  obtain r v where x: "account_create a w = (r, v)" by force
  have "wf_db (db v)" using wf_account_create [of w a] x ok by (simp add: store_ok_def)
  with ok account_create_result [OF x] have "store_ok E (encryption_key C) T v" by (simp add: store_ok_def tokens_ok_def)
  with run Checked x c ok show ?thesis by (auto split: sum.splits if_splits)
next
  case (Rowed s a tok)
  obtain r v where x: "token_upsert E (encryption_key C) (acc_id a) tok w = (r, v)" by force
  from c Rowed have "token_valid T tok" by simp
  from token_upsert_view(1) [OF ok this x] run Rowed x show ?thesis by (auto split: sum.splits)
next
  case (Ended s r)
  with run ok show ?thesis by auto
qed

lemma consents_store_ok:
  assumes "consents E C resolve meanwhile ts w us u" and "store_ok E (encryption_key C) T w" and "idp_ok E T"
    and "\<forall>k. carries T (ts k)"
    and between: "\<And>v v'. store_ok E (encryption_key C) T v \<Longrightarrow> meanwhile v v' \<Longrightarrow> store_ok E (encryption_key C) T v'"
  shows "store_ok E (encryption_key C) T u \<and> (\<forall>k. carries T (us k))"
  using assms(1)
proof (induction rule: consents.induct)
  case idle
  from assms show ?case by blast
next
  case (moves us u k t v)
  with advance_store_ok [OF _ assms(3) _ moves.hyps(2)] show ?case by auto
next
  case (elsewhere us u v)
  with between show ?case by blast
qed

end

section \<open>Two callbacks for one new account\<close>

definition already_connected :: "account \<Rightarrow> app_error" where
  "already_connected a = InvalidRequest (''account '' @ acc_email a @ '' is already connected for this tenant'')"

text \<open>The table has an account of the tenant with the address.\<close>

definition has_row :: "string \<Rightarrow> string \<Rightarrow> world \<Rightarrow> bool" where
  "has_row t e w \<longleftrightarrow> (\<exists>q \<in> set (accounts (db w)). ar_tenant q = t \<and> ar_email q = e)"

lemma has_row_more: "has_row t e w \<Longrightarrow> set (accounts (db w)) \<subseteq> set (accounts (db w')) \<Longrightarrow> has_row t e w'"
  by (auto simp: has_row_def)

lemma account_create_once:
  assumes run: "account_create a w = (r, w')"
  shows "(r = Inr () \<and> \<not> has_row (acc_tenant a) (acc_email a) w \<and> has_row (acc_tenant a) (acc_email a) w') \<or>
    r = Inl (already_connected a) \<or> (\<exists>m. r = Inl (Storage m))"
proof (cases "poisoned (db w)")
  case True
  with run show ?thesis by (auto simp: account_create_def with_lock_def on_db_eq)
next
  case False
  obtain r0 d0 where ex: "exec_sql (insert_account (to_row a)) (db w) = (r0, d0)" by force
  then have out: "r = map_err (\<lambda>e. case e of ConstraintViolation _ \<Rightarrow> already_connected a | SqlFailure m \<Rightarrow> Storage m) r0"
    "w' = w\<lparr>db := d0\<rparr>"
    using run False unfolding already_connected_def
    by (auto simp: account_create_def with_lock_def on_db_eq map_err_def split: sum.splits sql_error.splits)
  from ex show ?thesis
  proof (cases rule: exec_sql_cases)
    case (failed m fs)
    with out show ?thesis by simp
  next
    case (ran fs)
    then show ?thesis using out by (auto simp: insert_account_def has_row_def split: if_splits)
  qed
qed

text \<open>A callback that is about to insert the row, or was turned away when it tried.\<close>

definition turned_away :: "string \<Rightarrow> account \<Rightarrow> stored_token \<Rightarrow> consent \<Rightarrow> bool" where
  "turned_away s a tok t \<longleftrightarrow> t = Checked s a tok True \<or> t = Ended s (Inl (already_connected a)) \<or>
     (\<exists>m. t = Ended s (Inl (Storage m)))"

lemma advance_turned:
  assumes "advance E C resolve t w = (t', w')" and "turned_away s a tok t"
  shows "turned_away s a tok t' \<or>
    (\<not> has_row (acc_tenant a) (acc_email a) w \<and> has_row (acc_tenant a) (acc_email a) w')"
proof (cases "t = Checked s a tok True")
  case True
  obtain r v where c: "account_create a w = (r, v)" by force
  from account_create_once [OF c] show ?thesis
    using assms(1) True c by (auto simp: turned_away_def)
next
  case False
  with assms show ?thesis by (auto simp: turned_away_def)
qed

context profile_resolver
begin

lemma advance_rows:
  assumes "advance E C resolve t w = (t', w')"
  shows "set (accounts (db w)) \<subseteq> set (accounts (db w'))"
proof (cases t)
  case (Asking code s)
  obtain r v where tk: "flow_take E (encryption_key C) s w = (r, v)" by force
  with assms Asking flow_take_result [OF tk] show ?thesis by (auto split: sum.splits)
next
  case (Taken code s flow)
  obtain r v where x: "exchange_code E C code (pf_verifier flow) w = (r, v)" by force
  then have "db v = db w" using exchange_code_frame(1) [of E C code "pf_verifier flow" w] by simp
  with assms Taken x show ?thesis by (auto split: sum.splits option.splits)
next
  case (Exchanged s flow ts rt)
  obtain r v where x: "resolve (ts_access ts) w = (r, v)" by force
  with assms Exchanged resolve_law [OF x] show ?thesis by (auto split: sum.splits)
next
  case (Identified s flow ts rt ident)
  obtain r v where x: "flow_account E (pf_tenant flow) ident w = (r, v)" by force
  with assms Identified flow_account_result(1) [OF x] show ?thesis by (auto simp: same_tables_def split: sum.splits)
next
  case (Named s tn a ts rt)
  let ?w = "snd (utc_now E (snd (utc_now E w)))"
  obtain r v where x: "account_get tn (acc_id a) ?w = (r, v)" by force
  have "db ?w = db w" by (simp add: utc_now_def)
  with assms Named x account_get_result [OF x] show ?thesis by (auto simp: same_tables_def case_prod_unfold Let_def)
next
  case (Checked s a tok missing)
  obtain r v where x: "account_create a w = (r, v)" by force
  have "set (accounts (db w)) \<subseteq> set (accounts (db v))"
    using account_create_result [OF x] by (auto simp: same_tables_def)
  with assms Checked x show ?thesis by (auto split: sum.splits if_splits)
next
  case (Rowed s a tok)
  obtain r v where x: "token_upsert E (encryption_key C) (acc_id a) tok w = (r, v)" by force
  with assms Rowed token_upsert_result [OF x] show ?thesis by (auto split: sum.splits)
next
  case (Ended s r)
  with assms show ?thesis by auto
qed

text \<open>A state that is unknown stays so.\<close>

lemma consents_gone:
  assumes "consents E C resolve meanwhile ts w us u" and "flow_view w s = None"
    and "\<forall>v v'. meanwhile v v' \<longrightarrow> never_renews s v v'"
  shows "flow_view u s = None"
  using assms(1)
proof (induction rule: consents.induct)
  case (moves us u k t v)
  have "never_renews s u v" using moves.hyps(2) by (cases rule: advance_cases [where j = s]) auto
  with moves.IH show ?case by (simp add: never_renews_def)
next
  case (elsewhere us u v)
  with assms(3) have "never_renews s u v" by blast
  with elsewhere.IH show ?case by (auto simp: never_renews_def)
qed (rule assms(2))

text \<open>Of two that have found no row of theirs, one is turned away.\<close>

lemma consents_exclude:
  assumes run: "consents E C resolve meanwhile us u vs v" and ij: "i \<noteq> j"
    and i: "us i = Checked si a tok True" and j: "us j = Checked sj b tok' True"
    and same: "acc_tenant b = acc_tenant a" "acc_email b = acc_email a"
    and keeps: "\<forall>x x'. meanwhile x x' \<longrightarrow> has_row (acc_tenant a) (acc_email a) x \<longrightarrow> has_row (acc_tenant a) (acc_email a) x'"
  shows "(turned_away si a tok (vs i) \<or> turned_away sj b tok' (vs j)) \<and>
    (has_row (acc_tenant a) (acc_email a) v \<or> turned_away si a tok (vs i) \<and> turned_away sj b tok' (vs j))"
  using run
proof (induction rule: consents.induct)
  case idle
  with i j show ?case by (simp add: turned_away_def)
next
  case (moves vs v k t v')
  let ?row = "has_row (acc_tenant a) (acc_email a)"
  have rows: "?row v \<Longrightarrow> ?row v'" using advance_rows [OF moves.hyps(2)] has_row_more by blast
  have ti: "turned_away si a tok t \<or> (\<not> ?row v \<and> ?row v')" if "k = i" "turned_away si a tok (vs i)"
    using advance_turned [OF moves.hyps(2)] that by blast
  have tj: "turned_away sj b tok' t \<or> (\<not> ?row v \<and> ?row v')" if "k = j" "turned_away sj b tok' (vs j)"
    using advance_turned [OF moves.hyps(2), of sj b tok'] that unfolding same by blast
  consider "k = i" | "k = j" | "k \<noteq> i" "k \<noteq> j" by blast
  then show ?case
  proof cases
    case 1
    with ij ti rows moves.IH show ?thesis by auto
  next
    case 2
    with ij tj rows moves.IH show ?thesis by auto
  next
    case 3
    with rows moves.IH show ?thesis by auto
  qed
next
  case (elsewhere vs v v')
  with keeps show ?case by blast
qed

text \<open>The second of two such callbacks fails, and its flow is spent.\<close>

lemma consents_second_fails:
  assumes none: "\<forall>k. tenant_for (ts k) = None" and run: "consents E C resolve meanwhile ts w us u"
    and i: "us i = Checked si a tok True" and j: "us j = Checked sj b tok' True" and ij: "i \<noteq> j"
    and same: "acc_tenant b = acc_tenant a" "acc_email b = acc_email a"
    and rest: "consents E C resolve meanwhile us u vs v" and ended: "vs i = Ended si (Inr a')"
    and flows: "\<forall>x x'. meanwhile x x' \<longrightarrow> never_renews sj x x'"
    and keeps: "\<forall>x x'. meanwhile x x' \<longrightarrow> has_row (acc_tenant a) (acc_email a) x \<longrightarrow> has_row (acc_tenant a) (acc_email a) x'"
  shows "flow_view v sj = None \<and> turned_away sj b tok' (vs j)"
proof
  have "consents E C resolve (never_renews sj) ts w us u"
    using run
  proof (induction rule: consents.induct)
    case (moves us u k t v)
    show ?case by (rule consents.moves [OF moves.IH moves.hyps(2)])
  qed (auto intro: consents.intros simp: flows)
  note inv = consents_invariant [OF this none]
  have "state_of (us j) = sj" "tenant_for (us j) = Some (acc_tenant b)" using j by simp_all
  then have "flow_view u sj = None" using inv [THEN conjunct2, rule_format, of j "acc_tenant b"] by simp
  from consents_gone [OF rest this flows] show "flow_view v sj = None" .
  have "\<not> turned_away si a tok (vs i)" using ended by (simp add: turned_away_def)
  with consents_exclude [OF rest ij i j same keeps] show "turned_away sj b tok' (vs j)" by blast
qed

end

lemma consents_trans:
  "consents E C resolve meanwhile us u vs v \<Longrightarrow> consents E C resolve meanwhile ts w us u \<Longrightarrow>
   consents E C resolve meanwhile ts w vs v"
proof (induction rule: consents.induct)
  case (moves vs v k t v')
  show ?case by (rule consents.moves [OF moves.IH [OF moves.prems] moves.hyps(2)])
qed (auto intro: consents.intros)

text \<open>The moves of a callback for an account that is not there yet, on an engine without failures.\<close>

lemma identified_new:
  assumes "healthy w"
    and "\<not> (\<exists>q \<in> set (accounts (db w)). ar_tenant q = pf_tenant f \<and> sql_lower (ar_email q) = sql_lower (id_email ident))"
  shows "\<exists>b w'. advance E C resolve (Identified s f ts rt ident) w = (Named s (pf_tenant f) b ts rt, w') \<and>
    acc_tenant b = pf_tenant f \<and> acc_email b = id_email ident \<and> acc_id b = uuids E (tick w) \<and> db w' = db w"
proof -
  have "List.find (\<lambda>q. ar_tenant q = pf_tenant f \<and> sql_lower (ar_email q) = sql_lower (id_email ident)) (accounts (db w)) = None"
    using assms(2) by (simp add: find_None_iff_all)
  with account_get_by_email_healthy [OF assms(1)] show ?thesis
    by (simp add: flow_account_def now_def utc_now_def Let_def)
qed

lemma named_new:
  assumes "healthy w" and "acc_id b \<notin> ar_id ` set (accounts (db w))"
  shows "\<exists>tok w'. advance E C resolve (Named s t b ts rt) w = (Checked s b tok True, w') \<and> db w' = db w"
proof -
  have "List.find (\<lambda>q. ar_tenant q = t \<and> ar_id q = acc_id b) (accounts (db w)) = None"
    unfolding find_None_iff_all using assms(2) by (metis imageI)
  moreover have "healthy (tock (tock w))" using assms(1) by (simp add: healthy_def)
  ultimately show ?thesis using account_get_healthy [of "tock (tock w)"] by (simp add: utc_now_def)
qed

lemma checked_new:
  assumes "seals E" and h: "healthy w" and "acc_id b \<notin> ar_id ` set (accounts (db w))"
    and "\<not> (\<exists>q \<in> set (accounts (db w)). ar_tenant q = acc_tenant b \<and> ar_email q = acc_email b)"
  shows "\<exists>v w'. advance E C resolve (Checked s b tok True) w = (Rowed s b tok, v) \<and>
    advance E C resolve (Rowed s b tok) v = (Ended s (Inr b), w') \<and> healthy w' \<and>
    accounts (db w') = accounts (db w) @ [to_row b]"
proof -
  let ?v = "w\<lparr>db := (db w)\<lparr>accounts := accounts (db w) @ [to_row b]\<rparr>\<rparr>"
  have c: "account_create b w = (Inr (), ?v)" by (rule account_create_healthy [OF assms(2-4)])
  have "healthy ?v" and row: "\<exists>r \<in> set (accounts (db ?v)). ar_id r = acc_id b" using h by (simp_all add: healthy_def)
  from token_upsert_healthy [OF assms(1) this] obtain w' where
    u: "token_upsert E (encryption_key C) (acc_id b) tok ?v = (Inr (), w')" "healthy w'" by blast
  from token_upsert_result [OF u(1)] have "accounts (db w') = accounts (db w) @ [to_row b]" by simp
  with c u show ?thesis by simp
qed

lemma checked_taken:
  assumes "healthy w" and "\<exists>q \<in> set (accounts (db w)). ar_tenant q = acc_tenant b \<and> ar_email q = acc_email b"
  shows "advance E C resolve (Checked s b tok True) w = (Ended s (Inl (already_connected b)), w)"
proof -
  have "\<exists>m. insert_account (to_row b) (db w) = (Inl (ConstraintViolation m), db w)"
    using assms(2) by (auto simp: insert_account_def)
  with assms(1) have "account_create b w = (Inl (already_connected b), w)"
    by (auto simp: account_create_def healthy_def on_db_def Let_def already_connected_def)
  then show ?thesis by simp
qed

text \<open>Both look the account up before either stores it: the first connects it, the second fails.\<close>

lemma consent_step:
  "consents E C resolve meanwhile ts w us u \<Longrightarrow> us k = t \<Longrightarrow> advance E C resolve t u = (t', v) \<Longrightarrow>
     consents E C resolve meanwhile ts w (us(k := t')) v"
  using consents.moves by metis

lemma consents_both_checked:
  assumes h: "healthy w" and ij: "i \<noteq> j"
    and ti: "ts i = Identified si fi tsi rti ident" and tj: "ts j = Identified sj fj tsj rtj ident"
    and ten: "pf_tenant fj = pf_tenant fi"
    and new: "\<not> (\<exists>q \<in> set (accounts (db w)). ar_tenant q = pf_tenant fi \<and> sql_lower (ar_email q) = sql_lower (id_email ident))"
    and ids: "\<And>n. uuids E n \<notin> ar_id ` set (accounts (db w))"
  shows "\<exists>us u a tok b tok'. consents E C resolve meanwhile ts w us u \<and>
    us i = Checked si a tok True \<and> us j = Checked sj b tok' True \<and> db u = db w \<and>
    acc_tenant a = pf_tenant fi \<and> acc_email a = id_email ident \<and> acc_id a \<in> range (uuids E) \<and>
    acc_tenant b = pf_tenant fi \<and> acc_email b = id_email ident"
proof -
  let ?adv = "advance E C resolve" and ?run = "consents E C resolve meanwhile ts w"
  from identified_new [OF h new] ti obtain a w1 where a: "?adv (ts i) w = (Named si (pf_tenant fi) a tsi rti, w1)"
    "acc_tenant a = pf_tenant fi" "acc_email a = id_email ident" "acc_id a = uuids E (tick w)" "db w1 = db w" by metis
  define us1 where "us1 = ts(i := Named si (pf_tenant fi) a tsi rti)"
  have r1: "?run us1 w1" unfolding us1_def by (rule consent_step [OF consents.idle _ a(1)]) (rule HOL.refl)
  have h1: "healthy w1" using h a(5) by (simp add: healthy_def)
  have new1: "\<not> (\<exists>q \<in> set (accounts (db w1)). ar_tenant q = pf_tenant fj \<and> sql_lower (ar_email q) = sql_lower (id_email ident))"
    using new ten a(5) by simp
  from identified_new [OF h1 new1] tj obtain b w2 where b: "?adv (ts j) w1 = (Named sj (pf_tenant fj) b tsj rtj, w2)"
    "acc_tenant b = pf_tenant fj" "acc_email b = id_email ident" "acc_id b = uuids E (tick w1)" "db w2 = db w1" by metis
  define us2 where "us2 = us1(j := Named sj (pf_tenant fj) b tsj rtj)"
  have r2: "?run us2 w2" unfolding us2_def by (rule consent_step [OF r1 _ b(1)]) (use ij in \<open>simp add: us1_def\<close>)
  have "healthy w2" "acc_id a \<notin> ar_id ` set (accounts (db w2))" using h1 ids a b by (simp_all add: healthy_def)
  from named_new [OF this] obtain tok w3 where c:
    "?adv (Named si (pf_tenant fi) a tsi rti) w2 = (Checked si a tok True, w3)" "db w3 = db w2" by metis
  define us3 where "us3 = us2(i := Checked si a tok True)"
  have r3: "?run us3 w3" unfolding us3_def by (rule consent_step [OF r2 _ c(1)]) (use ij in \<open>simp add: us1_def us2_def\<close>)
  have "healthy w3" "acc_id b \<notin> ar_id ` set (accounts (db w3))" using h1 ids b c by (simp_all add: healthy_def a(5))
  from named_new [OF this] obtain tok' w4 where d:
    "?adv (Named sj (pf_tenant fj) b tsj rtj) w3 = (Checked sj b tok' True, w4)" "db w4 = db w3" by metis
  have "?run (us3(j := Checked sj b tok' True)) w4"
    by (rule consent_step [OF r3 _ d(1)]) (use ij in \<open>simp add: us2_def us3_def\<close>)
  moreover have "(us3(j := Checked sj b tok' True)) i = Checked si a tok True" using ij by (simp add: us3_def)
  moreover have "db w4 = db w" "acc_id a \<in> range (uuids E)" "acc_tenant b = pf_tenant fi" using a b c d ten by simp_all
  ultimately show ?thesis using a(2,3) b(3)
    by (intro exI [of _ "us3(j := Checked sj b tok' True)"] exI [of _ w4] exI [of _ a] exI [of _ tok] exI [of _ b] exI [of _ tok']) simp
qed

text \<open>From the callback to the identified user, on an engine without failures.\<close>

lemma asking_identified:
  assumes h: "healthy w" and row: "flow_view w s = Some row"
    and fresh: "\<not> saturating_sub (unix_time E (tick w)) (fr_created row) > FLOW_TTL_SECS"
    and dec: "decrypt E (encryption_key C) (fr_verifier row) = Inr (as_bytes v)" and v: "rust_str v"
    and cl: "oauth_client E C = Inr cl"
    and resp: "\<And>n. \<exists>resp rt. idp E n (ExchangeCode cl code v) = Inr resp \<and> tp_refresh resp = Some rt"
    and res: "\<And>x u. \<exists>u'. resolve x u = (Inr ident, u') \<and> db u' = db u"
  shows "\<exists>f ts rt w'. (case_prod (advance E C resolve) ^^ 3) (Asking code s, w) = (Identified s f ts rt ident, w') \<and>
    pf_tenant f = fr_tenant row \<and> healthy w' \<and> accounts (db w') = accounts (db w) \<and>
    (\<forall>j. j \<noteq> s \<longrightarrow> flow_view w' j = flow_view w j)"
proof -
  let ?f = "\<lparr>pf_verifier = v, pf_tenant = fr_tenant row, pf_created = fr_created row\<rparr>"
  obtain w1 where t: "flow_take E (encryption_key C) s w = (Inr ?f, w1)"
    and w1: "healthy w1" "accounts (db w1) = accounts (db w)"
    using flow_take_healthy [OF h row fresh dec v] by blast
  obtain r rt where r: "idp E (tick w1) (ExchangeCode cl code v) = Inr r" "tp_refresh r = Some rt"
    using resp by blast
  obtain ts w2 where x: "exchange_code E C code v w1 = (Inr ts, w2)" and ts: "ts_refresh ts = Some rt"
    using cl r by (simp add: exchange_code_def call_idp_def case_prod_unfold Let_def)
  have w2: "db w2 = db w1" using exchange_code_frame(1) [of E C code v w1] x by simp
  obtain w3 where p: "resolve (ts_access ts) w2 = (Inr ident, w3)" and w3: "db w3 = db w2" using res by blast
  have "(case_prod (advance E C resolve) ^^ 3) (Asking code s, w) = (Identified s ?f ts rt ident, w3)"
    using t x ts p by (simp add: numeral_3_eq_3)
  moreover have "flow_view w3 j = flow_view w j" if "j \<noteq> s" for j
    using flow_view_take(3) [OF t that] w2 w3 by (simp add: flow_view_def)
  ultimately show ?thesis using w1 w2 w3 by (intro exI [of _ ?f] exI [of _ ts] exI [of _ rt] exI [of _ w3]) (simp add: healthy_def)
qed

lemma consents_both_identified:
  assumes h: "healthy w" and ij: "i \<noteq> j" and ti: "ts i = Asking code si" and tj: "ts j = Asking code sj" and "si \<noteq> sj"
    and ri: "flow_view w si = Some ri" and rj: "flow_view w sj = Some rj"
    and fresh: "\<And>n. \<not> saturating_sub (unix_time E n) (fr_created ri) > FLOW_TTL_SECS"
      "\<And>n. \<not> saturating_sub (unix_time E n) (fr_created rj) > FLOW_TTL_SECS"
    and dec: "decrypt E (encryption_key C) (fr_verifier ri) = Inr (as_bytes v)"
      "decrypt E (encryption_key C) (fr_verifier rj) = Inr (as_bytes v)" and v: "rust_str v"
    and cl: "oauth_client E C = Inr cl"
    and resp: "\<And>n. \<exists>resp rt. idp E n (ExchangeCode cl code v) = Inr resp \<and> tp_refresh resp = Some rt"
    and res: "\<And>x u. \<exists>u'. resolve x u = (Inr ident, u') \<and> db u' = db u"
  shows "\<exists>us u fi tsi rti fj tsj rtj. consents E C resolve meanwhile ts w us u \<and>
    us i = Identified si fi tsi rti ident \<and> us j = Identified sj fj tsj rtj ident \<and> pf_tenant fi = fr_tenant ri \<and>
    pf_tenant fj = fr_tenant rj \<and> healthy u \<and> accounts (db u) = accounts (db w)"
proof -
  let ?run = "consents E C resolve meanwhile ts w" and ?adv = "case_prod (advance E C resolve)"
  obtain fi tsi rti w1 where a: "(?adv ^^ 3) (Asking code si, w) = (Identified si fi tsi rti ident, w1)"
    "pf_tenant fi = fr_tenant ri" "healthy w1" "accounts (db w1) = accounts (db w)"
    "\<forall>x. x \<noteq> si \<longrightarrow> flow_view w1 x = flow_view w x"
    using asking_identified [OF h ri fresh(1) dec(1) v cl resp, where resolve = resolve, OF res] by blast
  define us where "us = ts(i := Identified si fi tsi rti ident)"
  have r1: "?run us w1" unfolding us_def by (rule moves_many [OF consents.idle]) (use a(1) ti in simp)
  have rj1: "flow_view w1 sj = Some rj" using a(5) rj assms(5) by metis
  obtain fj tsj rtj w2 where b: "(?adv ^^ 3) (Asking code sj, w1) = (Identified sj fj tsj rtj ident, w2)"
    "pf_tenant fj = fr_tenant rj" "healthy w2" "accounts (db w2) = accounts (db w1)"
    using asking_identified [OF a(3) rj1 fresh(2) dec(2) v cl resp, where resolve = resolve, OF res] by blast
  have "us j = Asking code sj" using ij tj by (simp add: us_def)
  then have "?run (us(j := Identified sj fj tsj rtj ident)) w2" by (intro moves_many [OF r1]) (use b(1) in simp)
  moreover have "(us(j := Identified sj fj tsj rtj ident)) i = Identified si fi tsi rti ident"
    using ij by (simp add: us_def)
  ultimately show ?thesis using a(2,4) b(2-4)
    by (intro exI [of _ "us(j := Identified sj fj tsj rtj ident)"] exI [of _ w2] exI [of _ fi] exI [of _ tsi] exI [of _ rti]
        exI [of _ fj] exI [of _ tsj] exI [of _ rtj]) simp
qed

text \<open>From there one connects the account and the other finds it taken.\<close>

lemma consents_collide:
  assumes "seals E" and h: "healthy u" and ij: "i \<noteq> j"
    and i: "us i = Checked si a tok True" and j: "us j = Checked sj b tok' True"
    and same: "acc_tenant b = acc_tenant a" "acc_email b = acc_email a"
    and "acc_id a \<notin> ar_id ` set (accounts (db u))"
    and "\<not> (\<exists>q \<in> set (accounts (db u)). ar_tenant q = acc_tenant a \<and> ar_email q = acc_email a)"
  shows "\<exists>vs v. consents E C resolve meanwhile us u vs v \<and> vs i = Ended si (Inr a) \<and>
    vs j = Ended sj (Inl (already_connected b))"
proof -
  let ?adv = "advance E C resolve" and ?run = "consents E C resolve meanwhile us u"
  from checked_new [OF assms(1) h assms(8,9)] obtain x u' where e: "?adv (Checked si a tok True) u = (Rowed si a tok, x)"
    "?adv (Rowed si a tok) x = (Ended si (Inr a), u')" "healthy u'" "accounts (db u') = accounts (db u) @ [to_row a]" by metis
  have r1: "?run (us(i := Rowed si a tok)) x" by (rule consent_step [where us = us and k = i and u = u, OF consents.idle i e(1)])
  have "?run (us(i := Rowed si a tok, i := Ended si (Inr a))) u'" by (rule consent_step [OF r1 _ e(2)]) simp
  then have r2: "?run (us(i := Ended si (Inr a))) u'" unfolding fun_upd_upd .
  have "\<exists>q \<in> set (accounts (db u')). ar_tenant q = acc_tenant b \<and> ar_email q = acc_email b" using e(4) same by simp
  note f = checked_taken [OF e(3) this]
  have "?run (us(i := Ended si (Inr a), j := Ended sj (Inl (already_connected b)))) u'"
    by (rule consent_step [OF r2 _ f]) (use ij j in simp)
  then show ?thesis using ij
    by (intro exI [of _ "us(i := Ended si (Inr a), j := Ended sj (Inl (already_connected b)))"] exI [of _ u']) simp
qed

end
