(* ===== verification/Service.thy ===== *)
theory Service
  imports Cli Concurrency Consents
begin

text \<open>
  The program as a whole. \<open>reaches\<close> are the states it can get to from one state by any sequence of
  REST requests, MCP tool calls, OAuth callbacks, background rounds, CLI commands, interleaved token
  operations, callbacks interleaved with each other and with these, restarts, and failures of the database engine. The invariant of all of them is
  \<open>store_ok\<close>: the schema's constraints hold and every stored token can be decrypted.
\<close>

section \<open>Interleavings keep the stored tokens readable\<close>

definition tokens_sound :: "env \<Rightarrow> config \<Rightarrow> (int \<Rightarrow> bool) \<Rightarrow> system \<Rightarrow> bool" where
  "tokens_sound E C T s \<longleftrightarrow> store_ok E (encryption_key C) T (sys_world s) \<and>
     (\<forall>k i cur. works_with (sys_tasks s k) = Some (i, cur) \<longrightarrow> token_valid T cur) \<and>
     (\<forall>k i m cur ts. sys_tasks s k = RefreshAnswered i m cur ts \<longrightarrow>
        (\<exists>v. fst (refresh_tokens E C (st_refresh cur) v) = Inr ts)) \<and>
     (\<forall>k i tok. sys_tasks s k = UseBumps i tok \<longrightarrow> token_valid T tok)"

lemma tokens_soundD:
  assumes "tokens_sound E C T s"
  shows "store_ok E (encryption_key C) T (sys_world s)"
    and "works_with (sys_tasks s k) = Some (i, cur) \<Longrightarrow> token_valid T cur"
    and "sys_tasks s k = RefreshAnswered i m cur ts \<Longrightarrow> \<exists>v. fst (refresh_tokens E C (st_refresh cur) v) = Inr ts"
    and "sys_tasks s k = UseBumps i tok \<Longrightarrow> token_valid T tok"
  using assms unfolding tokens_sound_def by blast+

lemma tokens_sound_held [simp]:
  "tokens_sound E C T (taking m k s) = tokens_sound E C T s"
  "tokens_sound E C T (releasing m s) = tokens_sound E C T s"
  by (simp_all add: tokens_sound_def)

lemma tokens_sound_moved:
  assumes ok: "tokens_sound E C T s" and "store_ok E (encryption_key C) T w"
    and "\<forall>i cur. works_with t = Some (i, cur) \<longrightarrow> token_valid T cur"
    and "\<forall>i m cur ts. t = RefreshAnswered i m cur ts \<longrightarrow> (\<exists>v. fst (refresh_tokens E C (st_refresh cur) v) = Inr ts)"
    and "\<forall>i tok. t = UseBumps i tok \<longrightarrow> token_valid T tok"
  shows "tokens_sound E C T (moved s k t w)"
  using assms unfolding tokens_sound_def moved_simps fun_upd_apply
  by (intro conjI) (simp_all split: if_split)

lemma bump_store_ok:
  assumes ok: "store_ok E (encryption_key C) T w" and idp: "idp_ok E T" and tok: "token_valid T tok"
  shows "store_ok E (encryption_key C) T (bump_last_used E C i tok w)"
proof -
  have "store_ok E (encryption_key C) T (snd (token_upsert E (encryption_key C) i
      (tok\<lparr>st_last_used := Some (clock E n), st_updated := clock E (Suc n)\<rparr>) x))" if "db x = db w" for x n
  proof (rule token_upsert_view(1) [OF _ _ surjective_pairing])
    show "store_ok E (encryption_key C) T x" using ok that by (simp add: store_ok_def)
    show "token_valid T (tok\<lparr>st_last_used := Some (clock E n), st_updated := clock E (Suc n)\<rparr>)"
      using tok idp_okD(1) [OF idp] by (simp add: token_valid_def)
  qed
  from this [of "tock (tock w)" "tick w"] this [of "tock (tock (tock w))" "Suc (tick w)"] ok
  show ?thesis by (simp add: bump_last_used_def utc_now_def store_ok_def split: option.split)
qed

lemma tokens_sound_step:
  assumes "system_step E C s k s'" and ok: "tokens_sound E C T s" and idp: "idp_ok E T"
  shows "tokens_sound E C T s'"
  using assms(1)
proof (cases rule: system_step.cases)
  case (lookup_lock i m w)
  have "db w = db (sys_world s)" using account_lock_eq [OF lookup_lock(3)] by simp
  with tokens_soundD(1) [OF ok] show ?thesis unfolding lookup_lock(1)
    by (intro tokens_sound_moved [OF ok]) (simp_all add: store_ok_def)
next
  case (acquire i m)
  with tokens_soundD(1) [OF ok] show ?thesis unfolding acquire(1) tokens_sound_held
    by (intro tokens_sound_moved [OF ok]) simp_all
next
  case (read i m cur w)
  note rd = refresh_read_result [OF tokens_soundD(1) [OF ok] read(3)]
  have "token_valid T cur" using token_view_valid [OF tokens_soundD(1) [OF ok]] rd(5) by blast
  with rd(1) show ?thesis unfolding read(1) by (intro tokens_sound_moved [OF ok]) simp_all
next
  case (read_fails i m e w)
  note rd = refresh_read_result [OF tokens_soundD(1) [OF ok] read_fails(3)]
  from rd(1) show ?thesis unfolding read_fails(1) tokens_sound_held
    by (intro tokens_sound_moved [OF ok]) simp_all
next
  case (ask i m cur ts w)
  have "store_ok E (encryption_key C) T w"
    using refresh_tokens_frame(1) [of E C "st_refresh cur" "sys_world s"] ask(3) tokens_soundD(1) [OF ok]
    by (simp add: store_ok_def)
  moreover have "token_valid T cur" using tokens_soundD(2) [OF ok, of k i cur] ask(2) by simp
  moreover have "\<exists>v. fst (refresh_tokens E C (st_refresh cur) v) = Inr ts" using ask(3) by (metis fst_conv)
  ultimately show ?thesis unfolding ask(1) by (intro tokens_sound_moved [OF ok]) simp_all
next
  case (ask_fails i m cur e w)
  have "store_ok E (encryption_key C) T w"
    using refresh_tokens_frame(1) [of E C "st_refresh cur" "sys_world s"] ask_fails(3) tokens_soundD(1) [OF ok]
    by (simp add: store_ok_def)
  then show ?thesis unfolding ask_fails(1) tokens_sound_held by (intro tokens_sound_moved [OF ok]) simp_all
next
  case (store i m cur ts r w)
  have "token_valid T cur" using tokens_soundD(2) [OF ok, of k i cur] store(2) by simp
  moreover obtain v where "fst (refresh_tokens E C (st_refresh cur) v) = Inr ts"
    using tokens_soundD(3) [OF ok store(2)] by blast
  ultimately have "store_ok E (encryption_key C) T w"
    using refresh_store_result(1) [OF tokens_soundD(1) [OF ok] idp _ _ store(3)] by blast
  then show ?thesis unfolding store(1) tokens_sound_held by (intro tokens_sound_moved [OF ok]) simp_all
next
  case (use i x v tok w)
  note g = token_get_view [OF tokens_soundD(1) [OF ok] use(3)]
  have "x = Some tok" using use(4) by (auto simp: fresh_read_def Let_def utc_now_def split: option.splits if_splits)
  then have "token_valid T tok" using token_view_valid [OF tokens_soundD(1) [OF ok]] g(3) [of x] by simp
  moreover have "store_ok E (encryption_key C) T w"
    using g(1) fresh_read_frame(1) [of E x v] use(4) by (simp add: store_ok_def)
  ultimately show ?thesis unfolding use(1) by (intro tokens_sound_moved [OF ok]) simp_all
next
  case (use_stale i x v w)
  note g = token_get_view [OF tokens_soundD(1) [OF ok] use_stale(3)]
  have "store_ok E (encryption_key C) T w"
    using g(1) fresh_read_frame(1) [of E x v] use_stale(4) by (simp add: store_ok_def)
  then show ?thesis unfolding use_stale(1) by (intro tokens_sound_moved [OF ok]) simp_all
next
  case (use_fails i e w)
  note g = token_get_view [OF tokens_soundD(1) [OF ok] use_fails(3)]
  from g(1) show ?thesis unfolding use_fails(1) by (intro tokens_sound_moved [OF ok]) simp_all
next
  case (bump i tok w)
  from bump_store_ok [OF tokens_soundD(1) [OF ok] idp tokens_soundD(4) [OF ok bump(2)]] bump(3)
  show ?thesis unfolding bump(1) by (intro tokens_sound_moved [OF ok]) auto
next
  case (drop_token a u w)
  from token_delete_view(1) [OF tokens_soundD(1) [OF ok] drop_token(3)]
  show ?thesis unfolding drop_token(1) by (intro tokens_sound_moved [OF ok]) simp_all
next
  case (drop_fails a e w)
  from token_delete_view(1) [OF tokens_soundD(1) [OF ok] drop_fails(3)]
  show ?thesis unfolding drop_fails(1) by (intro tokens_sound_moved [OF ok]) simp_all
next
  case (mark a r w)
  have "wf_db (db w)" using wf_account_set_status [of "sys_world s"] mark(3) tokens_soundD(1) [OF ok]
    by (metis snd_conv store_ok_def)
  then have "store_ok E (encryption_key C) T w"
    using set_status_same_tables(1) [OF mark(3)] tokens_soundD(1) [OF ok] by (simp add: store_ok_def tokens_ok_def)
  then show ?thesis unfolding mark(1) by (intro tokens_sound_moved [OF ok]) simp_all
qed

lemma tokens_sound_schedule:
  "schedule E C s ks s' \<Longrightarrow> tokens_sound E C T s \<Longrightarrow> idp_ok E T \<Longrightarrow> tokens_sound E C T s'"
  by (induction rule: schedule.induct) (blast intro: tokens_sound_step)+

lemma tokens_sound_begins:
  assumes "store_ok E (encryption_key C) T w" and "\<forall>k. start (ts k)"
  shows "tokens_sound E C T (begins ts w)"
proof -
  have "works_with (ts k) = None \<and> \<not> (\<exists>i tok. ts k = UseBumps i tok) \<and>
      \<not> (\<exists>i m cur tset. ts k = RefreshAnswered i m cur tset)" for k
    using assms(2) [rule_format, of k] by (cases "ts k") (simp_all add: start_def)
  with assms(1) show ?thesis by (fastforce simp: tokens_sound_def begins_def)
qed

section \<open>The other operations\<close>

lemma refresh_each_store_ok:
  assumes "store_ok E (encryption_key C) T w" and "idp_ok E T"
  shows "store_ok E (encryption_key C) T (snd (refresh_each E C as w))"
  using refreshing.batch_ok [of E C T w "map acc_id (filter (\<lambda>a. acc_status a \<noteq> Disconnected) as)"] assms
  by (simp add: refresh_each_steps case_prod_unfold Let_def)

lemma refresh_all_store_ok:
  assumes ok: "store_ok E (encryption_key C) T w" and idp: "idp_ok E T"
  shows "store_ok E (encryption_key C) T (snd (refresh_all E C w))"
proof -
  obtain r w1 where l: "account_list_all w = (r, w1)" by force
  have "store_ok E (encryption_key C) T w1"
    using account_list_all_result [OF l] store_ok_cong [OF _ ok] by blast
  from refresh_each_store_ok [OF this idp] this l show ?thesis by (simp add: refresh_all_def split: sum.split)
qed

lemma refresh_stale_store_ok:
  assumes ok: "store_ok E (encryption_key C) T w" and idp: "idp_ok E T"
    and run: "refresh_stale E C days w = Some (k, w')"
  shows "store_ok E (encryption_key C) T w'"
proof -
  obtain cutoff where c: "now_minus_days E (clock E (tick w)) days = Some cutoff"
    using run by (auto simp: refresh_stale_def utc_now_def split: option.splits)
  obtain r w1 where l: "token_list_inactive E cutoff (tock w) = (r, w1)" by force
  have "store_ok E (encryption_key C) T (tock w)" using ok by (simp add: store_ok_def)
  moreover have "same_tables (db (tock w)) (db w1)" using token_list_inactive_result [OF l] by simp
  ultimately have ok1: "store_ok E (encryption_key C) T w1" using store_ok_cong by blast
  show ?thesis
  proof (cases r)
    case (Inl e)
    with run c l ok1 show ?thesis by (auto simp: refresh_stale_def utc_now_def)
  next
    case (Inr ids)
    with run c l have "refresh_ids E C ids 0 w1 = (k, w')" by (simp add: refresh_stale_def utc_now_def)
    then have "w' = snd (run_steps (refresh_account E C) ids w1)"
      by (simp add: refresh_ids_steps case_prod_unfold Let_def)
    with refreshing.batch_ok [of E C T w1 ids] ok1 idp show ?thesis by simp
  qed
qed

lemma handle_callback_store_ok:
  assumes ok: "store_ok E (encryption_key C) T w" and idp: "idp_ok E T"
  shows "store_ok E (encryption_key C) T (snd (snd (handle_callback E C (graph_resolve E C) p st w)))"
proof (cases "carries_flow p")
  case None
  from complete_callback_cases(2) [OF this, of E C "graph_resolve E C" w] ok show ?thesis
    by (auto simp: handle_callback_world)
next
  case (Some cs)
  obtain c s where cs: "cs = (c, s)" by (cases cs)
  from complete_callback_cases(1) [OF Some [unfolded cs]]
    graph_profile.complete_flow_result(1) [OF ok idp surjective_pairing] show ?thesis
    by (simp add: handle_callback_world)
qed

lemma account_delete_store_ok:
  assumes ok: "store_ok E K T w"
  shows "store_ok E K T (snd (account_delete t i w))"
proof -
  obtain r w1 where d: "account_delete t i w = (r, w1)" by force
  have "set (tokens (db w1)) \<subseteq> set (tokens (db w))"
    using account_delete_result [OF d] by (auto simp: same_tables_def)
  moreover have "wf_db (db w1)" using wf_account_delete [of w t i] d ok by (simp add: store_ok_def)
  ultimately show ?thesis using ok d by (auto simp: store_ok_def tokens_ok_def)
qed

lemma remove_account_store_ok:
  assumes ok: "store_ok E K T w"
  shows "store_ok E K T (snd (remove_account C x tenant w))"
proof -
  let ?t = "tenant_or_default C tenant"
  have "store_ok E K T (snd (lookup_either account_get account_get_by_email ?t x w))"
    using acts_for_account_get [OF ok, of ?t ?t x] acts_for_by_email [of E K T _ ?t ?t x]
    by (auto simp: lookup_either_def acts_for_def split: prod.splits sum.splits)
  then have "store_ok E K T (snd (bindE (lookup_either account_get account_get_by_email ?t x w) (\<lambda>resolved w.
      bindE (account_delete ?t (acc_id resolved) w) (\<lambda>_ w. (Inr (''Removed account '' @ acc_email resolved), w)))))"
    by (rule snd_bindE_keeps [where P = "store_ok E K T"], intro snd_bindE_keeps [where P = "store_ok E K T"])
      (simp_all add: account_delete_store_ok)
  then show ?thesis by (auto simp: remove_account_def case_prod_unfold Let_def split: sum.split)
qed

section \<open>Reachable states\<close>

definition saved :: "world \<Rightarrow> tables" where
  "saved w = \<lparr>accounts = accounts (db w), tokens = tokens (db w), oauth_flows = oauth_flows (db w)\<rparr>"

text \<open>What can happen between two moves of a callback.\<close>

definition amid :: "env \<Rightarrow> config \<Rightarrow> world \<Rightarrow> world \<Rightarrow> bool" where
  "amid E C w w' \<longleftrightarrow>
     (\<exists>X q resp. serve_request X E C q w = Some (resp, w')) \<or>
     (\<exists>pretty call out. call_tool pretty E C call w = (out, w')) \<or>
     (\<exists>ts ks s. (\<forall>k. start (ts k)) \<and> schedule E C (begins ts w) ks s \<and> w' = sys_world s)"

inductive reaches :: "env \<Rightarrow> config \<Rightarrow> world \<Rightarrow> world \<Rightarrow> bool" for E C w0 where
  here: "reaches E C w0 w0"
| request: "reaches E C w0 w \<Longrightarrow> serve_request X E C q w = Some (resp, w') \<Longrightarrow> reaches E C w0 w'"
| tool: "reaches E C w0 w \<Longrightarrow> call_tool pretty E C call w = (out, w') \<Longrightarrow> reaches E C w0 w'"
| redirect: "reaches E C w0 w \<Longrightarrow> handle_callback E C (graph_resolve E C) p st w = (html, st', w') \<Longrightarrow>
    reaches E C w0 w'"
| background: "reaches E C w0 w \<Longrightarrow> refresh_stale E C (token_inactivity_days C) w = Some (k, w') \<Longrightarrow>
    reaches E C w0 w'"
| command: "reaches E C w0 w \<Longrightarrow> dispatch E C xo cmd w = Some (out, w') \<Longrightarrow> reaches E C w0 w'"
| interleaved: "reaches E C w0 w \<Longrightarrow> \<forall>k. start (ts k) \<Longrightarrow> schedule E C (begins ts w) ks s \<Longrightarrow>
    reaches E C w0 (sys_world s)"
| consenting: "reaches E C w0 w \<Longrightarrow> \<forall>k. tenant_for (ts k) = None \<Longrightarrow>
    consents E C (graph_resolve E C) (amid E C) ts w us u \<Longrightarrow> reaches E C w0 u"
| engine: "reaches E C w0 w \<Longrightarrow> reaches E C w0 (w\<lparr>db := (db w)\<lparr>faults := fs, poisoned := b\<rparr>\<rparr>)"
| restart: "reaches E C w0 w \<Longrightarrow> build_state http (Some (saved w)) plan n = Inr w' \<Longrightarrow> reaches E C w0 w'"

lemma handle_all_store_ok:
  assumes "store_ok E (encryption_key C) T w" and "idp_ok E T"
  shows "store_ok E (encryption_key C) T (snd (snd (handle_all E C (graph_resolve E C) ps st w)))"
  using assms(1)
proof (induction ps arbitrary: st w)
  case (Cons p ps)
  from Cons.IH [OF handle_callback_store_ok [OF Cons.prems assms(2)]] show ?case
    by (simp add: case_prod_unfold Let_def)
qed simp

lemma serve_once_store_ok:
  assumes "store_ok E (encryption_key C) T w" and "idp_ok E T"
  shows "store_ok E (encryption_key C) T
    (snd (serve_callback_once E C (graph_resolve E C) addr bind_error serve_error ps w))"
  using handle_all_store_ok [OF assms, of ps once_router] assms(1)
  by (auto simp: serve_callback_once_def case_prod_unfold Let_def split: option.split)

lemma dispatch_store_ok:
  assumes ok: "store_ok E (encryption_key C) T w" and idp: "idp_ok E T"
    and run: "dispatch E C xo cmd w = Some (out, w')"
  shows "store_ok E (encryption_key C) T w'"
proof (cases cmd)
  case (AddAccountCmd tenant)
  with run obtain r w1 where b: "begin_flow E C (tenant_or_default C tenant) w = Some (r, w1)"
    by (auto simp: dispatch_def add_account_def split: option.splits)
  have ok1: "store_ok E (encryption_key C) T w1"
    using acts_for_begin_flow [OF ok b] by (simp add: acts_for_def)
  from run AddAccountCmd b have "w' = w1 \<or> (\<exists>addr. w' = snd (serve_callback_once E C (graph_resolve E C) addr
      (xo_once_bind xo) (xo_once_serve xo) (xo_callbacks xo) w1))"
    by (auto simp: dispatch_def add_account_def Let_def split: sum.splits prod.splits) (metis snd_conv)+
  with ok1 serve_once_store_ok [OF ok1 idp] show ?thesis by auto
next
  case (ListAccountsCmd tenant)
  have "w' = snd (account_list (tenant_or_default C tenant) w)"
    using run ListAccountsCmd by (auto simp: dispatch_def cli_list_accounts_def split: prod.splits sum.splits)
  with acts_for_account_list [OF ok] show ?thesis by (simp add: acts_for_def)
next
  case (RemoveAccountCmd account tenant)
  with run have "w' = snd (remove_account C account tenant w)" by (simp add: dispatch_def)
  with remove_account_store_ok [OF ok] show ?thesis by simp
next
  case RefreshAllCmd
  with run have "w' = snd (refresh_all E C w)" by (auto simp: dispatch_def cli_refresh_all_def case_prod_unfold Let_def)
  with refresh_all_store_ok [OF ok idp] show ?thesis by simp
qed (use run ok in \<open>simp_all add: dispatch_def\<close>)

lemma schedule_store_ok:
  assumes "store_ok E (encryption_key C) T w" and "idp_ok E T" and "\<forall>k. start (ts k)"
    and "schedule E C (begins ts w) ks s"
  shows "store_ok E (encryption_key C) T (sys_world s)"
  by (rule tokens_soundD(1) [OF tokens_sound_schedule [OF assms(4) tokens_sound_begins [OF assms(1,3)] assms(2)]])

lemma amid_store_ok:
  assumes "store_ok E (encryption_key C) T w" and "idp_ok E T" and "amid E C w w'"
  shows "store_ok E (encryption_key C) T w'"
  using assms(3) unfolding amid_def
proof (elim disjE exE conjE)
  fix X q resp
  assume "serve_request X E C q w = Some (resp, w')"
  from serve_request_acts_for [OF assms(1,2) this] assms(1) show ?thesis
    by (auto simp: acts_for_def split: option.splits)
next
  fix pretty call out
  assume "call_tool pretty E C call w = (out, w')"
  with call_tool_acts_for [OF assms(1,2), of pretty call] show ?thesis by (simp add: acts_for_def)
next
  fix ts ks s
  assume "\<forall>k. start (ts k)" "schedule E C (begins ts w) ks s" "w' = sys_world s"
  with schedule_store_ok [OF assms(1,2)] show ?thesis by blast
qed

lemma reaches_store_ok:
  assumes "reaches E C w0 w" and "store_ok E (encryption_key C) T w0" and idp: "idp_ok E T"
  shows "store_ok E (encryption_key C) T w"
  using assms(1)
proof (induction rule: reaches.induct)
  case here
  show ?case by (rule assms(2))
next
  case (request w X q resp w')
  then have "amid E C w w'" unfolding amid_def by blast
  then show ?case by (rule amid_store_ok [OF request.IH idp])
next
  case (tool w pretty call out w')
  then have "amid E C w w'" unfolding amid_def by blast
  then show ?case by (rule amid_store_ok [OF tool.IH idp])
next
  case (redirect w p st html st' w')
  from handle_callback_store_ok [OF redirect.IH idp, of p st] redirect.hyps(2) show ?case by simp
next
  case (background w k w')
  show ?case by (rule refresh_stale_store_ok [OF background.IH idp background.hyps(2)])
next
  case (command w xo cmd out w')
  show ?case by (rule dispatch_store_ok [OF command.IH idp command.hyps(2)])
next
  case (interleaved w ts ks s)
  show ?case by (rule schedule_store_ok [OF interleaved.IH idp interleaved.hyps(2,3)])
next
  case (consenting w ts us u)
  have c: "carries T (ts k)" for k using consenting.hyps(2) by (cases "ts k") (auto split: sum.splits dest: spec [of _ k])
  have "store_ok E (encryption_key C) T u \<and> (\<forall>k. carries T (us k))"
    by (rule graph_profile.consents_store_ok [OF consenting.hyps(3) consenting.IH idp])
      (use c amid_store_ok [OF _ idp] in blast)+
  then show ?case by blast
next
  case (engine w fs b)
  then show ?case by (simp add: store_ok_def tokens_ok_def wf_db_def wf_tables_def)
next
  case (restart w http plan n w')
  obtain d where d: "open_db (Some (saved w)) plan = Inr d" "w' = \<lparr>db = d, tick = n, wire = [], refresh_locks = []\<rparr>"
    using restart.hyps(2) by (auto simp: build_state_def build_http_client_def split: option.splits sum.splits)
  have "accounts d = accounts (db w) \<and> tokens d = tokens (db w) \<and> oauth_flows d = oauth_flows (db w)"
    using d(1) by (induction "Some (saved w)" plan rule: open_db.induct)
      (auto simp: with_tables_def migrate_def saved_def)
  with d(2) restart.IH show ?case by (simp add: store_ok_def tokens_ok_def wf_db_def wf_tables_def)
qed

text \<open>A new database is fine.\<close>

lemma fresh_store_ok:
  assumes "crypto_ok E T" and "build_state http None plan n = Inr w"
  shows "store_ok E K T w"
proof -
  obtain d where d: "open_db None plan = Inr d" "w = \<lparr>db = d, tick = n, wire = [], refresh_locks = []\<rparr>"
    using assms(2) by (auto simp: build_state_def build_http_client_def split: option.splits sum.splits)
  have "accounts d = [] \<and> tokens d = [] \<and> oauth_flows d = []"
    using d(1) by (induction "None :: tables option" plan rule: open_db.induct)
      (auto simp: with_tables_def migrate_def empty_tables_def)
  with d(2) assms(1) show ?thesis by (simp add: store_ok_def tokens_ok_def wf_db_def wf_tables_def)
qed

section \<open>A flow from its start to its end\<close>

lemma saturating_old [simp]: "saturating_sub a b > FLOW_TTL_SECS \<longleftrightarrow> a - b > FLOW_TTL_SECS"
  by (auto simp: saturating_sub_def FLOW_TTL_SECS_def)

text \<open>What \<open>insert\<close> stores.\<close>

lemma flow_insert_healthy:
  assumes "aead_ok E" and h: "healthy w" and new: "flow_view w s = None"
    and run: "flow_insert E K v t s w = Some w1"
  shows "\<exists>blob. decrypt E K blob = Inr (as_bytes v) \<and> flow_view w1 s =
    Some \<lparr>fr_state = s, fr_verifier = blob, fr_tenant = t, fr_created = unix_time E (tick w)\<rparr>"
proof -
  let ?now = "unix_time E (tick w)"
  obtain r w2 where e: "encrypt E K (as_bytes v) (tock w) = (r, w2)" by force
  have w2: "db w2 = db w" using encrypt_frame(1) [of E K "as_bytes v" "tock w"] e by simp
  show ?thesis
  proof (cases r)
    case (Inl m)
    with run e show ?thesis by (simp add: flow_insert_def unix_now_eq)
  next
    case (Inr blob)
    have dec: "decrypt E K blob = Inr (as_bytes v)"
      by (rule decrypt_encrypt [OF assms(1), of K "as_bytes v" "tock w"]) (use e Inr in simp)
    have absent: "\<not> (\<exists>g \<in> set (oauth_flows (db w)). fr_state g = s)"
      using new by (auto simp: flow_view_def find_None_iff_all)
    have "faults (db w) = []" "\<not> poisoned (db w)" using h by (simp_all add: healthy_def)
    with run e Inr w2 absent have "oauth_flows (db w1) = filter (unexpired ?now) (oauth_flows (db w)) @
        [\<lparr>fr_state = s, fr_verifier = blob, fr_tenant = t, fr_created = ?now\<rparr>]"
      by (auto simp: flow_insert_def unix_now_eq purge_flows_def insert_flow_def unexpired_eq)
    moreover have "List.find (\<lambda>f. fr_state f = s) (filter (unexpired ?now) (oauth_flows (db w))) = None"
      using absent by (auto simp: find_None_iff_all)
    ultimately have "flow_view w1 s = Some \<lparr>fr_state = s, fr_verifier = blob, fr_tenant = t, fr_created = ?now\<rparr>"
      by (simp add: flow_view_def find_append)
    with dec show ?thesis by blast
  qed
qed

lemma flow_take_expired:
  assumes h: "healthy w" and row: "flow_view w state = Some row"
    and old: "unix_time E (tick w) - fr_created row > FLOW_TTL_SECS"
  shows "fst (flow_take E K state w) = Inl Expired"
proof -
  have quiet: "faults (db w) = []" "\<not> poisoned (db w)" using h by (simp_all add: healthy_def)
  have "List.find (\<lambda>f. fr_state f = state) (oauth_flows (db w)) = Some row"
    using row by (simp add: flow_view_def)
  with quiet old show ?thesis
    by (simp add: flow_take_def on_db_def take_row_def select_flow_def delete_flow_def unix_now_eq)
qed

text \<open>Storing and taking a flow gives back what was stored, for ten minutes.\<close>

lemma flow_life:
  assumes "aead_ok E" and "rust_str v" and "healthy w" and "flow_view w s = None"
    and "flow_insert E K v t s w = Some w1"
    and h2: "healthy w2" and same: "flow_view w2 s = flow_view w1 s"
  shows "if unix_time E (tick w2) - unix_time E (tick w) > 600
    then fst (flow_take E K s w2) = Inl Expired
    else fst (flow_take E K s w2) = Inr \<lparr>pf_verifier = v, pf_tenant = t, pf_created = unix_time E (tick w)\<rparr>"
proof -
  from flow_insert_healthy [OF assms(1,3,4,5)] same obtain blob where
    blob: "decrypt E K blob = Inr (as_bytes v)" and row: "flow_view w2 s =
      Some \<lparr>fr_state = s, fr_verifier = blob, fr_tenant = t, fr_created = unix_time E (tick w)\<rparr>" by auto
  show ?thesis
  proof (cases "unix_time E (tick w2) - unix_time E (tick w) > 600")
    case True
    with flow_take_expired [OF h2 row, of E K] show ?thesis by (simp add: FLOW_TTL_SECS_def)
  next
    case False
    with flow_take_healthy [OF h2 row, of E K v] blob assms(2) show ?thesis
      by (auto simp: FLOW_TTL_SECS_def simp del: saturating_old simp add: saturating_old [unfolded FLOW_TTL_SECS_def])
  qed
qed

text \<open>The failure of the statement that stores the flow is dropped: the consent URL is handed out, and no
  callback can succeed.\<close>

lemma begin_flow_drops:
  assumes cl: "oauth_client E C = Inr cl" and "seals E" and "\<not> poisoned (db w)"
    and f: "faults (db w) = None # Some m # fs"
    and new: "flow_view w (csrfs E (Suc (tick w))) = None"
  shows "\<exists>w'. begin_flow E C t w =
      Some (Inr (auth_link E cl SCOPES (fst (pkces E (tick w))) (csrfs E (Suc (tick w)))), w') \<and>
    flow_view w' (csrfs E (Suc (tick w))) = None"
proof -
  let ?s = "csrfs E (Suc (tick w))" and ?v = "snd (pkces E (tick w))" and ?K = "encryption_key C"
  have au: "authorize_url E C w =
      (Inr (auth_link E cl SCOPES (fst (pkces E (tick w))) ?s, ?v, ?s), tock (tock w))"
    using cl by (simp add: authorize_url_def case_prod_unfold Let_def)
  obtain b w2 where e: "encrypt E ?K (as_bytes ?v) (tock (tock (tock w))) = (Inr b, w2)" and w2: "db w2 = db w"
  proof -
    from assms(2) obtain c where "aead_seal E ?K (nonces E (tick (tock (tock (tock w))))) (as_bytes ?v) = Inr c"
      unfolding seals_def by blast
    then show ?thesis using that by (simp add: encrypt_def Let_def)
  qed
  have absent: "List.find (\<lambda>f. fr_state f = ?s) (oauth_flows (db w)) = None" using new by (simp add: flow_view_def)
  let ?now = "unix_time E (Suc (Suc (tick w)))"
  let ?w' = "w2\<lparr>db := (db w)\<lparr>oauth_flows := filter (unexpired ?now) (oauth_flows (db w)), faults := fs\<rparr>\<rparr>"
  have "flow_insert E ?K ?v t ?s (tock (tock w)) = Some ?w'"
    using e w2 f assms(3)
    by (simp add: flow_insert_def unix_now_eq exec_sql_def purge_flows_def unexpired_eq)
  with au have "begin_flow E C t w = Some (Inr (auth_link E cl SCOPES (fst (pkces E (tick w))) ?s), ?w')"
    by (simp add: begin_flow_def)
  moreover have "flow_view ?w' ?s = None" using absent by (auto simp: flow_view_def find_None_iff_all)
  ultimately show ?thesis by blast
qed

section \<open>Batches\<close>

text \<open>\<open>refresh_all\<close> reports every account that is not disconnected, once and in the order of the listing;
  a refresh that fails leaves its account's token alone and does not stop the others.\<close>

definition batch_report :: "env \<Rightarrow> bytes \<Rightarrow> world \<Rightarrow> (account \<times> unit result) list \<Rightarrow> world \<Rightarrow> bool" where
  "batch_report E K w outcomes w' \<longleftrightarrow>
     map fst outcomes = filter (\<lambda>a. acc_status a \<noteq> Disconnected) (map of_row (order_updated_desc (accounts (db w)))) \<and>
     (\<forall>j. j \<notin> acc_id ` fst ` set outcomes \<longrightarrow> token_view E K w' j = token_view E K w j) \<and>
     (\<forall>(a, r) \<in> set outcomes. is_err r \<longrightarrow> token_view E K w' (acc_id a) = token_view E K w (acc_id a)) \<and>
     dom (token_view E K w') = dom (token_view E K w)"

lemma refresh_each_report:
  assumes ok: "store_ok E (encryption_key C) T w" and idp: "idp_ok E T"
    and d: "distinct (map acc_id as)" and run: "refresh_each E C as w = (outcomes, w')"
  shows "map fst outcomes = filter (\<lambda>a. acc_status a \<noteq> Disconnected) as"
    and "\<forall>j. j \<notin> acc_id ` fst ` set outcomes \<longrightarrow> token_view E (encryption_key C) w' j = token_view E (encryption_key C) w j"
    and "\<forall>(a, r) \<in> set outcomes. is_err r \<longrightarrow>
      token_view E (encryption_key C) w' (acc_id a) = token_view E (encryption_key C) w (acc_id a)"
    and "dom (token_view E (encryption_key C) w') = dom (token_view E (encryption_key C) w)"
proof -
  let ?live = "filter (\<lambda>a. acc_status a \<noteq> Disconnected) as" and ?K = "encryption_key C"
  let ?ids = "map acc_id ?live"
  let ?run = "run_steps (refresh_account E C) ?ids w"
  have out: "outcomes = zip ?live (fst ?run)" "w' = snd ?run"
    using run by (simp_all add: refresh_each_steps case_prod_unfold Let_def)
  have len: "length (fst ?run) = length ?live" by simp
  have okw: "store_ok E ?K T w \<and> idp_ok E T" using ok idp by simp
  show fst: "map fst outcomes = ?live" unfolding out(1) using len by (simp add: map_fst_zip)
  have ids: "acc_id ` fst ` set outcomes = set ?ids"
    using fst by (metis list.set_map map_map)
  show "\<forall>j. j \<notin> acc_id ` fst ` set outcomes \<longrightarrow> token_view E ?K w' j = token_view E ?K w j"
    unfolding ids out(2) using refreshing.batch_other [OF okw] by blast
  show "dom (token_view E ?K w') = dom (token_view E ?K w)"
    unfolding out(2) by (rule refreshing.batch_dom [OF okw])
  have dist: "distinct ?ids" using d by (rule distinct_map_filterI)
  show "\<forall>(a, r) \<in> set outcomes. is_err r \<longrightarrow> token_view E ?K w' (acc_id a) = token_view E ?K w (acc_id a)"
  proof (clarify)
    fix a r assume "(a, r) \<in> set outcomes" and e: "is_err r"
    then obtain n where n: "n < length ?live" "a = ?live ! n" "r = fst ?run ! n"
      unfolding out(1) using len by (auto simp: set_zip)
    have "n < length ?ids" using n(1) by simp
    from refreshing.batch_failed [OF okw dist this] n e
    have "token_view E ?K (snd ?run) (?ids ! n) = token_view E ?K w (?ids ! n)" by simp
    with n(1,2) out(2) show "token_view E ?K w' (acc_id a) = token_view E ?K w (acc_id a)" by simp
  qed
qed

lemma refresh_all_report:
  assumes ok: "store_ok E (encryption_key C) T w" and idp: "idp_ok E T"
    and run: "refresh_all E C w = (outcomes, w')"
  shows "(\<exists>m. outcomes = [(dummy_account, Inl (Storage m))] \<and>
      token_view E (encryption_key C) w' = token_view E (encryption_key C) w) \<or>
    batch_report E (encryption_key C) w outcomes w'"
proof -
  obtain r w1 where l: "account_list_all w = (r, w1)" by force
  note res = account_list_all_result [OF l]
  have ok1: "store_ok E (encryption_key C) T w1" using res store_ok_cong [OF _ ok] by blast
  have v1: "token_view E (encryption_key C) w1 = token_view E (encryption_key C) w"
    by (rule token_view_cong) (use res in \<open>simp add: same_tables_def\<close>)
  show ?thesis
  proof (cases r)
    case (Inl e)
    with res obtain m where "e = Storage m" by auto
    with run l Inl v1 have "outcomes = [(dummy_account, Inl (Storage m))]" "w' = w1"
      by (auto simp: refresh_all_def)
    with v1 show ?thesis by blast
  next
    case (Inr as)
    with res have as: "as = map of_row (order_updated_desc (accounts (db w)))" by simp
    have "distinct (map ar_id (order_updated_desc (accounts (db w))))"
      using wf_ids ok distinct_order_updated_desc unfolding store_ok_def by blast
    then have d: "distinct (map acc_id as)" unfolding as by (simp add: comp_def)
    have run': "refresh_each E C as w1 = (outcomes, w')" using run l Inr by (simp add: refresh_all_def)
    from refresh_each_report [OF ok1 idp d run'] v1 as show ?thesis unfolding batch_report_def by simp
  qed
qed

text \<open>The accounts whose token has not been used since \<open>cutoff\<close>.\<close>

definition idle_accounts :: "env \<Rightarrow> bytes \<Rightarrow> int \<Rightarrow> world \<Rightarrow> string set" where
  "idle_accounts E K cutoff w = {i. \<exists>t. token_view E K w i = Some t \<and> idle cutoff t}"

text \<open>What a round did to the accounts in \<open>S\<close>, and to no other.\<close>

definition renewed_in :: "env \<Rightarrow> config \<Rightarrow> string set \<Rightarrow> world \<Rightarrow> world \<Rightarrow> bool" where
  "renewed_in E C S w w' \<longleftrightarrow>
     (\<forall>i \<in> S. \<exists>u v. token_view E (encryption_key C) w i = Some u \<and>
        token_view E (encryption_key C) w' i = Some v \<and> renewed_from E C u v) \<and>
     (\<forall>j. j \<notin> S \<longrightarrow> token_view E (encryption_key C) w' j = token_view E (encryption_key C) w j)"

text \<open>The ids a round works on: each idle account once.\<close>

lemma refresh_stale_ids:
  assumes ok: "store_ok E (encryption_key C) T w"
    and cut: "now_minus_days E (clock E (tick w)) days = Some cutoff" and "T cutoff"
    and l: "token_list_inactive E cutoff (tock w) = (Inr ids, w1)"
  shows "store_ok E (encryption_key C) T w1" and "token_view E (encryption_key C) w1 = token_view E (encryption_key C) w"
    and "set ids = idle_accounts E (encryption_key C) cutoff w" and "distinct ids"
    and "refresh_stale E C days w =
      Some (let (rs, w') = run_steps (refresh_account E C) ids w1 in (length (filter (\<lambda>r. \<not> is_err r) rs), w'))"
proof -
  let ?K = "encryption_key C"
  have ok0: "store_ok E ?K T (tock w)" using ok by (simp add: store_ok_def)
  have v0: "token_view E ?K (tock w) = token_view E ?K w" by (rule token_view_db) simp
  note res = token_list_inactive_result [OF l]
  have same: "same_tables (db (tock w)) (db w1)" using res by simp
  show "store_ok E ?K T w1" by (rule store_ok_cong [OF same ok0])
  show "token_view E ?K w1 = token_view E ?K w"
    using token_view_cong [of w1 "tock w"] same v0 by (simp add: same_tables_def)
  show "set ids = idle_accounts E ?K cutoff w"
    using token_list_inactive_view [OF ok0 assms(3) l] v0 by (simp add: idle_accounts_def)
  have "distinct (map tr_account (tokens (db w)))" using ok by (simp add: store_ok_def wf_token_ids)
  then show "distinct ids" using res by (auto intro: distinct_map_filterI)
  show "refresh_stale E C days w =
      Some (let (rs, w') = run_steps (refresh_account E C) ids w1 in (length (filter (\<lambda>r. \<not> is_err r) rs), w'))"
    using cut l by (simp add: refresh_stale_def utc_now_def refresh_ids_steps)
qed

text \<open>\<open>refresh_stale\<close> counts the accounts it renewed; they were idle, and no other token changed.\<close>

lemma refresh_stale_report:
  assumes ok: "store_ok E (encryption_key C) T w" and idp: "idp_ok E T"
    and cut: "now_minus_days E (clock E (tick w)) days = Some cutoff" and "T cutoff"
    and run: "refresh_stale E C days w = Some (k, w')"
  shows "\<exists>S. S \<subseteq> idle_accounts E (encryption_key C) cutoff w \<and> finite S \<and> k = card S \<and> renewed_in E C S w w'"
proof -
  let ?K = "encryption_key C"
  obtain r w1 where l: "token_list_inactive E cutoff (tock w) = (r, w1)" by force
  show ?thesis
  proof (cases r)
    case (Inl e)
    have "token_view E ?K w1 = token_view E ?K w"
      by (rule token_view_cong) (use token_list_inactive_result [OF l] in \<open>simp add: same_tables_def\<close>)
    with run cut l Inl show ?thesis
      by (intro exI [of _ "{}"]) (simp add: refresh_stale_def utc_now_def renewed_in_def)
  next
    case (Inr ids)
    note st = refresh_stale_ids [OF ok cut assms(4) l [unfolded Inr]]
    let ?run = "run_steps (refresh_account E C) ids w1"
    have out: "k = length (filter (\<lambda>r. \<not> is_err r) (fst ?run))" "w' = snd ?run"
      using run st(5) by (simp_all add: case_prod_unfold Let_def)
    have okw: "store_ok E ?K T w1 \<and> idp_ok E T" using st(1) idp by simp
    from refreshing.batch_done [OF okw st(4)] obtain S where S: "S \<subseteq> set ids" "card S = k"
      "\<forall>i \<in> S. \<exists>u v. token_view E ?K w1 i = Some u \<and> token_view E ?K w' i = Some v \<and> renewed_from E C u v"
      "\<forall>j. j \<notin> S \<longrightarrow> token_view E ?K w' j = token_view E ?K w1 j" unfolding out by blast
    have "finite S" using S(1) finite_subset by blast
    with S st(2,3) show ?thesis unfolding renewed_in_def by (intro exI [of _ S]) simp
  qed
qed

text \<open>When the engine and the provider do their part, a round renews every idle account.\<close>

lemma refresh_steps_healthy:
  assumes idp: "idp_ok E T" and "seals E" and cl: "oauth_client E C = Inr cl"
    and resp: "\<forall>n rt. \<exists>resp. idp E n (ExchangeRefresh cl rt) = Inr resp"
  shows "store_ok E (encryption_key C) T w \<Longrightarrow> healthy w \<Longrightarrow>
    \<forall>i \<in> set ids. token_view E (encryption_key C) w i \<noteq> None \<Longrightarrow>
    (\<forall>r \<in> set (fst (run_steps (refresh_account E C) ids w)). r = Inr ()) \<and>
    healthy (snd (run_steps (refresh_account E C) ids w))"
proof (induction ids arbitrary: w)
  case (Cons i ids)
  let ?K = "encryption_key C"
  obtain cur where cur: "token_view E ?K w i = Some cur" using Cons.prems(3) by auto
  obtain w1 where w1: "refresh_account E C i w = (Inr (), w1)" "healthy w1"
    using refresh_account_healthy [OF Cons.prems(1,2) assms(2) cur cl] resp by blast
  have okw: "store_ok E ?K T w \<and> idp_ok E T" using Cons.prems(1) idp by simp
  note law = refreshing.step_law [OF okw w1(1)]
  have "\<forall>j \<in> set ids. token_view E ?K w1 j \<noteq> None"
  proof
    fix j assume "j \<in> set ids"
    with Cons.prems(3) law show "token_view E ?K w1 j \<noteq> None" by (cases "j = i") auto
  qed
  from Cons.IH [OF _ w1(2) this] law w1(1) show ?case by (simp add: case_prod_unfold Let_def)
qed simp

lemma token_list_inactive_healthy: "healthy w \<Longrightarrow> \<exists>ids. token_list_inactive E cutoff w = (Inr ids, w)"
  by (simp add: token_list_inactive_def on_db_eq healthy_def run_sql_quiet select_inactive_def)

lemma refresh_stale_healthy:
  assumes ok: "store_ok E (encryption_key C) T w" and idp: "idp_ok E T" and "healthy w" and "seals E"
    and cl: "oauth_client E C = Inr cl" and resp: "\<forall>n rt. \<exists>resp. idp E n (ExchangeRefresh cl rt) = Inr resp"
    and cut: "now_minus_days E (clock E (tick w)) days = Some cutoff" and "T cutoff"
  shows "\<exists>w'. refresh_stale E C days w = Some (card (idle_accounts E (encryption_key C) cutoff w), w') \<and>
    renewed_in E C (idle_accounts E (encryption_key C) cutoff w) w w' \<and>
    store_ok E (encryption_key C) T w' \<and> healthy w'"
proof -
  let ?K = "encryption_key C" and ?I = "idle_accounts E (encryption_key C) cutoff w"
  have h: "healthy (tock w)" using assms(3) by (simp add: healthy_def)
  obtain ids where l: "token_list_inactive E cutoff (tock w) = (Inr ids, tock w)"
    using token_list_inactive_healthy [OF h] by blast
  note st = refresh_stale_ids [OF ok cut assms(8) l]
  let ?run = "run_steps (refresh_account E C) ids (tock w)"
  have "\<forall>i \<in> set ids. token_view E ?K (tock w) i \<noteq> None" using st(2,3) by (auto simp: idle_accounts_def)
  from refresh_steps_healthy [OF idp assms(4) cl resp st(1) h this] have
    all: "\<forall>r \<in> set (fst ?run). r = Inr ()" and h': "healthy (snd ?run)" by blast+
  have "filter (\<lambda>r. \<not> is_err r) (fst ?run) = fst ?run" using all by (auto simp: filter_id_conv)
  then have n: "length (filter (\<lambda>r. \<not> is_err r) (fst ?run)) = card ?I"
    using st(3,4) distinct_card by (metis length_run_steps)
  have run: "refresh_stale E C days w = Some (card ?I, snd ?run)"
    using st(5) n by (simp add: case_prod_unfold Let_def)
  from refresh_stale_report [OF ok idp cut assms(8) run] obtain S where
    S: "S \<subseteq> ?I" "card ?I = card S" "renewed_in E C S w (snd ?run)" by blast
  have "finite ?I" using st(3) by (metis List.finite_set)
  with S(1,2) have "S = ?I" by (metis card_subset_eq)
  with S(3) run h' refresh_stale_store_ok [OF ok idp run] show ?thesis by simp
qed

text \<open>So does every round of the background loop, while the rest of the program leaves the store sound.\<close>

definition round_renews :: "env \<Rightarrow> config \<Rightarrow> nat \<Rightarrow> world \<Rightarrow> world \<Rightarrow> bool" where
  "round_renews E C k w w' \<longleftrightarrow>
     (\<exists>cutoff. now_minus_days E (clock E (tick w)) (token_inactivity_days C) = Some cutoff \<and>
        k = card (idle_accounts E (encryption_key C) cutoff w) \<and>
        renewed_in E C (idle_accounts E (encryption_key C) cutoff w) w w')"

lemma refresh_loop_healthy:
  assumes ok: "store_ok E (encryption_key C) T w" and idp: "idp_ok E T" and h: "healthy w" and "seals E"
    and cl: "oauth_client E C = Inr cl" and resp: "\<forall>n rt. \<exists>resp. idp E n (ExchangeRefresh cl rt) = Inr resp"
    and cut: "\<forall>n. \<exists>cutoff. now_minus_days E (clock E n) (token_inactivity_days C) = Some cutoff \<and> T cutoff"
    and rest: "\<forall>m d v. store_ok E (encryption_key C) T v \<and> healthy v \<longrightarrow>
      store_ok E (encryption_key C) T (asleep m d v) \<and> healthy (asleep m d v)"
  shows "\<exists>counts w'. refresh_loop E C asleep n w = Some (counts, w') \<and> length counts = n \<and>
    store_ok E (encryption_key C) T w' \<and> healthy w' \<and>
    (\<forall>m < n. \<exists>v v'. refresh_loop E C asleep m w = Some (take m counts, v) \<and> round_renews E C (counts ! m) v v' \<and>
       refresh_loop E C asleep (Suc m) w =
         Some (take (Suc m) counts, asleep m (max (refresh_interval_secs C) 60) v'))"
proof (induction n)
  case 0
  with ok h show ?case by simp
next
  case (Suc n)
  then obtain counts v where l: "refresh_loop E C asleep n w = Some (counts, v)" "length counts = n"
    "store_ok E (encryption_key C) T v" "healthy v"
    and before: "\<forall>m < n. \<exists>v v'. refresh_loop E C asleep m w = Some (take m counts, v) \<and>
       round_renews E C (counts ! m) v v' \<and> refresh_loop E C asleep (Suc m) w =
         Some (take (Suc m) counts, asleep m (max (refresh_interval_secs C) 60) v')" by blast
  obtain cutoff where c: "now_minus_days E (clock E (tick v)) (token_inactivity_days C) = Some cutoff" "T cutoff"
    using cut by blast
  from refresh_stale_healthy [OF l(3) idp l(4) assms(4) cl resp c] obtain v' where
    s: "refresh_stale E C (token_inactivity_days C) v = Some (card (idle_accounts E (encryption_key C) cutoff v), v')"
    and did: "renewed_in E C (idle_accounts E (encryption_key C) cutoff v) v v'"
      "store_ok E (encryption_key C) T v'" "healthy v'" by blast
  let ?k = "card (idle_accounts E (encryption_key C) cutoff v)"
  let ?next = "asleep n (max (refresh_interval_secs C) 60) v'"
  have run: "refresh_loop E C asleep (Suc n) w = Some (counts @ [?k], ?next)"
    using l(1) s by (simp add: refresh_interval_def)
  have "round_renews E C ?k v v'" using c(1) did(1) by (auto simp: round_renews_def)
  then have "\<exists>v v'. refresh_loop E C asleep m w = Some (take m (counts @ [?k]), v) \<and>
       round_renews E C ((counts @ [?k]) ! m) v v' \<and> refresh_loop E C asleep (Suc m) w =
         Some (take (Suc m) (counts @ [?k]), asleep m (max (refresh_interval_secs C) 60) v')"
    if m: "m < Suc n" for m
  proof (cases "m = n")
    case True
    have "(counts @ [?k]) ! n = ?k" using l(2) by (metis nth_append_length)
    with True \<open>round_renews E C ?k v v'\<close> l run show ?thesis
      by - (rule exI [of _ v], rule exI [of _ v'], simp del: refresh_loop.simps)
  next
    case False
    with m have "m < n" by simp
    with before l(2) show ?thesis by (simp add: nth_append del: refresh_loop.simps)
  qed
  with run l(2) rest did(2,3) show ?case
    by (intro exI [of _ "counts @ [?k]"] exI [of _ ?next]) (simp del: refresh_loop.simps)
qed

section \<open>Connecting again\<close>

text \<open>Consent for an account that has a row leaves that row as it is.\<close>

lemma reconnect_keeps_rows:
  assumes ok: "store_ok E (encryption_key C) T w" and idp: "idp_ok E T"
    and run: "complete_flow E C (graph_resolve E C) code state w = (Inr a, w')"
    and b: "b \<in> set (account_rows w)" "acc_id b = acc_id a"
  shows "account_rows w' = account_rows w"
proof -
  note res = graph_profile.complete_flow_result [OF ok idp run]
  from res(5) have "\<exists>t. row_saved t a w w'" by (auto simp: connects_def)
  then have "accounts (db w') = accounts (db w) \<or> accounts (db w') = accounts (db w) @ [to_row a]"
    by (auto simp: row_saved_def)
  moreover have "accounts (db w') \<noteq> accounts (db w) @ [to_row a]"
  proof
    assume eq: "accounts (db w') = accounts (db w) @ [to_row a]"
    have "distinct (map ar_id (accounts (db w')))" using res(1) by (simp add: store_ok_def wf_ids)
    then have "acc_id a \<notin> ar_id ` set (accounts (db w))" by (simp add: eq)
    with b show False by (auto simp: account_rows_def image_iff)
  qed
  ultimately show ?thesis by (simp add: account_rows_def)
qed

end
