(* ===== verification/Uses.thy ===== *)
theory Uses
  imports Service
begin

text \<open>
  Requests for an access token under interleavings, from their start to their answer. \<open>Concurrency\<close> cuts
  the work of \<open>get_access_token\<close>; here each request also has the answer it gives: the cached token once
  its use is noted, the failure of its refresh, or what it reads again after the refresh. Undisturbed, a
  request answers as \<open>get_access_token\<close> does; disturbed, it still hands out only tokens that were stored
  for its account while it ran.
\<close>

section \<open>Answers\<close>

type_synonym answers = "nat \<Rightarrow> string result option"

definition world_of :: "system \<times> answers \<Rightarrow> world" where
  "world_of u = sys_world (fst u)"

text \<open>What the second read of a request hands out.\<close>

definition handed :: "stored_token option result \<Rightarrow> string result" where
  "handed x = (case x of Inl e \<Rightarrow> Inl e | Inr t \<Rightarrow> ok_or (token_expired no_token) (map_option st_access t))"

text \<open>\<open>asked k\<close> is the account that request \<open>k\<close> wants a token for.\<close>

inductive use_step ::
    "env \<Rightarrow> config \<Rightarrow> (nat \<Rightarrow> string option) \<Rightarrow> system \<times> answers \<Rightarrow> nat \<Rightarrow> system \<times> answers \<Rightarrow> bool"
  for E C asked where
  hands_out: "sys_tasks s k = UseBumps i tok \<Longrightarrow> system_step E C s k s' \<Longrightarrow>
     use_step E C asked (s, g) k (s', g(k \<mapsto> Inr (st_access tok)))"
| works: "\<forall>i tok. sys_tasks s k \<noteq> UseBumps i tok \<Longrightarrow> system_step E C s k s' \<Longrightarrow>
     use_step E C asked (s, g) k (s', g)"
| rereads: "sys_tasks s k = Finished (Inr ()) \<Longrightarrow> asked k = Some i \<Longrightarrow> g k = None \<Longrightarrow>
     token_get E (encryption_key C) i (sys_world s) = (x, w) \<Longrightarrow>
     use_step E C asked (s, g) k (s\<lparr>sys_world := w\<rparr>, g(k \<mapsto> handed x))"
| fails: "sys_tasks s k = Finished (Inl e) \<Longrightarrow> asked k = Some i \<Longrightarrow> g k = None \<Longrightarrow>
     use_step E C asked (s, g) k (s, g(k \<mapsto> Inl e))"

text \<open>An interleaving, with the worlds it goes through.\<close>

inductive use_run ::
    "env \<Rightarrow> config \<Rightarrow> (nat \<Rightarrow> string option) \<Rightarrow> system \<times> answers \<Rightarrow> nat list \<Rightarrow> world list \<Rightarrow> system \<times> answers \<Rightarrow> bool"
  for E C asked u0 where
  ready: "use_run E C asked u0 [] [world_of u0] u0"
| goes: "use_run E C asked u0 ks ws u \<Longrightarrow> use_step E C asked u k u' \<Longrightarrow>
     use_run E C asked u0 (ks @ [k]) (ws @ [world_of u']) u'"

section \<open>Undisturbed\<close>

fun refresh_phase :: "task \<Rightarrow> bool" where
  "refresh_phase (RefreshStart _) = True"
| "refresh_phase (RefreshWaits _ _) = True"
| "refresh_phase (RefreshHolds _ _) = True"
| "refresh_phase (RefreshAsks _ _ _) = True"
| "refresh_phase (RefreshAnswered _ _ _ _) = True"
| "refresh_phase (Finished _) = True"
| "refresh_phase _ = False"

lemma refresh_phase_step:
  "system_step E C s k s' \<Longrightarrow> refresh_phase (sys_tasks s k) \<Longrightarrow> refresh_phase (sys_tasks s' k)"
  by (induction rule: system_step.induct) simp_all

lemma refresh_phase_works:
  "refresh_phase (sys_tasks s k) \<Longrightarrow> system_step E C s k s' \<Longrightarrow> use_step E C asked (s, g) k (s', g)"
  by (rule use_step.works) auto

text \<open>A refresh that runs alone is part of the run.\<close>

lemma use_run_refresh:
  "schedule E C s ks s' \<Longrightarrow> set ks \<subseteq> {k} \<Longrightarrow> refresh_phase (sys_tasks s k) \<Longrightarrow>
   use_run E C asked u0 js ws (s, g) \<Longrightarrow> set js \<subseteq> {k} \<Longrightarrow>
   \<exists>js' ws'. use_run E C asked u0 js' ws' (s', g) \<and> set js' \<subseteq> {k}"
proof (induction arbitrary: js ws rule: schedule.induct)
  case (stop s)
  then show ?case by blast
next
  case (move s l s1 ks s2)
  have l: "l = k" using move.prems(1) by simp
  have "use_step E C asked (s, g) k (s1, g)"
    using refresh_phase_works move.hyps(1) move.prems(2) unfolding l by blast
  from use_run.goes [OF move.prems(3) this] refresh_phase_step [OF move.hyps(1)] move.prems(1,2,4) l
  show ?case by (intro move.IH [of "js @ [k]" "ws @ [world_of (s1, g)]"]) auto
qed

text \<open>What is left of a request that has to refresh.\<close>

lemma use_refreshes:
  assumes t: "sys_tasks s k = RefreshStart i" and "asked k = Some i" and "g k = None"
    and free: "sys_held s (fst (account_lock i (sys_world s))) = None"
    and run: "refresh_and_read E C i (sys_world s) = (r, w')"
    and u: "use_run E C asked u0 js ws (s, g)" "set js \<subseteq> {k}"
  shows "\<exists>js' ws' s'. use_run E C asked u0 js' ws' (s', g(k \<mapsto> r)) \<and> set js' \<subseteq> {k} \<and> sys_world s' = w' \<and>
    sys_held s' = sys_held s"
proof -
  obtain r1 w1 where rf: "refresh_account E C i (sys_world s) = (r1, w1)" by force
  from refresh_runs_to [OF t free rf] obtain n s1 where s1: "schedule E C s (replicate n k) s1"
    "sys_tasks s1 k = Finished r1" "sys_world s1 = w1" "sys_held s1 = sys_held s" by (auto simp: runs_to_def)
  have "set (replicate n k) \<subseteq> {k}" "refresh_phase (sys_tasks s k)" using t by auto
  from use_run_refresh [OF s1(1) this u] obtain js1 ws1 where
    u1: "use_run E C asked u0 js1 ws1 (s1, g)" "set js1 \<subseteq> {k}" by blast
  show ?thesis
  proof (cases r1)
    case (Inl e)
    with run rf have "r = Inl e" "w' = w1" by (simp_all add: refresh_and_read_def)
    with use_run.goes [OF u1(1) use_step.fails, of k e i] s1 Inl assms(2,3) u1(2) show ?thesis
      by (intro exI [of _ "js1 @ [k]"] exI [of _ "ws1 @ [world_of (s1, g(k \<mapsto> r))]"] exI [of _ s1]) simp
  next
    case (Inr z)
    obtain x w2 where g: "token_get E (encryption_key C) i w1 = (x, w2)" by force
    with run rf Inr have "r = handed x" "w' = w2" by (cases x; simp add: refresh_and_read_def handed_def)+
    with use_run.goes [OF u1(1) use_step.rereads, of k i x w2] s1 Inr assms(2,3) u1(2) g show ?thesis
      by (intro exI [of _ "js1 @ [k]"] exI [of _ "ws1 @ [world_of (s1\<lparr>sys_world := w2\<rparr>, g(k \<mapsto> r))]"]
          exI [of _ "s1\<lparr>sys_world := w2\<rparr>"]) simp
  qed
qed

lemma account_lock_cong: "refresh_locks w = refresh_locks v \<Longrightarrow> fst (account_lock i w) = fst (account_lock i v)"
  by (simp add: account_lock_def split: option.split)

lemma use_answers:
  assumes t: "sys_tasks s k = UseStart i" and "asked k = Some i" and "g k = None"
    and free: "sys_held s (fst (account_lock i (sys_world s))) = None"
    and run: "get_access_token E C i (sys_world s) = (r, w')"
  shows "\<exists>js ws s'. use_run E C asked (s, g) js ws (s', g(k \<mapsto> r)) \<and> set js \<subseteq> {k} \<and> sys_world s' = w' \<and>
    sys_held s' = sys_held s"
proof -
  obtain x v where g: "token_get E (encryption_key C) i (sys_world s) = (x, v)" by force
  note start = use_run.ready [of E C asked "(s, g)"]
  have works: "use_step E C asked (s, g) k (s1, g)" if "system_step E C s k s1" for s1
    by (rule use_step.works [OF _ that]) (simp add: t)
  show ?thesis
  proof (cases x)
    case (Inl e)
    with run g have r: "r = Inl e" "w' = v" by (simp_all add: get_access_token_def)
    let ?s1 = "moved s k (Finished (Inl e)) v"
    have "system_step E C s k ?s1" by (rule system_step.use_fails [OF t]) (use g Inl in simp)
    from use_run.goes [OF use_run.goes [OF start works [OF this]] use_step.fails, of k e i] assms(2,3) r show ?thesis
      by (intro exI [of _ "[k, k]"] exI [of _ "[world_of (s, g), world_of (?s1, g), world_of (?s1, g(k \<mapsto> r))]"] exI [of _ ?s1]) simp
  next
    case (Inr y)
    with g have g': "token_get E (encryption_key C) i (sys_world s) = (Inr y, v)" by simp
    obtain f w where f: "fresh_read E y v = (f, w)" by force
    show ?thesis
    proof (cases f)
      case (Some tok)
      with f have f': "fresh_read E y v = (Some tok, w)" by simp
      let ?s1 = "moved s k (UseBumps i tok) w"
      let ?s2 = "moved ?s1 k (Finished (Inr ())) (bump_last_used E C i tok w)"
      have r: "r = Inr (st_access tok)" "w' = bump_last_used E C i tok w"
        using use_runs_to(2) [OF t g' f'] run by simp_all
      have "system_step E C s k ?s1" by (rule system_step.use [OF t g' f'])
      note u1 = use_run.goes [OF start works [OF this]]
      have "use_step E C asked (?s1, g) k (?s2, g(k \<mapsto> r))" unfolding r
        by (rule use_step.hands_out [where i = i]) (auto intro: system_step.bump)
      from use_run.goes [OF u1 this] r show ?thesis
        by (intro exI [of _ "[k, k]"] exI [of _ "[world_of (s, g), world_of (?s1, g), world_of (?s2, g(k \<mapsto> r))]"] exI [of _ ?s2]) simp
    next
      case None
      with f have f': "fresh_read E y v = (None, w)" by simp
      let ?s1 = "moved s k (RefreshStart i) w"
      have "system_step E C s k ?s1" by (rule system_step.use_stale [OF t g' f'])
      note u1 = use_run.goes [OF start works [OF this]]
      have "refresh_locks w = refresh_locks (sys_world s)"
        using fresh_read_frame [of E y v] f' token_get_locks [of E "encryption_key C" i "sys_world s"] g by simp
      then have free1: "sys_held ?s1 (fst (account_lock i (sys_world ?s1))) = None"
        using free account_lock_cong [of w "sys_world s" i] by simp
      have rest: "refresh_and_read E C i (sys_world ?s1) = (r, w')"
        using run g Inr f' by (auto simp: get_access_token_def fresh_read_def case_prod_unfold Let_def
            split: option.splits if_splits)
      have t1: "sys_tasks ?s1 k = RefreshStart i" by simp
      from use_refreshes [where asked = asked and g = g, OF t1 assms(2,3) free1 rest u1] show ?thesis by simp
    qed
  qed
qed

section \<open>Disturbed\<close>

text \<open>The accounts the requests of a system that is about to start ask for.\<close>

definition asked_by :: "(nat \<Rightarrow> task) \<Rightarrow> nat \<Rightarrow> string option" where
  "asked_by ts k = (case ts k of UseStart i \<Rightarrow> Some i | _ \<Rightarrow> None)"

text \<open>A token of account \<open>i\<close> that was stored in one of the worlds \<open>ws\<close>.\<close>

definition seen :: "env \<Rightarrow> bytes \<Rightarrow> world list \<Rightarrow> string \<Rightarrow> stored_token \<Rightarrow> bool" where
  "seen E K ws i tok \<longleftrightarrow> (\<exists>v \<in> set ws. token_view E K v i = Some tok)"

lemma seen_append [intro]: "seen E K ws i tok \<Longrightarrow> seen E K (ws @ vs) i tok"
  by (auto simp: seen_def)

text \<open>A request keeps its account, what it is about to hand out has been seen, and so has what it gave.\<close>

definition sees :: "env \<Rightarrow> config \<Rightarrow> string \<Rightarrow> world list \<Rightarrow> task \<Rightarrow> string result option \<Rightarrow> bool" where
  "sees E C i ws t a \<longleftrightarrow>
     (\<forall>j. t = UseStart j \<longrightarrow> j = i) \<and> (\<forall>b. t \<noteq> DisconnectStart b) \<and> (\<forall>b. t \<noteq> DisconnectMarks b) \<and>
     (\<forall>j tok. t = UseBumps j tok \<longrightarrow> j = i \<and> seen E (encryption_key C) ws i tok) \<and>
     (\<forall>x. a = Some (Inr x) \<longrightarrow> (\<exists>tok. seen E (encryption_key C) ws i tok \<and> st_access tok = x))"

lemma sees_more: "sees E C i ws t a \<Longrightarrow> sees E C i (ws @ vs) t a"
  unfolding sees_def by (intro conjI) (blast intro: seen_append)+

lemma system_step_read:
  assumes "system_step E C s k s'" and "store_ok E (encryption_key C) T (sys_world s)"
    and "sees E C i ws (sys_tasks s k) a" and "sys_world s \<in> set ws"
  shows "sees E C i ws (sys_tasks s' k) a"
  using assms(1)
proof (cases rule: system_step.cases)
  case (use j x v tok w)
  have "x = Some tok" using use(4) by (auto simp: fresh_read_def Let_def utc_now_def split: option.splits if_splits)
  then have "token_view E (encryption_key C) (sys_world s) j = Some tok"
    using token_get_view(3) [OF assms(2) use(3), of x] by simp
  moreover have "j = i" using assms(3) use(2) by (simp add: sees_def)
  ultimately show ?thesis using assms(3,4) use(1) by (auto simp: sees_def seen_def)
qed (use assms(3) in \<open>auto simp: sees_def\<close>)

lemma system_step_other: "system_step E C s k s' \<Longrightarrow> l \<noteq> k \<Longrightarrow> sys_tasks s' l = sys_tasks s l"
  using step_moves_left by blast

lemma use_step_sound:
  assumes "use_step E C asked u k u'" and "tokens_sound E C T (fst u)" and "idp_ok E T"
  shows "tokens_sound E C T (fst u')"
  using assms(1)
proof (cases rule: use_step.cases)
  case (rereads s i g x w)
  have ok: "store_ok E (encryption_key C) T (sys_world s)" using assms(2) rereads(1) tokens_soundD(1) by simp
  from token_get_view(1) [OF ok rereads(6)] assms(2) rereads(1,2) show ?thesis by (simp add: tokens_sound_def)
qed (use assms(2) tokens_sound_step [OF _ _ assms(3)] in auto)

lemma use_step_sees:
  assumes "use_step E C asked u k u'" and "store_ok E (encryption_key C) T (world_of u)" and "world_of u \<in> set ws"
    and all: "sees E C i ws (sys_tasks (fst u) l) (snd u l)" and i: "asked l = Some i"
  shows "sees E C i ws (sys_tasks (fst u') l) (snd u' l)"
  using assms(1)
proof (cases rule: use_step.cases)
  case (hands_out s j tok s' g)
  note before = all [unfolded hands_out(1) fst_conv snd_conv]
  show ?thesis
  proof (cases "l = k")
    case False
    with before system_step_other [OF hands_out(4) False] hands_out(2) show ?thesis by simp
  next
    case True
    have "sees E C i ws (sys_tasks s' k) (g k)"
      by (rule system_step_read [OF hands_out(4)]) (use assms(2,3) before True hands_out(1) in \<open>simp_all add: world_of_def\<close>)
    with before True hands_out(2,3) show ?thesis by (auto simp: sees_def)
  qed
next
  case (works s s' g)
  note before = all [unfolded works(1) fst_conv snd_conv]
  show ?thesis
  proof (cases "l = k")
    case False
    with before system_step_other [OF works(4) False] works(2) show ?thesis by simp
  next
    case True
    have "sees E C i ws (sys_tasks s' k) (g k)"
      by (rule system_step_read [OF works(4)]) (use assms(2,3) before True works(1) in \<open>simp_all add: world_of_def\<close>)
    with True works(2) show ?thesis by simp
  qed
next
  case (rereads s j g x w)
  note before = all [unfolded rereads(1) fst_conv snd_conv]
  have "\<exists>tok. seen E (encryption_key C) ws j tok \<and> st_access tok = a" if "handed x = Inr a" for a
  proof -
    from that obtain tok where tok: "x = Inr (Some tok)" "st_access tok = a"
      by (auto simp: handed_def ok_or_def split: sum.splits option.splits)
    have "Some tok = token_view E (encryption_key C) (sys_world s) j"
      using token_get_view(3) [OF assms(2) [unfolded rereads(1) world_of_def fst_conv] rereads(6) tok(1)] .
    moreover have "sys_world s \<in> set ws" using assms(3) rereads(1) by (simp add: world_of_def)
    ultimately have "seen E (encryption_key C) ws j tok" unfolding seen_def by (metis (no_types))
    with tok(2) show ?thesis by blast
  qed
  with before i rereads(2,4) show ?thesis by (auto simp: sees_def)
next
  case (fails s e j g)
  with all show ?thesis by (auto simp: sees_def)
qed

lemma use_run_sound:
  "use_run E C asked u0 ks ws u \<Longrightarrow> tokens_sound E C T (fst u0) \<Longrightarrow> idp_ok E T \<Longrightarrow>
   tokens_sound E C T (fst u) \<and> world_of u \<in> set ws"
  by (induction rule: use_run.induct) (simp_all add: use_step_sound)

lemma use_run_sees:
  assumes "use_run E C asked u0 ks ws u" and "tokens_sound E C T (fst u0)" and "idp_ok E T"
    and "asked l = Some j" and "sees E C j [] (sys_tasks (fst u0) l) (snd u0 l)"
  shows "sees E C j ws (sys_tasks (fst u) l) (snd u l)"
  using assms(1)
proof (induction rule: use_run.induct)
  case ready
  from sees_more [OF assms(5), of "[world_of u0]"] show ?case by simp
next
  case (goes ks ws u k u')
  note sound = use_run_sound [OF goes.hyps(1) assms(2,3)]
  have ok: "store_ok E (encryption_key C) T (world_of u)"
    unfolding world_of_def by (rule tokens_soundD(1) [OF sound [THEN conjunct1]])
  show ?case by (rule sees_more [OF use_step_sees [OF goes.hyps(2) ok sound [THEN conjunct2] goes.IH assms(4)]])
qed

text \<open>A task that has not moved stands where it stood.\<close>

lemma use_step_other:
  "use_step E C asked u k u' \<Longrightarrow> l \<noteq> k \<Longrightarrow> sys_tasks (fst u') l = sys_tasks (fst u) l \<and> snd u' l = snd u l"
  by (induction rule: use_step.induct) (auto simp: system_step_other)

lemma use_run_unmoved:
  "use_run E C asked u0 ks ws u \<Longrightarrow> l \<notin> set ks \<Longrightarrow>
   sys_tasks (fst u) l = sys_tasks (fst u0) l \<and> snd u l = snd u0 l"
  by (induction rule: use_run.induct) (auto simp: use_step_other)

text \<open>The run of a request: from a state \<open>u\<close> in which it has not moved yet, up to the step that answers.\<close>

lemma handed_out_stored:
  assumes ok: "store_ok E (encryption_key C) T w" and idp: "idp_ok E T" and st: "\<forall>k. start (ts k)"
    and before: "use_run E C (asked_by ts) (begins ts w, \<lambda>_. None) js vs u" "k \<notin> set js"
    and run: "use_run E C (asked_by ts) u ks ws u1" and step: "use_step E C (asked_by ts) u1 k u2"
    and k: "ts k = UseStart i" "snd u1 k = None" "snd u2 k = Some (Inr a)"
  shows "\<exists>tok. seen E (encryption_key C) ws i tok \<and> st_access tok = a"
proof -
  have asks: "asked_by ts k = Some i" using k(1) by (simp add: asked_by_def)
  have "tokens_sound E C T (fst (begins ts w, \<lambda>_ :: nat. None :: string result option))"
    using tokens_sound_begins [OF ok st] by simp
  note sound = use_run_sound [OF before(1) this idp, THEN conjunct1]
  have "sees E C i [] (sys_tasks (fst u) k) (snd u k)"
    using use_run_unmoved [OF before] k(1) by (simp add: sees_def begins_def)
  note reads = use_run_sees [OF run sound idp asks this] and sound1 = use_run_sound [OF run sound idp]
  have ok1: "store_ok E (encryption_key C) T (world_of u1)"
    unfolding world_of_def by (rule tokens_soundD(1) [OF sound1 [THEN conjunct1]])
  from use_step_sees [OF step ok1 sound1 [THEN conjunct2] reads asks] k(3) show ?thesis
    unfolding sees_def by blast
qed

section \<open>The end\<close>

text \<open>What is left to do for a task and its answer.\<close>

definition use_left :: "(nat \<Rightarrow> string option) \<Rightarrow> system \<times> answers \<Rightarrow> nat \<Rightarrow> nat" where
  "use_left asked u k = moves_left (sys_tasks (fst u) k) + (if asked k \<noteq> None \<and> snd u k = None then 1 else 0)"

lemma use_step_left: "use_step E C asked u k u' \<Longrightarrow> use_left asked u' k < use_left asked u k"
proof (induction rule: use_step.induct)
  case (hands_out s k i tok s' g)
  with step_moves_left [OF hands_out(2)] show ?case by (auto simp: use_left_def)
next
  case (works s k s' g)
  with step_moves_left [OF works(2)] show ?case by (auto simp: use_left_def)
qed (simp_all add: use_left_def)

lemma use_run_left:
  assumes "use_run E C asked u0 ks ws u" and "finite K" and "\<forall>k. k \<notin> K \<longrightarrow> use_left asked u0 k = 0"
  shows "length ks + (\<Sum>k \<in> K. use_left asked u k) \<le> (\<Sum>k \<in> K. use_left asked u0 k) \<and>
    (\<forall>k. k \<notin> K \<longrightarrow> use_left asked u k = 0)"
  using assms(1)
proof (induction rule: use_run.induct)
  case ready
  with assms(3) show ?case by simp
next
  case (goes ks ws u k u')
  note less = use_step_left [OF goes.hyps(2)]
  have other: "use_left asked u' l = use_left asked u l" if "l \<noteq> k" for l
    using use_step_other [OF goes.hyps(2) that] by (simp add: use_left_def)
  have k: "k \<in> K" using less goes.IH by fastforce
  have "(\<Sum>l \<in> K. use_left asked u' l) < (\<Sum>l \<in> K. use_left asked u l)"
  proof (rule sum_strict_mono_ex1 [OF assms(2)])
    show "\<forall>l \<in> K. use_left asked u' l \<le> use_left asked u l" using less other le_less by metis
    show "\<exists>l \<in> K. use_left asked u' l < use_left asked u l" using k less by blast
  qed
  moreover have "\<forall>l. l \<notin> K \<longrightarrow> use_left asked u' l = 0" using goes.IH other k by metis
  ultimately show ?case using goes.IH by simp
qed

lemma use_step_mutex: "use_step E C asked u k u' \<Longrightarrow> mutex_ok (fst u) \<Longrightarrow> mutex_ok (fst u')"
proof (induction rule: use_step.induct)
  case (rereads s k i g x w)
  have "refresh_locks w = refresh_locks (sys_world s)"
    using token_get_locks [of E "encryption_key C" i "sys_world s"] rereads(4) by simp
  then show ?case using rereads(5) by (simp add: mutex_ok_def locks_ok_def)
qed (auto intro: mutex_ok_step)

lemma use_run_mutex: "use_run E C asked u0 ks ws u \<Longrightarrow> mutex_ok (fst u0) \<Longrightarrow> mutex_ok (fst u)"
  by (induction rule: use_run.induct) (auto intro: use_step_mutex)

lemma system_step_use: "system_step E C s k s' \<Longrightarrow> \<exists>u'. use_step E C asked (s, g) k u'"
  by (cases "\<exists>i tok. sys_tasks s k = UseBumps i tok") (blast intro: use_step.hands_out use_step.works)+

text \<open>Where nothing can move any more, all is done.\<close>

lemma use_stuck:
  assumes ok: "mutex_ok s" and stuck: "\<nexists>k u'. use_step E C asked (s, g) k u'"
  shows "\<exists>r. sys_tasks s k = Finished r" and "asked k \<noteq> None \<Longrightarrow> g k \<noteq> None" and "sys_held s m = None"
proof -
  have none: "\<nexists>s'. system_step E C s l s'" for l using stuck system_step_use by blast
  have fin: "\<exists>r. sys_tasks s l = Finished r" for l using waits_or_moves [OF ok, of l E C] none by blast
  then show "\<exists>r. sys_tasks s k = Finished r" by blast
  show "g k \<noteq> None" if "asked k \<noteq> None"
  proof
    assume g: "g k = None"
    from that obtain i where i: "asked k = Some i" by blast
    from fin obtain r where r: "sys_tasks s k = Finished r" by blast
    show False
    proof (cases r)
      case (Inl e)
      with use_step.fails [of s k e asked i g E C] r i g stuck show False by blast
    next
      case (Inr x)
      obtain y v where "token_get E (encryption_key C) i (sys_world s) = (y, v)" by force
      with use_step.rereads [of s k asked i g E C y v] r Inr i g stuck show False by simp
    qed
  qed
  show "sys_held s m = None"
  proof (rule ccontr)
    assume "sys_held s m \<noteq> None"
    then obtain l where "sys_held s m = Some l" by blast
    with mutex_okD(4) [OF ok] obtain j where "critical (sys_tasks s l) = Some (j, m)" by blast
    with fin [of l] show False by auto
  qed
qed

end
