(* ===== verification/Demo.thy ===== *)
theory Demo
  imports Uses
begin

text \<open>
  A concrete environment in which the hypotheses on the external code hold, and small databases:
  the instances the witnesses of the properties run on. The cipher appends a tag made of the
  key, time is rendered as nine base-256 digits, the clock counts seconds, and the provider
  answers every token request with the same tokens.
\<close>

section \<open>Fixed-width text for times\<close>

fun digits256 :: "nat \<Rightarrow> int \<Rightarrow> string" where
  "digits256 0 n = []"
| "digits256 (Suc k) n = char_of (n div 256 ^ k) # digits256 k (n mod 256 ^ k)"

fun undigits256 :: "string \<Rightarrow> int" where
  "undigits256 [] = 0"
| "undigits256 (c # cs) = of_char c * 256 ^ length cs + undigits256 cs"

lemma length_digits256 [simp]: "length (digits256 k n) = k"
  by (induction k arbitrary: n) auto

lemma div_256_bound: "0 \<le> n \<Longrightarrow> n < 256 * 256 ^ k \<Longrightarrow> 0 \<le> n div 256 ^ k \<and> n div 256 ^ k < (256 :: int)"
proof
  assume n: "0 \<le> n" "n < 256 * 256 ^ k"
  then show "0 \<le> n div 256 ^ k" by (simp add: pos_imp_zdiv_nonneg_iff)
  show "n div 256 ^ k < 256"
  proof (rule ccontr)
    assume "\<not> ?thesis"
    then have "256 * 256 ^ k \<le> n div 256 ^ k * 256 ^ k" by (intro mult_right_mono) simp_all
    moreover have "n div 256 ^ k * 256 ^ k + n mod 256 ^ k = n" by (rule div_mult_mod_eq)
    moreover have "0 \<le> n mod 256 ^ k" by simp
    ultimately show False using n by linarith
  qed
qed

lemma undigits256_digits256: "0 \<le> n \<Longrightarrow> n < 256 ^ k \<Longrightarrow> undigits256 (digits256 k n) = n"
proof (induction k arbitrary: n)
  case (Suc k)
  have "0 \<le> n div 256 ^ k \<and> n div 256 ^ k < 256" using Suc.prems by (intro div_256_bound) simp_all
  moreover have "undigits256 (digits256 k (n mod 256 ^ k)) = n mod 256 ^ k" by (rule Suc.IH) simp_all
  moreover have "n div 256 ^ k * 256 ^ k + n mod 256 ^ k = n" by (rule div_mult_mod_eq)
  ultimately show ?case by (simp add: take_bit_int_eq_self del: div_mult_mod_eq)
qed simp

lemma less_div_mod:
  assumes "0 < (b :: int)"
  shows "m < n \<longleftrightarrow> m div b < n div b \<or> (m div b = n div b \<and> m mod b < n mod b)"
proof (cases "m div b" "n div b" rule: linorder_cases)
  case less
  then have "\<not> n \<le> m" using zdiv_mono1 [of n m b] assms by auto
  with less show ?thesis by simp
next
  case equal
  moreover have "m = n div b * b + m mod b" using div_mult_mod_eq [of m b] equal by simp
  moreover have "n = n div b * b + n mod b" by simp
  ultimately show ?thesis by (metis add_less_cancel_left less_irrefl)
next
  case greater
  then have "\<not> m \<le> n" using zdiv_mono1 [of m n b] assms by auto
  with greater show ?thesis by simp
qed

lemma digits256_less:
  "0 \<le> m \<Longrightarrow> 0 \<le> n \<Longrightarrow> m < 256 ^ k \<Longrightarrow> n < 256 ^ k \<Longrightarrow> digits256 k m < digits256 k n \<longleftrightarrow> m < n"
proof (induction k arbitrary: m n)
  case (Suc k)
  have b: "0 \<le> m div 256 ^ k \<and> m div 256 ^ k < 256" "0 \<le> n div 256 ^ k \<and> n div 256 ^ k < 256"
    using Suc.prems by (intro div_256_bound; simp)+
  have ih: "digits256 k (m mod 256 ^ k) < digits256 k (n mod 256 ^ k) \<longleftrightarrow> m mod 256 ^ k < n mod 256 ^ k"
    by (rule Suc.IH) simp_all
  have ord: "(char_of x :: char) < char_of y \<longleftrightarrow> x < y" "(char_of x :: char) = char_of y \<longleftrightarrow> x = y"
    if "0 \<le> x \<and> x < 256" "0 \<le> y \<and> y < 256" for x y :: int
  proof -
    have nat: "char_of z = (char_of (nat z) :: char)" if "0 \<le> z" for z :: int
      using char_of_nat [of "nat z", where ?'a = int] that by simp
    show "(char_of x :: char) < char_of y \<longleftrightarrow> x < y" "(char_of x :: char) = char_of y \<longleftrightarrow> x = y"
      using that by (auto simp: nat less_char_def char_of_eq_iff take_bit_nat_eq_self nat_less_iff)
  qed
  have split: "m < n \<longleftrightarrow> m div 256 ^ k < n div 256 ^ k \<or>
      (m div 256 ^ k = n div 256 ^ k \<and> m mod 256 ^ k < n mod 256 ^ k)"
    by (rule less_div_mod) simp
  show ?case using ih ord [OF b] split by simp
qed simp

section \<open>The environment\<close>

definition demo_time :: "int \<Rightarrow> bool" where
  "demo_time t \<longleftrightarrow> 0 \<le> t \<and> t < 256 ^ 9"

definition demo_tag :: "bytes \<Rightarrow> bytes" where
  "demo_tag k = take 16 (k @ replicate 16 0)"

definition demo_url :: "string \<Rightarrow> url" where
  "demo_url s = \<lparr>url_text = s, url_scheme = ''https'', url_host = Some ''localhost'', url_port = None,
     url_base = True\<rparr>"

definition demo_env :: env where
  "demo_env = \<lparr>clock = (\<lambda>n. min (10 ^ 9 * int n) (10 ^ 12)), nonces = (\<lambda>n. replicate 12 (word_of_nat n)),
     uuids = (\<lambda>n. ''id-'' @ show_nat n), pkces = (\<lambda>n. (''challenge'', ''verifier'')),
     csrfs = (\<lambda>n. ''csrf''),
     aead_seal = (\<lambda>k n p. Inr (p @ demo_tag k)),
     aead_open = (\<lambda>k n c. if length c < 16 \<or> drop (length c - 16) c \<noteq> demo_tag k
        then Inl ''aead::Error'' else Inr (take (length c - 16) c)),
     to_rfc3339 = (\<lambda>t. digits256 9 t),
     parse_rfc3339 = (\<lambda>s. if length s = 9 then Some (undigits256 s) else None),
     chrono_from_std = (\<lambda>s. if int s < 10 ^ 9 then Some (10 ^ 9 * int s) else None),
     utc_plus = (\<lambda>t d. if t + d < 10 ^ 24 then Some (t + d) else None),
     now_minus_days = (\<lambda>t d. if d < 10 ^ 8 then Some (t - d * 86400 * 10 ^ 9) else None),
     base64_decode = (\<lambda>s. None), parse_socket_addr = (\<lambda>s. Inl ''invalid socket address syntax''),
     utf8_error = (\<lambda>b. ''invalid utf-8 sequence''), parse_url = (\<lambda>s. Inr (demo_url s)),
     auth_link = (\<lambda>oc scopes challenge state. demo_url (''https://login/authorize?state='' @ state)),
     idp = (\<lambda>n rq. Inr \<lparr>tp_access = ''new-access'', tp_refresh = Some ''new-refresh'',
        tp_expires_in = Some 60, tp_scopes = Some [''Mail.Read'']\<rparr>),
     graph = (\<lambda>n rq. Inr \<lparr>rs_status = 200, rs_text = Some ''profile''\<rparr>),
     json_of_text = (\<lambda>s. Inr (JObj [(''mail'', JStr ''ada@example.org''), (''displayName'', JStr ''Ada'')])),
     json_doc = (\<lambda>s. Inr (JObj [(''mail'', JStr ''ada@example.org''), (''displayName'', JStr ''Ada'')])),
     shape_error = (\<lambda>s. ''invalid type''), status_text = show_nat\<rparr>"

lemma demo_aead: "aead_ok demo_env"
  by (auto simp: aead_ok_def demo_env_def demo_tag_def)

lemma demo_rfc3339: "rfc3339_ok demo_env demo_time"
  by (auto simp: rfc3339_ok_def demo_env_def demo_time_def undigits256_digits256)

lemma demo_rfc3339_mono: "rfc3339_mono demo_env demo_time"
  by (auto simp: rfc3339_mono_def demo_env_def demo_time_def digits256_less)

lemma demo_crypto: "crypto_ok demo_env demo_time"
  by (simp add: crypto_ok_def demo_aead demo_rfc3339 demo_rfc3339_mono)

lemma demo_idp: "idp_ok demo_env demo_time"
proof -
  have "rust_str ''new-access''" "rust_str ''new-refresh''"
    by (simp_all add: rust_str_def as_bytes_def byte_of_def)
  then show ?thesis by (auto simp: idp_ok_def demo_env_def demo_time_def min_def)
qed

lemma demo_utc_plus: "utc_plus_ok demo_env demo_time"
  by (auto simp: utc_plus_ok_def demo_env_def demo_time_def)

section \<open>Two tenants, three accounts\<close>

definition demo_config :: config where
  "demo_config = \<lparr>client_id = ''app'', client_secret = ''secret'', redirect_uri = ''https://localhost/cb'',
     auth_url = ''https://login/authorize'', token_url = ''https://login/token'',
     graph_base_url = ''https://graph/v1.0'', encryption_key = replicate 32 7,
     database_path = ''unimail.db'', api_keys = [(''key-a'', ''acme''), (''key-b'', ''bolt'')],
     default_tenant_id = ''default'', api_bind_addr = ''127.0.0.1:8080'', callback_bind_addr = None,
     token_inactivity_days = 60, refresh_interval_secs = 3600\<rparr>"

abbreviation demo_key :: bytes where
  "demo_key \<equiv> encryption_key demo_config"

definition demo_row :: "string \<Rightarrow> string \<Rightarrow> string \<Rightarrow> account_row" where
  "demo_row i tenant email = \<lparr>ar_id = i, ar_tenant = tenant, ar_email = email, ar_name = None,
     ar_provider = ''microsoft'', ar_status = ''active'', ar_created = ''c'', ar_updated = ''u''\<rparr>"

definition demo_token :: "string \<Rightarrow> int option \<Rightarrow> stored_token" where
  "demo_token s e = \<lparr>st_access = s @ ''-access'', st_refresh = s @ ''-refresh'', st_scope = None,
     st_expires = e, st_last_used = Some 0, st_updated = 0\<rparr>"

definition demo_blob :: "string \<Rightarrow> bytes" where
  "demo_blob s = replicate 12 0 @ as_bytes s @ demo_tag demo_key"

definition demo_token_row :: "string \<Rightarrow> stored_token \<Rightarrow> token_row" where
  "demo_token_row i tok = token_row_of demo_env i (demo_blob (st_access tok)) (demo_blob (st_refresh tok)) tok"

definition demo_db :: database where
  "demo_db = \<lparr>accounts = [demo_row ''a1'' ''acme'' ''ann@acme.org'', demo_row ''a2'' ''acme'' ''abe@acme.org'',
        demo_row ''b1'' ''bolt'' ''bea@bolt.org''],
     tokens = [demo_token_row ''a1'' (demo_token ''ann'' (Some (10 ^ 13))),
        demo_token_row ''b1'' (demo_token ''bea'' (Some 5))],
     oauth_flows = [\<lparr>fr_state = ''csrf'', fr_verifier = demo_blob ''verifier'', fr_tenant = ''bolt'',
        fr_created = 0\<rparr>],
     faults = [], poisoned = False\<rparr>"

definition demo_world :: world where
  "demo_world = \<lparr>db = demo_db, tick = 0, wire = [], refresh_locks = []\<rparr>"

lemma demo_open: "decrypt demo_env demo_key (demo_blob s) = Inr (as_bytes s)"
proof -
  have "length (demo_tag demo_key) = 16" by (simp add: demo_tag_def)
  then show ?thesis by (simp add: decrypt_def NONCE_LEN_def demo_blob_def demo_env_def)
qed

lemma demo_encodes:
  "token_valid demo_time tok \<Longrightarrow> encodes demo_env demo_key demo_time (demo_token_row i tok) tok"
  by (simp add: encodes_def demo_token_row_def token_row_of_def demo_open)

lemma demo_token_valid:
  "rust_str (s @ ''-access'') \<Longrightarrow> rust_str (s @ ''-refresh'') \<Longrightarrow> pred_option demo_time e \<Longrightarrow>
   token_valid demo_time (demo_token s e)"
  by (simp add: token_valid_def demo_token_def demo_time_def)

lemma demo_tokens_valid:
  "token_valid demo_time (demo_token ''ann'' (Some (10 ^ 13)))"
  "token_valid demo_time (demo_token ''bea'' (Some 5))"
  by (rule demo_token_valid; simp add: rust_str_def as_bytes_def byte_of_def demo_time_def)+

lemma demo_wf: "wf_db demo_db"
  by (simp add: wf_db_def wf_tables_def demo_db_def demo_row_def demo_token_row_def token_row_of_def)

lemma demo_store: "store_ok demo_env demo_key demo_time demo_world"
  using demo_encodes [OF demo_tokens_valid(1)] demo_encodes [OF demo_tokens_valid(2)]
  unfolding store_ok_def by (auto simp: demo_crypto demo_wf demo_world_def tokens_ok_def) (auto simp: demo_db_def)

lemma demo_healthy: "healthy demo_world"
  by (simp add: healthy_def demo_world_def demo_db_def)

lemma demo_view:
  "token_view demo_env demo_key demo_world ''a1'' = Some (demo_token ''ann'' (Some (10 ^ 13)))"
  "token_view demo_env demo_key demo_world ''b1'' = Some (demo_token ''bea'' (Some 5))"
  "token_view demo_env demo_key demo_world ''a2'' = None"
proof -
  have row: "decode_row demo_env demo_key (demo_token_row i tok) 0 = Inr tok"
    if "token_valid demo_time tok" for i tok
    by (rule decode_encodes(1) [OF demo_rfc3339 demo_encodes [OF that]])
  show "token_view demo_env demo_key demo_world ''a1'' = Some (demo_token ''ann'' (Some (10 ^ 13)))"
    "token_view demo_env demo_key demo_world ''b1'' = Some (demo_token ''bea'' (Some 5))"
    "token_view demo_env demo_key demo_world ''a2'' = None"
    using row [OF demo_tokens_valid(1)] row [OF demo_tokens_valid(2)]
    by (simp_all add: token_view_def demo_world_def demo_db_def demo_token_row_def token_row_of_def)
qed

section \<open>Calls that succeed\<close>

lemma demo_seals: "seals demo_env"
  by (simp add: seals_def demo_env_def)

definition demo_client :: oauth_config where
  "demo_client = \<lparr>oc_client_id = ''app'', oc_client_secret = ''secret'',
     oc_auth_url = demo_url ''https://login/authorize'', oc_token_url = demo_url ''https://login/token'',
     oc_redirect = demo_url ''https://localhost/cb''\<rparr>"

lemma demo_client: "oauth_client demo_env demo_config = Inr demo_client"
  by (simp add: oauth_client_def demo_env_def demo_config_def demo_client_def)

lemma demo_answers:
  "\<exists>resp. idp demo_env n rq = Inr resp"
  "\<exists>resp rt. idp demo_env n rq = Inr resp \<and> tp_refresh resp = Some rt"
  by (simp_all add: demo_env_def)

lemma demo_identity:
  "\<exists>u'. graph_resolve demo_env demo_config s u =
     (Inr \<lparr>id_email = ''ada@example.org'', id_name = Some ''Ada''\<rparr>, u') \<and> db u' = db u"
  by (simp add: graph_resolve_def fetch_profile_def graph_url_def send_def call_graph_def demo_env_def
      is_success_def response_text_def parse_profile_def read_profile_def opt_member_def profile_email_def)

lemma demo_flow: "flow_view demo_world ''csrf'' =
  Some \<lparr>fr_state = ''csrf'', fr_verifier = demo_blob ''verifier'', fr_tenant = ''bolt'', fr_created = 0\<rparr>"
  by (simp add: flow_view_def demo_world_def demo_db_def)

lemma demo_unexpired: "\<not> saturating_sub (unix_time demo_env (tick demo_world)) 0 > FLOW_TTL_SECS"
  by (simp add: saturating_sub_def unix_time_def demo_env_def demo_world_def FLOW_TTL_SECS_def)

lemma demo_new_ids: "uuids demo_env n \<notin> ar_id ` set (accounts (db demo_world))"
  by (simp add: demo_env_def demo_world_def demo_db_def demo_row_def)

lemma demo_connect:
  "\<exists>a w'. complete_flow demo_env demo_config (graph_resolve demo_env demo_config) ''code'' ''csrf'' demo_world =
     (Inr a, w')"
proof -
  have v: "rust_str ''verifier''" by (simp add: rust_str_def as_bytes_def byte_of_def)
  have res: "\<And>s u. \<exists>ident u'. graph_resolve demo_env demo_config s u = (Inr ident, u') \<and> db u' = db u"
    using demo_identity by blast
  have fresh: "\<not> saturating_sub (unix_time demo_env (tick demo_world)) (fr_created
      \<lparr>fr_state = ''csrf'', fr_verifier = demo_blob ''verifier'', fr_tenant = ''bolt'', fr_created = 0\<rparr>) > FLOW_TTL_SECS"
    using demo_unexpired by simp
  have dec: "decrypt demo_env demo_key (fr_verifier
      \<lparr>fr_state = ''csrf'', fr_verifier = demo_blob ''verifier'', fr_tenant = ''bolt'', fr_created = 0\<rparr>) =
      Inr (as_bytes ''verifier'')"
    by (simp add: demo_open)
  show ?thesis
    using complete_flow_healthy [where code = "''code''" and resolve = "graph_resolve demo_env demo_config", OF demo_healthy demo_seals demo_flow fresh dec v demo_client
        demo_answers(2) res demo_new_ids] by blast
qed

lemma demo_refresh: "\<exists>w'. refresh_account demo_env demo_config ''b1'' demo_world = (Inr (), w')"
  using refresh_account_healthy [OF demo_store demo_healthy demo_seals demo_view(2) demo_client demo_answers(1)]
  by blast

lemma demo_clock: "clock demo_env n = min (10 ^ 9 * int n) (10 ^ 12)"
  by (simp add: demo_env_def)

lemma demo_tick: "tick demo_world = 0"
  by (simp add: demo_world_def)

lemma demo_cached:
  "\<exists>w'. get_access_token demo_env demo_config ''a1'' demo_world = (Inr ''ann-access'', w')"
  by (simp add: get_access_token_def token_get_healthy [OF demo_store demo_healthy] demo_view demo_token_def
      utc_now_def demo_clock demo_tick EXPIRY_SKEW_def)

lemma demo_asks:
  "sys_tasks (begins (\<lambda>_. UseStart ''a1'') demo_world) k = UseStart ''a1''"
  "asked_by (\<lambda>_. UseStart ''a1'') k = Some ''a1''"
  "sys_held (begins (\<lambda>_. UseStart ''a1'') demo_world)
     (fst (account_lock ''a1'' (sys_world (begins (\<lambda>_. UseStart ''a1'') demo_world)))) = None"
  "\<exists>w'. get_access_token demo_env demo_config ''a1'' (sys_world (begins (\<lambda>_. UseStart ''a1'') demo_world)) =
     (Inr ''ann-access'', w')"
  using demo_cached by (simp_all add: begins_def asked_by_def)

text \<open>A request that is answered at its second move.\<close>

lemma demo_reads:
  "token_get demo_env (encryption_key demo_config) ''a1'' demo_world = (Inr (Some (demo_token ''ann'' (Some (10 ^ 13)))), demo_world)"
  "fresh_read demo_env (Some (demo_token ''ann'' (Some (10 ^ 13)))) demo_world = (Some (demo_token ''ann'' (Some (10 ^ 13))), tock demo_world)"
  "st_access (demo_token ''ann'' (Some (10 ^ 13))) = ''ann-access''"
  by (simp_all add: token_get_healthy [OF demo_store demo_healthy] demo_view demo_token_def fresh_read_def
      utc_now_def demo_clock demo_tick EXPIRY_SKEW_def)

lemma demo_use:
  assumes "ts 0 = UseStart ''a1''"
  shows "\<exists>u1 u2 ws. use_run demo_env demo_config (asked_by ts) (begins ts demo_world, \<lambda>_. None) [0] ws u1 \<and>
     use_step demo_env demo_config (asked_by ts) u1 0 u2 \<and> snd u1 0 = None \<and>
     snd u2 0 = Some (Inr ''ann-access'')"
proof -
  let ?g = "\<lambda>_ :: nat. None :: string result option" and ?s = "begins ts demo_world"
  let ?s1 = "moved ?s 0 (UseBumps ''a1'' (demo_token ''ann'' (Some (10 ^ 13)))) (tock demo_world)"
  let ?s2 = "moved ?s1 0 (Finished (Inr ())) (bump_last_used demo_env demo_config ''a1'' (demo_token ''ann'' (Some (10 ^ 13))) (tock demo_world))"
  have "system_step demo_env demo_config ?s 0 ?s1"
    by (rule system_step.use [OF _ _ demo_reads(2)]) (use assms demo_reads(1) in \<open>simp_all add: begins_def\<close>)
  then have "use_step demo_env demo_config (asked_by ts) (?s, ?g) 0 (?s1, ?g)"
    by (rule use_step.works [rotated]) (simp add: begins_def assms)
  note run = use_run.goes [OF use_run.ready this]
  have "use_step demo_env demo_config (asked_by ts) (?s1, ?g) 0 (?s2, ?g(0 \<mapsto> Inr (st_access (demo_token ''ann'' (Some (10 ^ 13))))))"
    by (rule use_step.hands_out [where i = "''a1''"]) (auto intro: system_step.bump)
  moreover have "(?g(0 \<mapsto> Inr (st_access (demo_token ''ann'' (Some (10 ^ 13)))))) 0 = Some (Inr ''ann-access'')" by (simp add: demo_token_def)
  ultimately show ?thesis using run
    by (intro exI [of _ "(?s1, ?g)"] exI [of _ "(?s2, ?g(0 \<mapsto> Inr (st_access (demo_token ''ann'' (Some (10 ^ 13))))))"] exI conjI) simp_all
qed

definition demo_account :: account where
  "demo_account = of_row (demo_row ''a1'' ''acme'' ''ann@acme.org'')"

lemma demo_disconnect: "\<exists>w'. disconnect demo_env demo_account demo_world = (Inr (), w')"
  by (simp add: disconnect_def token_delete_def account_set_status_def on_db_def run_sql_def with_lock_def
      now_def utc_now_def tock_def demo_world_def demo_db_def delete_token_def update_status_def demo_account_def
      demo_row_def exec_sql_def)

section \<open>Requests\<close>

definition demo_web :: web where
  "demo_web = \<lparr>wb_header_text = (\<lambda>s. Some s), wb_email_query = (\<lambda>s. Inr \<lparr>eq_limit = None, eq_query = None\<rparr>),
     wb_limit_query = (\<lambda>s. Inr (Some 500)),
     wb_send_body = (\<lambda>q. Inr \<lparr>sm_to = ''to'', sm_subject = ''s'', sm_body = hq_body q\<rparr>),
     wb_fallback = (\<lambda>q. status_only 404)\<rparr>"

definition demo_request :: "string \<Rightarrow> string list \<Rightarrow> string \<Rightarrow> api_request" where
  "demo_request verb path key = \<lparr>hq_method = verb, hq_path = path,
     hq_headers = [(''authorization'', ''Bearer '' @ key)], hq_query = '''', hq_body = ''''\<rparr>"

lemma demo_tenants:
  "resolve_tenant demo_config (extract_api_key demo_web (demo_request verb path ''key-a'')) = Some ''acme''"
  "resolve_tenant demo_config (extract_api_key demo_web (demo_request verb path ''wrong'')) = None"
proof -
  have "trim ''key-a'' = ''key-a''" "trim ''wrong'' = ''wrong''"
    by (rule trim_graphic; simp add: graphic_def)+
  then show "resolve_tenant demo_config (extract_api_key demo_web (demo_request verb path ''key-a'')) = Some ''acme''"
    "resolve_tenant demo_config (extract_api_key demo_web (demo_request verb path ''wrong'')) = None"
    by (simp_all add: resolve_tenant_def extract_api_key_def header_def demo_web_def demo_request_def demo_config_def)
qed

text \<open>The last tenant's request for its accounts.\<close>

lemma demo_listing:
  "\<exists>resp w'. serve_request demo_web demo_env demo_config (demo_request ''GET'' [''accounts''] ''key-a'') demo_world =
     Some (resp, w')"
proof -
  have "hq_path (demo_request ''GET'' [''accounts''] ''key-a'') = [''accounts'']"
    "hq_method (demo_request ''GET'' [''accounts''] ''key-a'') = ''GET''"
    by (simp_all add: demo_request_def)
  then have "serve_request demo_web demo_env demo_config (demo_request ''GET'' [''accounts''] ''key-a'') demo_world =
      map_option (apfst (head_reply (demo_request ''GET'' [''accounts''] ''key-a'')))
        (run_endpoint demo_web demo_env demo_config (demo_request ''GET'' [''accounts''] ''key-a'') ListAccounts
          ''acme'' demo_world)"
    using demo_tenants(1) by (simp add: serve_request_def api_key_middleware_def protected_path_def verb_matches_def)
  then show ?thesis by (simp add: prod_eq_iff)
qed

section \<open>A disconnected account\<close>

definition demo_gone_row :: account_row where
  "demo_gone_row = (demo_row ''c1'' ''bolt'' ''ada@example.org'')\<lparr>ar_status := ''disconnected''\<rparr>"

definition demo_gone :: world where
  "demo_gone = demo_world\<lparr>db := demo_db\<lparr>accounts := accounts demo_db @ [demo_gone_row]\<rparr>\<rparr>"

lemma demo_gone_store: "store_ok demo_env demo_key demo_time demo_gone"
proof -
  have "wf_db (db demo_gone)"
    by (simp add: wf_db_def wf_tables_def demo_gone_def demo_db_def demo_row_def demo_gone_row_def
        demo_token_row_def token_row_of_def)
  moreover have "tokens (db demo_gone) = tokens (db demo_world)" by (simp add: demo_gone_def demo_world_def)
  ultimately show ?thesis using demo_store by (simp add: store_ok_def tokens_ok_def)
qed

lemma demo_gone_healthy: "healthy demo_gone"
  by (simp add: healthy_def demo_gone_def demo_db_def)

lemma demo_gone_accounts:
  "accounts (db demo_gone) = [demo_row ''a1'' ''acme'' ''ann@acme.org'', demo_row ''a2'' ''acme'' ''abe@acme.org'',
     demo_row ''b1'' ''bolt'' ''bea@bolt.org'', demo_gone_row]"
  by (simp add: demo_gone_def demo_db_def)

lemma demo_reconnect:
  "\<exists>a w'. complete_flow demo_env demo_config (graph_resolve demo_env demo_config) ''code'' ''csrf'' demo_gone =
     (Inr a, w') \<and> acc_id a = ''c1''"
proof -
  let ?row = "\<lparr>fr_state = ''csrf'', fr_verifier = demo_blob ''verifier'', fr_tenant = ''bolt'', fr_created = 0\<rparr>"
  have v: "rust_str ''verifier''" by (simp add: rust_str_def as_bytes_def byte_of_def)
  have res: "\<And>s u. \<exists>ident u'. graph_resolve demo_env demo_config s u = (Inr ident, u') \<and> db u' = db u"
    using demo_identity by blast
  have row: "flow_view demo_gone ''csrf'' = Some ?row" by (simp add: flow_view_def demo_gone_def demo_db_def)
  have fresh: "\<not> saturating_sub (unix_time demo_env (tick demo_gone)) (fr_created ?row) > FLOW_TTL_SECS"
    using demo_unexpired by (simp add: demo_gone_def)
  have dec: "decrypt demo_env demo_key (fr_verifier ?row) = Inr (as_bytes ''verifier'')" by (simp add: demo_open)
  have ids: "\<And>n. uuids demo_env n \<notin> ar_id ` set (accounts (db demo_gone))"
    by (simp add: demo_env_def demo_gone_accounts demo_row_def demo_gone_row_def)
  obtain a w' s u ident where
    c: "complete_flow demo_env demo_config (graph_resolve demo_env demo_config) ''code'' ''csrf'' demo_gone = (Inr a, w')"
    and i: "fst (graph_resolve demo_env demo_config s u) = Inr ident"
    and f: "\<forall>q. List.find (\<lambda>q. ar_tenant q = fr_tenant ?row \<and> sql_lower (ar_email q) = sql_lower (id_email ident))
       (accounts (db demo_gone)) = Some q \<longrightarrow> acc_id a = ar_id q"
    using complete_flow_healthy [where code = "''code''" and resolve = "graph_resolve demo_env demo_config",
        OF demo_gone_healthy demo_seals row fresh dec v demo_client demo_answers(2) res ids] by blast
  have "id_email ident = ''ada@example.org''" using demo_identity [of s u] i by auto
  then have "List.find (\<lambda>q. ar_tenant q = fr_tenant ?row \<and> sql_lower (ar_email q) = sql_lower (id_email ident))
      (accounts (db demo_gone)) = Some demo_gone_row"
    by (simp add: demo_gone_accounts demo_row_def demo_gone_row_def sql_lower_def sql_lower_char_def)
  with f c show ?thesis by (auto simp: demo_gone_row_def demo_row_def)
qed

section \<open>A token that has not been used yet\<close>

definition demo_idle_token :: stored_token where
  "demo_idle_token = (demo_token ''ann'' (Some (10 ^ 13)))\<lparr>st_last_used := None\<rparr>"

definition demo_idle :: world where
  "demo_idle = demo_world\<lparr>db := demo_db\<lparr>tokens := [demo_token_row ''a1'' demo_idle_token]\<rparr>\<rparr>"

lemma demo_idle_valid: "token_valid demo_time demo_idle_token"
  using demo_tokens_valid(1) by (simp add: demo_idle_token_def token_valid_def)

lemma demo_idle_store: "store_ok demo_env demo_key demo_time demo_idle"
proof -
  have "wf_db (db demo_idle)"
    by (simp add: wf_db_def wf_tables_def demo_idle_def demo_db_def demo_row_def demo_token_row_def token_row_of_def)
  with demo_encodes [OF demo_idle_valid] show ?thesis
    unfolding store_ok_def by (auto simp: demo_crypto tokens_ok_def demo_idle_def)
qed

lemma demo_idle_healthy: "healthy demo_idle"
  by (simp add: healthy_def demo_idle_def demo_db_def)

lemma demo_idle_view: "token_view demo_env demo_key demo_idle ''a1'' = Some demo_idle_token"
proof -
  have "decode_row demo_env demo_key (demo_token_row ''a1'' demo_idle_token) 0 = Inr demo_idle_token"
    by (rule decode_encodes(1) [OF demo_rfc3339 demo_encodes [OF demo_idle_valid]])
  then show ?thesis by (simp add: token_view_def demo_idle_def demo_token_row_def token_row_of_def)
qed

lemma demo_rotates:
  "\<exists>resp rt. idp demo_env n rq = Inr resp \<and> tp_refresh resp = Some rt \<and> rt \<noteq> st_refresh demo_idle_token"
  by (simp add: demo_env_def demo_idle_token_def demo_token_def)

lemma demo_idle_fresh: "fresh_at demo_env n demo_idle_token"
  by (simp add: fresh_at_def demo_idle_token_def demo_token_def demo_clock EXPIRY_SKEW_def min_def)

lemma demo_idle_accounts: "idle_accounts demo_env demo_key cutoff demo_idle = {''a1''}"
proof -
  have "token_view demo_env demo_key demo_idle i = None" if "i \<noteq> ''a1''" for i
    using that by (simp add: token_view_def demo_idle_def demo_token_row_def token_row_of_def)
  then show ?thesis
    by (auto simp: idle_accounts_def demo_idle_view idle_def demo_idle_token_def intro: ccontr)
qed

text \<open>A configuration under which every unused token is idle at once.\<close>

definition demo_eager :: config where
  "demo_eager = demo_config\<lparr>token_inactivity_days := 0\<rparr>"

lemma demo_eager: "encryption_key demo_eager = demo_key" "oauth_client demo_env demo_eager = Inr demo_client"
  "token_inactivity_days demo_eager = 0"
  by (simp_all add: demo_eager_def oauth_client_def demo_config_def demo_env_def demo_client_def)

lemma demo_threshold:
  "now_minus_days demo_env (clock demo_env n) 0 = Some (clock demo_env n)" "demo_time (clock demo_env n)"
  by (simp add: demo_env_def) (simp add: demo_clock demo_time_def min_def)

section \<open>Two flows of one tenant\<close>

definition demo_pending :: "string \<Rightarrow> flow_row" where
  "demo_pending s = \<lparr>fr_state = s, fr_verifier = demo_blob ''verifier'', fr_tenant = ''bolt'', fr_created = 500\<rparr>"

definition demo_two :: world where
  "demo_two = demo_world\<lparr>db := demo_db\<lparr>oauth_flows := [demo_pending ''csrf'', demo_pending ''csrf2'']\<rparr>\<rparr>"

lemma demo_unix: "0 \<le> unix_time demo_env n \<and> unix_time demo_env n \<le> 1000"
proof -
  let ?t = "clock demo_env n div 10 ^ 9"
  have t: "0 \<le> clock demo_env n" "?t \<le> 1000" "0 \<le> ?t" by (simp_all add: demo_clock)
  then have "sint (word_of_int ?t :: 64 word) = ?t" by (simp add: signed_take_bit_int_eq_self sint_sbintrunc')
  with t show ?thesis by (simp add: unix_time_def)
qed

lemma demo_pending_fresh: "\<not> saturating_sub (unix_time demo_env n) (fr_created (demo_pending s)) > FLOW_TTL_SECS"
  using demo_unix [of n] by (simp add: saturating_sub_def FLOW_TTL_SECS_def demo_pending_def)

text \<open>Two callbacks for the same new address, up to the point where both have found no account.\<close>

lemma demo_both_checked:
  assumes ts: "ts 0 = Asking ''code'' ''csrf''" "ts 1 = Asking ''code'' ''csrf2''"
  shows "\<exists>us u a tok b tok'. consents demo_env demo_config (graph_resolve demo_env demo_config) meanwhile ts demo_two us u \<and>
     us 0 = Checked ''csrf'' a tok True \<and> us 1 = Checked ''csrf2'' b tok' True \<and> healthy u \<and>
     accounts (db u) = accounts (db demo_world) \<and> acc_id a \<notin> ar_id ` set (accounts (db u)) \<and>
     acc_tenant a = ''bolt'' \<and> acc_email a = ''ada@example.org'' \<and> acc_tenant b = ''bolt'' \<and> acc_email b = ''ada@example.org''"
proof -
  let ?run = "consents demo_env demo_config (graph_resolve demo_env demo_config) meanwhile"
  let ?ident = "\<lparr>id_email = ''ada@example.org'', id_name = Some ''Ada''\<rparr>"
  have h: "healthy demo_two" by (simp add: healthy_def demo_two_def demo_db_def)
  have rows: "flow_view demo_two ''csrf'' = Some (demo_pending ''csrf'')" "flow_view demo_two ''csrf2'' = Some (demo_pending ''csrf2'')"
    by (simp_all add: flow_view_def demo_two_def demo_pending_def)
  have dec: "decrypt demo_env demo_key (fr_verifier (demo_pending s)) = Inr (as_bytes ''verifier'')" for s
    by (simp add: demo_pending_def demo_open)
  have v: "rust_str ''verifier''" by (simp add: rust_str_def as_bytes_def byte_of_def)
  have ij: "(0 :: nat) \<noteq> 1" "''csrf'' \<noteq> ''csrf2''" by simp_all
  obtain us u fi tsi rti fj tsj rtj where c: "?run ts demo_two us u"
    "us 0 = Identified ''csrf'' fi tsi rti ?ident" "us 1 = Identified ''csrf2'' fj tsj rtj ?ident"
    "pf_tenant fi = ''bolt''" "pf_tenant fj = ''bolt''" "healthy u" "accounts (db u) = accounts (db demo_two)"
    using consents_both_identified [where resolve = "graph_resolve demo_env demo_config" and meanwhile = meanwhile,
        OF h ij(1) ts ij(2) rows demo_pending_fresh demo_pending_fresh dec dec v demo_client demo_answers(2) demo_identity]
    by (metis demo_pending_def flow_row.select_convs(3))
  have acc: "accounts (db u) = accounts (db demo_world)" using c(7) by (simp add: demo_two_def demo_world_def)
  have new: "\<not> (\<exists>q \<in> set (accounts (db u)). ar_tenant q = pf_tenant fi \<and> sql_lower (ar_email q) = sql_lower (id_email ?ident))"
    unfolding acc c(4) by (simp add: demo_world_def demo_db_def demo_row_def sql_lower_def sql_lower_char_def)
  have ids: "\<And>n. uuids demo_env n \<notin> ar_id ` set (accounts (db u))" unfolding acc by (rule demo_new_ids)
  have ten: "pf_tenant fj = pf_tenant fi" using c(4,5) by simp
  obtain vs v a tok b tok' where d: "?run us u vs v"
    "vs 0 = Checked ''csrf'' a tok True" "vs 1 = Checked ''csrf2'' b tok' True" "db v = db u"
    "acc_tenant a = pf_tenant fi" "acc_email a = id_email ?ident" "acc_id a \<in> range (uuids demo_env)"
    "acc_tenant b = pf_tenant fi" "acc_email b = id_email ?ident"
    using consents_both_checked [where resolve = "graph_resolve demo_env demo_config" and meanwhile = meanwhile,
        OF c(6) ij(1) c(2,3) ten new ids] by metis
  have "acc_id a \<notin> ar_id ` set (accounts (db v))" unfolding d(4) using d(7) ids by (metis imageE)
  moreover have "healthy v" using c(6) d(4) by (simp add: healthy_def)
  ultimately show ?thesis using consents_trans [OF d(1) c(1)] d(2-6,8,9) acc c(4)
    by (intro exI [of _ vs] exI [of _ v] exI [of _ a] exI [of _ tok] exI [of _ b] exI [of _ tok']) simp
qed

end
