(* ===== verification/Traffic.thy ===== *)
theory Traffic
  imports Mcp
begin

text \<open>
  What the surfaces ask of Graph. \<open>sends P\<close> says that every request to Graph between two worlds
  satisfies \<open>P\<close>; it is the second instance of \<open>effect_order\<close>, so statements about a handler are composed
  from those about the calls it makes. The result is, per endpoint and per tool, the shape of the requests:
  how large a page, which message, which method.
\<close>

section \<open>Requests between two worlds\<close>

definition sends :: "env \<Rightarrow> bytes \<Rightarrow> (int \<Rightarrow> bool) \<Rightarrow> (http_request \<Rightarrow> bool) \<Rightarrow> world \<Rightarrow> world \<Rightarrow> bool" where
  "sends E K T P w w' \<longleftrightarrow>
     store_ok E K T w' \<and> (\<exists>es. wire w' = wire w @ es \<and> (\<forall>q \<in> set (graph_sent es). P q))"

lemma sends_refl: "store_ok E K T w \<Longrightarrow> sends E K T P w w"
  by (simp add: sends_def)

lemma sends_trans:
  assumes "sends E K T P w w1" and "sends E K T P w1 w2"
  shows "sends E K T P w w2"
proof -
  from assms obtain es fs where "wire w1 = wire w @ es" "wire w2 = wire w1 @ fs" "store_ok E K T w2"
    "\<forall>q \<in> set (graph_sent es). P q" "\<forall>q \<in> set (graph_sent fs). P q" by (auto simp: sends_def)
  then have "wire w2 = wire w @ (es @ fs)" "\<forall>q \<in> set (graph_sent (es @ fs)). P q" "store_ok E K T w2" by auto
  then show ?thesis unfolding sends_def by blast
qed

interpretation sending: effect_order "store_ok E K T" "sends E K T P" for E K T P
proof (unfold_locales, goal_cases)
  case (2 w w')
  then show ?case by (simp add: sends_def)
qed (fact sends_refl sends_trans)+

lemma sends_mail:
  assumes "mail_effect E K T i rq n w w'" and "\<And>s. P (rq s)"
  shows "sends E K T P w w'"
proof -
  from assms(1) obtain es where es: "store_ok E K T w'" "wire w' = wire w @ es"
    "\<forall>q \<in> set (graph_sent es). \<exists>u v. token_view E K w i = Some u \<and> renewal E u v \<and> q = rq (st_access v)"
    by (auto simp: mail_effect_def)
  have "\<forall>q \<in> set (graph_sent es). P q"
  proof
    fix q assume "q \<in> set (graph_sent es)"
    with es(3) have "\<exists>v :: stored_token. q = rq (st_access v)" by blast
    with assms(2) show "P q" by auto
  qed
  with es(1,2) show ?thesis unfolding sends_def by blast
qed

text \<open>What leaves the wire alone sends nothing.\<close>

lemma sends_quiet: "acts_for E K T t w w' \<Longrightarrow> wire w' = wire w \<Longrightarrow> sends E K T P w w'"
  by (simp add: sends_def acts_for_def)

lemma sends_account_get: "store_ok E K T w \<Longrightarrow> sends E K T P w (snd (account_get s i w))"
  using acts_for_account_get account_get_result [of s i w "fst (account_get s i w)" "snd (account_get s i w)"] by (intro sends_quiet) auto

lemma sends_account_list: "store_ok E K T w \<Longrightarrow> sends E K T P w (snd (account_list s w))"
  using acts_for_account_list account_list_result [of s w "fst (account_list s w)" "snd (account_list s w)"] by (intro sends_quiet) auto

lemma sends_by_email: "store_ok E K T w \<Longrightarrow> sends E K T P w (snd (account_get_by_email s i w))"
  using acts_for_by_email account_get_by_email_result [of s i w "fst (account_get_by_email s i w)" "snd (account_get_by_email s i w)"] by (intro sends_quiet) auto

section \<open>The provider's operations\<close>

text \<open>A page of a mailbox: at most \<open>n\<close> messages; a search text stands in quotes and holds none.\<close>

definition page_request :: "nat \<Rightarrow> http_request \<Rightarrow> bool" where
  "page_request n q \<longleftrightarrow> rq_method q = GET \<and> rq_push q = [] \<and> rq_body q = None \<and>
     (\<exists>k. k \<le> n \<and> map_of (rq_query q) ''$top'' = Some (show_nat k)) \<and>
     (case map_of (rq_query q) ''$search'' of
        None \<Rightarrow> map_of (rq_query q) ''$orderby'' = Some ''receivedDateTime desc''
      | Some s \<Rightarrow> map_of (rq_query q) ''$orderby'' = None \<and>
          (\<exists>inner. s = [CHR 0x22] @ inner @ [CHR 0x22] \<and> CHR 0x22 \<notin> set inner))"

definition message_request :: "string \<Rightarrow> http_request \<Rightarrow> bool" where
  "message_request m q \<longleftrightarrow> rq_method q = GET \<and> rq_push q = [m] \<and> rq_query q = [] \<and> rq_body q = None"

definition mail_request :: "string \<Rightarrow> string \<Rightarrow> string \<Rightarrow> http_request \<Rightarrow> bool" where
  "mail_request to subject body q \<longleftrightarrow> rq_method q = POST \<and> rq_push q = [] \<and> rq_query q = [] \<and>
     rq_body q = Some (mail_payload to subject body)"

lemma page_request_list:
  assumes "k \<le> n"
  shows "page_request n (request GET \<lparr>tg_url = url, tg_push = [], tg_query = list_query k query\<rparr> None s)"
proof -
  have top: "map_of (list_query k query) ''$top'' = Some (show_nat k)" by (rule list_query_top)
  show ?thesis
  proof (cases "\<exists>qs. query = Some qs \<and> trim qs \<noteq> []")
    case True
    then obtain qs where qs: "query = Some qs" "trim qs \<noteq> []" by blast
    from list_query_search [OF qs(2)] top assms show ?thesis unfolding page_request_def request_def qs(1) by auto
  next
    case False
    then have "query = None \<or> (\<exists>qs. query = Some qs \<and> trim qs = [])" by (cases query) auto
    from list_query_default [OF this] top assms show ?thesis unfolding page_request_def request_def by auto
  qed
qed

lemma sends_list_messages:
  assumes "store_ok E (encryption_key C) T w" and "idp_ok E T" and "k \<le> n"
  shows "sends E (encryption_key C) T (page_request n) w (snd (list_messages E C a k query w))"
proof -
  from list_messages_effect [OF assms(1,2) surjective_pairing] obtain url where
    "mail_effect E (encryption_key C) T (acc_id a) (request GET \<lparr>tg_url = url, tg_push = [], tg_query = list_query k query\<rparr> None)
      2 w (snd (list_messages E C a k query w))" ..
  then show ?thesis by (rule sends_mail) (rule page_request_list [OF assms(3)])
qed

lemma sends_get_message:
  assumes "store_ok E (encryption_key C) T w" and "idp_ok E T"
  shows "sends E (encryption_key C) T (message_request m) w (snd (get_message E C a m w))"
proof -
  from get_message_effect [OF assms surjective_pairing] obtain url where
    "mail_effect E (encryption_key C) T (acc_id a) (request GET \<lparr>tg_url = url, tg_push = [m], tg_query = []\<rparr> None)
      2 w (snd (get_message E C a m w))" ..
  then show ?thesis by (rule sends_mail) (simp add: message_request_def request_def)
qed

lemma sends_send_message:
  assumes "store_ok E (encryption_key C) T w" and "idp_ok E T"
  shows "sends E (encryption_key C) T (mail_request to subject body) w (snd (send_message E C a to subject body w))"
proof -
  from send_message_effect [OF assms surjective_pairing] obtain url where
    "mail_effect E (encryption_key C) T (acc_id a) (request POST \<lparr>tg_url = url, tg_push = [], tg_query = []\<rparr>
      (Some (mail_payload to subject body))) 2 w (snd (send_message E C a to subject body w))" ..
  then show ?thesis by (rule sends_mail) (simp add: mail_request_def request_def)
qed

text \<open>The inbox asks every mailbox for a page of the limit.\<close>

lemma sends_inbox:
  assumes ok: "store_ok E (encryption_key C) T w" and idp: "idp_ok E T" and k: "k \<le> n"
  shows "sends E (encryption_key C) T (page_request n) w (snd (bindE (account_list t w) (\<lambda>accs w.
    aggregate_unified_inbox E (list_messages E C) accs k w)))"
proof (rule sending.bind_effect)
  let ?w = "snd (account_list t w)"
  show "sends E (encryption_key C) T (page_request n) w ?w" by (rule sends_account_list [OF ok])
  fix accs
  assume ok1: "store_ok E (encryption_key C) T ?w"
  have "sends E (encryption_key C) T (page_request n) ?w (snd (fetch_all (list_messages E C) k accs ?w))"
  proof (rule sending.fetch_all_effect)
    show "sends E (encryption_key C) T (page_request n) ?w ?w" by (rule sends_refl [OF ok1])
    fix a v assume "sends E (encryption_key C) T (page_request n) ?w v"
    then show "sends E (encryption_key C) T (page_request n) v (snd (list_messages E C a k None v))"
      by (intro sends_list_messages [OF _ idp k]) (simp add: sends_def)
  qed
  then show "sends E (encryption_key C) T (page_request n) ?w (snd (aggregate_unified_inbox E (list_messages E C) accs k ?w))"
    by (simp add: aggregate_unified_inbox_def case_prod_unfold Let_def)
qed

section \<open>Endpoints and tools\<close>

fun endpoint_request :: "web \<Rightarrow> api_request \<Rightarrow> endpoint \<Rightarrow> http_request \<Rightarrow> bool" where
  "endpoint_request X q (ListEmails i) r = page_request 200 r"
| "endpoint_request X q UnifiedInbox r = page_request 200 r"
| "endpoint_request X q (GetEmail i m) r = message_request m r"
| "endpoint_request X q (SendEmail i) r =
     (\<exists>b. wb_send_body X q = Inr b \<and> mail_request (sm_to b) (sm_subject b) (sm_body b) r)"
| "endpoint_request X q _ r = False"

fun tool_request :: "tool_call \<Rightarrow> http_request \<Rightarrow> bool" where
  "tool_request (ListEmailsTool p) r = page_request 200 r"
| "tool_request (SearchEmailsTool p) r = page_request 50 r"
| "tool_request (ReadEmailTool p) r = message_request (rp_message p) r"
| "tool_request (SendEmailTool p) r = mail_request (ep_to p) (ep_subject p) (ep_body p) r"
| "tool_request (UnifiedInboxTool p) r = page_request 500 r"
| "tool_request ListAccountsTool r = False"

lemma page_limit_bound: "page_limit l \<le> 200"
  by (simp add: page_limit_def MAX_LIMIT_def)

lemma sends_on_account:
  assumes "store_ok E K T w" and "\<And>a v. store_ok E K T v \<Longrightarrow> sends E K T P v (snd (f a v))"
  shows "sends E K T P w (snd (bindE (account_get t i w) f))"
  by (rule sending.bind_effect [OF sends_account_get [OF assms(1)]]) (rule assms(2))

lemma sends_extracted:
  assumes "store_ok E K T w" and "\<And>q. x = Inr q \<Longrightarrow> sends E K T P w (snd (h q w))"
    and "extracted x h w = (resp, w')"
  shows "sends E K T P w w'"
proof (cases x)
  case (Inl rejection)
  with assms(1,3) show ?thesis by (simp add: extracted_def sends_refl)
next
  case (Inr q)
  with assms(3) have "w' = snd (h q w)" by (simp add: extracted_def)
  with assms(2) [OF Inr] show ?thesis by simp
qed

lemma run_endpoint_sends:
  assumes ok: "store_ok E (encryption_key C) T w" and idp: "idp_ok E T"
    and run: "run_endpoint X E C q ep t w = Some (resp, w')"
  shows "sends E (encryption_key C) T (endpoint_request X q ep) w w'"
proof (cases ep)
  case ListAccounts
  with run have "w' = snd (account_list t w)" by (auto simp: list_accounts_def dest: arg_cong [where f = snd])
  with sends_account_list [OF ok] show ?thesis by simp
next
  case ConnectAccount
  with run obtain r w1 where b: "begin_flow E C t w = Some (r, w1)"
    by (auto simp: connect_account_def split: option.splits)
  with run ConnectAccount have "w' = w1" by (cases r) (auto simp: connect_account_def respond_def)
  with sends_quiet [OF acts_for_begin_flow [OF ok b] begin_flow_quiet(3) [OF b]] show ?thesis by simp
next
  case (DisconnectAccount i)
  have "sends E (encryption_key C) T P w (snd (disconnect_account E t i w))" for P
    unfolding disconnect_account_def
  proof (rule sends_on_account [OF ok])
    fix a v assume "store_ok E (encryption_key C) T v"
    from disconnect_result [OF this surjective_pairing] show "sends E (encryption_key C) T P v (snd (disconnect E a v))"
      by (simp add: sends_def)
  qed
  with run DisconnectAccount show ?thesis by (auto dest: arg_cong [where f = snd])
next
  case (ListEmails i)
  have "sends E (encryption_key C) T (page_request 200) w (snd (list_emails E C t i qq w))" for qq
    unfolding list_emails_def
    by (rule sends_on_account [OF ok]) (rule sends_list_messages [OF _ idp page_limit_bound])
  then show ?thesis
    by (intro sends_extracted [OF ok _ run [unfolded ListEmails run_endpoint.simps option.inject]])
      (simp add: ListEmails sends_def)
next
  case (GetEmail i m)
  have "sends E (encryption_key C) T (message_request m) w (snd (get_email E C t i m w))"
    unfolding get_email_def by (rule sends_on_account [OF ok]) (rule sends_get_message [OF _ idp])
  with run GetEmail show ?thesis by (auto simp: sends_def dest: arg_cong [where f = snd])
next
  case (SendEmail i)
  have "sends E (encryption_key C) T (mail_request (sm_to b) (sm_subject b) (sm_body b)) w (snd (send_email E C t i b w))" for b
    unfolding send_email_def by (rule sends_on_account [OF ok]) (rule sends_send_message [OF _ idp])
  then show ?thesis
    by (intro sends_extracted [OF ok _ run [unfolded SendEmail run_endpoint.simps option.inject]])
      (simp add: SendEmail sends_def)
next
  case UnifiedInbox
  have "sends E (encryption_key C) T (page_request 200) w (snd (unified_inbox E C t n w))" for n
    unfolding unified_inbox_def by (rule sends_inbox [OF ok idp page_limit_bound])
  then show ?thesis
    by (intro sends_extracted [OF ok _ run [unfolded UnifiedInbox run_endpoint.simps option.inject]])
      (simp add: UnifiedInbox sends_def)
qed

lemma sends_resolve:
  assumes "store_ok E K T w"
  shows "sends E K T P w (snd (resolve_account C x w))"
proof -
  let ?t = "default_tenant_id C"
  obtain r1 w1 where g: "account_get ?t x w = (r1, w1)" by force
  have a1: "sends E K T P w w1" using sends_account_get [OF assms, of P ?t x] g by simp
  show ?thesis
  proof (cases r1)
    case (Inl e)
    with g have "resolve_account C x w = account_get_by_email ?t x w1"
      by (simp add: resolve_account_def lookup_either_def)
    with sending.step_effect [OF a1 sends_by_email] show ?thesis by simp
  next
    case (Inr a)
    with g a1 show ?thesis by (simp add: resolve_account_def lookup_either_def)
  qed
qed

lemma sends_on_resolved:
  assumes "store_ok E K T w" and "\<And>a v. store_ok E K T v \<Longrightarrow> sends E K T P v (snd (f a v))"
  shows "sends E K T P w (snd (bindE (resolve_account C x w) f))"
  by (rule sending.bind_effect [OF sends_resolve [OF assms(1)]]) (rule assms(2))

lemma call_tool_sends:
  assumes ok: "store_ok E (encryption_key C) T w" and idp: "idp_ok E T"
  shows "sends E (encryption_key C) T (tool_request call) w (snd (call_tool pretty E C call w))"
proof (cases call)
  case ListAccountsTool
  have "snd (mcp_list_accounts pretty C w) = snd (account_list (default_tenant_id C) w)"
    by (auto simp: mcp_list_accounts_def split: prod.splits sum.splits)
  with ListAccountsTool sends_account_list [OF ok] show ?thesis by simp
next
  case (ListEmailsTool p)
  have "capped MCP_DEFAULT_LIMIT 200 (lp_limit p) \<le> 200" by (simp add: capped_def)
  then have "sends E (encryption_key C) T (page_request 200) w (snd (mcp_list_emails pretty E C p w))"
    by (simp add: mcp_list_emails_def sends_on_resolved [OF ok] sends_list_messages [OF _ idp])
  with ListEmailsTool show ?thesis by (simp add: sends_def)
next
  case (SearchEmailsTool p)
  have "sends E (encryption_key C) T (page_request 50) w (snd (mcp_search_emails pretty E C p w))"
    by (simp add: mcp_search_emails_def sends_on_resolved [OF ok] sends_list_messages [OF _ idp])
  with SearchEmailsTool show ?thesis by (simp add: sends_def)
next
  case (ReadEmailTool p)
  have "sends E (encryption_key C) T (message_request (rp_message p)) w (snd (mcp_read_email pretty E C p w))"
    by (simp add: mcp_read_email_def sends_on_resolved [OF ok] sends_get_message [OF _ idp])
  with ReadEmailTool show ?thesis by (simp add: sends_def)
next
  case (SendEmailTool p)
  have "sends E (encryption_key C) T (mail_request (ep_to p) (ep_subject p) (ep_body p)) w
      (snd (mcp_send_email pretty E C p w))"
    by (simp add: mcp_send_email_def sends_on_resolved [OF ok] sends_send_message [OF _ idp])
  with SendEmailTool show ?thesis by (simp add: sends_def)
next
  case (UnifiedInboxTool p)
  have "snd (mcp_unified_inbox pretty E C p w) = snd (bindE (account_list (default_tenant_id C) w) (\<lambda>accs w.
      aggregate_unified_inbox E (list_messages E C) accs (capped 50 500 (up_limit p)) w))"
    by (auto simp: mcp_unified_inbox_def bindE_def split: prod.splits sum.splits)
  moreover have "capped 50 500 (up_limit p) \<le> 500" by (simp add: capped_def)
  ultimately have "sends E (encryption_key C) T (page_request 500) w (snd (mcp_unified_inbox pretty E C p w))"
    using sends_inbox [OF ok idp] by simp
  with UnifiedInboxTool show ?thesis by (simp add: sends_def)
qed

section \<open>Error replies\<close>

text \<open>Every reply of a handler with status 500 names a configuration error or hides its cause.\<close>

lemma error_reply_500:
  assumes "rp_status (error_reply e) = 500"
  shows "error_reply e = \<lparr>rp_status = 500, rp_body = JsonBody (error_json ''internal error'')\<rparr> \<or> (\<exists>m. e = Config m)"
  using assms by (cases e) (simp_all add: error_reply_def)

lemma respond_cases: "(\<exists>e. fst (respond f r) = error_reply e) \<or> (\<exists>a. fst (respond f r) = f a)"
  by (auto simp: respond_def split: prod.splits sum.splits)

lemma respond_500:
  assumes "respond f r = (resp, w')" and "rp_status resp = 500" and "\<And>a. rp_status (f a) \<noteq> 500"
  shows "\<exists>e. resp = error_reply e"
  using respond_cases [of f r] assms by auto

lemma extracted_passed:
  assumes "extracted x h w = (resp, w')" and "x \<noteq> Inl resp"
  shows "\<exists>q. h q w = (resp, w')"
  using assms by (auto simp: extracted_def split: sum.splits)

lemma run_endpoint_500:
  assumes run: "run_endpoint X E C q ep t w = Some (resp, w')" and s: "rp_status resp = 500"
    and x: "wb_email_query X (hq_query q) \<noteq> Inl resp" "wb_limit_query X (hq_query q) \<noteq> Inl resp" "wb_send_body X q \<noteq> Inl resp"
  shows "\<exists>e. resp = error_reply e"
proof (cases ep)
  case ConnectAccount
  with run obtain r where "respond json_ok r = (resp, w')" by auto
  from respond_500 [OF this s] show ?thesis by (simp add: json_ok_def)
next
  case ListAccounts
  from respond_500 [OF run [unfolded ListAccounts run_endpoint.simps option.inject] s] show ?thesis
    by (simp add: json_ok_def)
next
  case (DisconnectAccount i)
  from respond_500 [OF run [unfolded DisconnectAccount run_endpoint.simps option.inject] s] show ?thesis
    by (simp add: status_only_def)
next
  case (GetEmail i m)
  from respond_500 [OF run [unfolded GetEmail run_endpoint.simps option.inject] s] show ?thesis
    by (simp add: json_ok_def)
next
  case (ListEmails i)
  from extracted_passed [OF run [unfolded ListEmails run_endpoint.simps option.inject] x(1)]
  obtain r where "respond (\<lambda>ms. json_ok (JArr (map mail_json ms))) r = (resp, w')" by blast
  from respond_500 [OF this s] show ?thesis by (simp add: json_ok_def)
next
  case (SendEmail i)
  from extracted_passed [OF run [unfolded SendEmail run_endpoint.simps option.inject] x(3)]
  obtain r :: "unit result \<times> world" where "respond (\<lambda>_. status_only 202) r = (resp, w')" by blast
  from respond_500 [OF this s] show ?thesis by (simp add: status_only_def)
next
  case UnifiedInbox
  from extracted_passed [OF run [unfolded UnifiedInbox run_endpoint.simps option.inject] x(2)]
  obtain r where "respond (\<lambda>us. json_ok (JArr (map unified_json us))) r = (resp, w')" by blast
  from respond_500 [OF this s] show ?thesis by (simp add: json_ok_def)
qed

lemma serve_request_500:
  assumes run: "serve_request X E C q w = Some (resp, w')" and s: "rp_status resp = 500"
    and x: "\<forall>r. rp_status r = 500 \<longrightarrow> wb_email_query X (hq_query q) \<noteq> Inl r \<and>
      wb_limit_query X (hq_query q) \<noteq> Inl r \<and> wb_send_body X q \<noteq> Inl r \<and> wb_fallback X q \<noteq> r"
  shows "resp = head_reply q \<lparr>rp_status = 500, rp_body = JsonBody (error_json ''internal error'')\<rparr> \<or>
    (\<exists>m. resp = head_reply q (error_reply (Config m)))"
  using run
proof (cases rule: serve_request_cases)
  case (handled ep t r)
  with s have r: "rp_status r = 500" by (simp add: head_reply_def split: if_splits)
  with x have "wb_email_query X (hq_query q) \<noteq> Inl r" "wb_limit_query X (hq_query q) \<noteq> Inl r" "wb_send_body X q \<noteq> Inl r"
    by simp_all
  from run_endpoint_500 [OF handled(2) r this] obtain e where e: "r = error_reply e" by blast
  from error_reply_500 [of e] r e handled(3) show ?thesis by auto
qed (use s x in \<open>auto simp: head_reply_def health_def json_ok_def unauthorized_def split: if_splits\<close>)

end
