(* ===== verification/Spec2Isabelle.thy ===== *)
theory Spec2Isabelle
  imports Demo Traffic
begin

text \<open>
  UniMail is a mail aggregator for personal Microsoft accounts: a REST API, an MCP server and a command
  line over one SQLite file of accounts and encrypted OAuth tokens. This development models the Rust code
  under \<open>src/src\<close> and proves what makes it correct. This theory holds the properties (C1 to C40); the
  others hold one component each.

  \<^bold>\<open>Parts and how they interact.\<close> The surfaces (\<open>api\<close>, \<open>mcp\<close>, \<open>cli\<close>) look accounts up in the
  account store by tenant, and call the mail provider or the token manager for them. The Graph provider
  asks the token manager for an access token before each request, and once more after a 401. The token
  manager keeps the token store, refreshes tokens with the OAuth client under one mutex per account, and
  turns consent callbacks into accounts by way of the flow store. All stores share one database
  connection behind a mutex.

  \<^bold>\<open>Theories and sources.\<close> \<open>Prelude\<close>: lists, sums, maps, the binding \<open>bindE\<close> of fallible stateful
  steps. \<open>RustStr\<close>: what the program uses of \<open>str\<close>: bytes and UTF-8, trim, split, decimal numbers.
  \<open>Errors\<close>: \<open>error.rs\<close> and the replies to errors in \<open>api/routes.rs\<close>. \<open>World\<close>: the state all operations
  act on, and the parameters. \<open>Crypto\<close>: \<open>storage/crypto.rs\<close>. \<open>Db\<close>: \<open>storage/db.rs\<close>, one definition per SQL
  statement. \<open>Accounts\<close>: \<open>storage/accounts.rs\<close>, \<open>storage/models.rs\<close>. \<open>Tokens\<close>, \<open>TokenStore\<close>: \<open>storage/tokens.rs\<close>.
  \<open>Flows\<close>: \<open>storage/flows.rs\<close>. \<open>Configuration\<close>: \<open>config.rs\<close>. \<open>OAuth\<close>: \<open>auth/oauth.rs\<close>. \<open>TokenManager\<close>,
  \<open>TokenProps\<close>: \<open>auth/token.rs\<close>. \<open>Ticks\<close>: the order in which the clock is read. \<open>Callback\<close>: \<open>auth/callback.rs\<close>. \<open>Mail\<close>: \<open>provider/mod.rs\<close> and
  \<open>provider/models.rs\<close>. \<open>Graph\<close>: \<open>provider/graph.rs\<close>. \<open>Api\<close>: \<open>api/\<close>. \<open>Mcp\<close>: \<open>mcp/mod.rs\<close>. \<open>Cli\<close>:
  \<open>cli/mod.rs\<close>, \<open>main.rs\<close>. \<open>Tenancy\<close> and \<open>Traffic\<close> state what a request can change and what it sends,
  \<open>Concurrency\<close> interleaves refreshes, uses and disconnects, \<open>Uses\<close> adds the answers of the uses, \<open>Consents\<close>
  interleaves consent callbacks, \<open>Service\<close> is the whole program as a reachability relation, \<open>Demo\<close> a concrete
  environment for the witnesses.

  \<^bold>\<open>State.\<close> A \<open>world\<close> is the database (the three tables, the failures the engine has in store, whether
  the mutex is poisoned), the number of times the environment has been asked, what has been sent, and the
  table of refresh mutexes. Operations take a world and return a result and a world; an error is \<open>Inl\<close>
  of the program's own error type; a panic is \<open>None\<close>. Strings are lists of bytes, as Rust stores them;
  instants are nanoseconds since 1970; sizes are \<open>nat\<close>, ports and bytes are words.

  \<^bold>\<open>Parameters.\<close> \<open>env\<close> holds what is not under \<open>src/src\<close>: the clock, random values, AES-GCM, RFC 3339, base64, URLs,
  socket addresses, JSON text, the identity provider and Graph; what may answer differently from call to
  call takes the number of the call. \<open>web\<close> holds the extractors of axum and its own replies,
  \<open>outside\<close> what binding and serving sockets gives. What is relied on is stated as hypotheses:
  \<open>aead_ok\<close> (nonces of 12 bytes, tags of 16, opening undoes sealing), \<open>rfc3339_ok\<close> and \<open>rfc3339_mono\<close>
  (instants in a set \<open>T\<close> are read back as written, and compare as their texts), \<open>idp_ok\<close> (the instants
  computed from answers are in \<open>T\<close>, texts are UTF-8), \<open>seals\<close> (encryption does not fail).

  \<^bold>\<open>Interfaces.\<close> Components meet in locales that are interpreted on the definitions: the account store
  (\<open>sqlite_accounts\<close>), the token store as a map (\<open>sqlite_tokens\<close>), single use of a state
  (flows and callbacks), the mail provider (\<open>graph_mail\<close>), identity resolvers (\<open>graph_profile\<close>), operations
  that renew the token of one account (\<open>refreshing\<close>), and effects that
  compose along a handler (\<open>acting\<close> for tenants, \<open>sending\<close> for traffic).

  \<^bold>\<open>What is shown.\<close> Consent flows connect one account of the right tenant, once per state in every
  interleaving, and a failure harms nothing; access tokens are current and the account's own, and in every
  interleaving were stored for it while the request ran; refreshes are all or nothing, exclusive per
  account, and lose nothing among themselves; requests act for one tenant only (of another one's pending
  flows they let only expired ones go), hide foreign accounts and bound what they ask of Graph; pages of
  messages are decoded to what they say, and the unified inbox is the newest of all mailboxes; the token
  table implements a map; every reachable state keeps the schema and readable tokens; nothing deadlocks and
  every request is answered; the background loop renews idle accounts and no others; keys and flows survive
  their encodings; accepted configurations are well formed. Five properties show what the code does and does
  not mean to: of two overlapping consents for a new address one fails, a disconnect is undone by a refresh,
  a rotated token is undone by the usage bump, a reconnected account's row stays disconnected, a consent URL
  is handed out whose flow was not stored.

  \<^bold>\<open>Fuel and bounds.\<close> \<open>strip_rounds\<close> gets as many rounds as the text has bytes, and each strips one.
  \<open>refresh_loop\<close> gives the first \<open>n\<close> rounds of a loop that has no end, for every \<open>n\<close>. Nothing else
  needs fuel. The engine's failures are a finite list, after which statements succeed.

  \<^bold>\<open>Not modelled.\<close> SQLite itself, its file and WAL mode, and a store failing halfway in one statement; the
  text layer of HTTP, TLS, axum, rmcp and clap; logging; what a browser that is started does. The panic of
  \<open>token_set_from\<close> on an expiry out of the range of \<open>DateTime\<close> is stated (\<open>token_set_from_checked\<close>) and
  excluded by \<open>idp_ok\<close> (\<open>answers_never_panic\<close>), not carried through the operations.
  \<open>aggregate_unified_inbox\<close> polls its mailboxes together in the code and asks them one after the other in
  \<open>Mail\<close>; both join the answers in the order of the accounts. Operations other than those of \<open>Concurrency\<close>, \<open>Uses\<close> and \<open>Consents\<close> run
  without interruption.
\<close>

section \<open>Connecting an account\<close>

text \<open>C2: A callback that succeeds connects an account of the tenant the flow was begun for: a flow was
  pending under its state, the code was exchanged with the verifier stored with it, the answer's tokens are
  what the store holds for the account afterwards, the account has a row, no other token changed, and the
  state cannot be used again.\<close>

theorem complete_flow_connects:
  assumes "store_ok E (encryption_key C) T w" and "idp_ok E T"
    and "complete_flow E C (graph_resolve E C) code state w = (Inr a, w')"
  shows "connects E C (graph_resolve E C) code state w a w' \<and> flow_view w' state = None \<and>
    store_ok E (encryption_key C) T w'"
  using graph_profile.complete_flow_result(1,3,5) [OF assms] by auto

theorem complete_flow_connects_witness:
  "\<exists>a w'. complete_flow demo_env demo_config (graph_resolve demo_env demo_config) ''code'' ''csrf'' demo_world = (Inr a, w') \<and>
     connects demo_env demo_config (graph_resolve demo_env demo_config) ''code'' ''csrf'' demo_world a w'"
  using demo_connect complete_flow_connects [OF demo_store demo_idp] by blast

text \<open>C3: However callbacks are interleaved, with each other and with anything that does not begin a flow under
  the same state anew, at most one of those that carry a state connects an account, of the tenant of the flow
  that was pending under it; and then the state is unknown.\<close>

theorem consents_single_use:
  assumes "consents E C (graph_resolve E C) (never_renews s) ts w us u" and "\<forall>k. tenant_for (ts k) = None"
    and "us k = Ended s (Inr a)"
  shows "(\<exists>row. flow_view w s = Some row \<and> acc_tenant a = fr_tenant row) \<and> flow_view u s = None \<and>
    (\<forall>l b. us l = Ended s (Inr b) \<longrightarrow> l = k)"
proof -
  note inv = graph_profile.consents_invariant [OF assms(1,2)]
  have k: "state_of (us k) = s" "tenant_for (us k) = Some (acc_tenant a)" using assms(3) by simp_all
  have "l = k" if "us l = Ended s (Inr b)" for l b
  proof -
    from that have "state_of (us l) = s" "tenant_for (us l) \<noteq> None" by simp_all
    with inv k show ?thesis by blast
  qed
  then have "\<forall>l b. us l = Ended s (Inr b) \<longrightarrow> l = k" by blast
  moreover have "flow_view u s = None" "\<exists>row. flow_view w s = Some row \<and> acc_tenant a = fr_tenant row"
    using inv k by auto
  ultimately show ?thesis by blast
qed

theorem consents_single_use_witness:
  "\<exists>us u a. consents demo_env demo_config (graph_resolve demo_env demo_config) (never_renews ''csrf'')
       (\<lambda>_. Asking ''code'' ''csrf'') demo_world us u \<and>
     us 0 = Ended ''csrf'' (Inr a) \<and> (\<forall>b. us 1 \<noteq> Ended ''csrf'' (Inr b))"
proof -
  obtain a w1 where run: "complete_flow demo_env demo_config (graph_resolve demo_env demo_config) ''code'' ''csrf'' demo_world = (Inr a, w1)"
    using demo_connect by blast
  let ?ts = "\<lambda>_ :: nat. Asking ''code'' ''csrf''" and ?R = "never_renews ''csrf''"
  define us where "us = ?ts(0 := Ended ''csrf'' (Inr a))"
  have c: "consents demo_env demo_config (graph_resolve demo_env demo_config) ?R ?ts demo_world us w1"
    unfolding us_def by (rule consent_runs [OF _ run]) (rule HOL.refl)
  obtain t w2 where m: "advance demo_env demo_config (graph_resolve demo_env demo_config) (us 1) w1 = (t, w2)" by force
  note c2 = consents.moves [OF c m]
  have first: "(us(1 := t)) 0 = Ended ''csrf'' (Inr a)" by (simp add: us_def)
  have none: "\<forall>k. tenant_for (?ts k) = None" by simp
  from consents_single_use [OF c2 none first] have "(us(1 := t)) 1 = Ended ''csrf'' (Inr b) \<longrightarrow> (1::nat) = 0" for b by blast
  then have "\<forall>b. (us(1 := t)) 1 \<noteq> Ended ''csrf'' (Inr b)" by simp
  with c2 first show ?thesis by (intro exI [of _ "us(1 := t)"] exI [of _ w2] exI [of _ a] conjI)
qed

text \<open>C37: When two callbacks of a tenant have both found that there is no account with the address yet, and the first
  connects it, the second one cannot: whatever is interleaved, short of removing the account or registering
  the second state anew, its state is spent, and all it can end with is that the account is already connected,
  or a failure of the database.\<close>

theorem consent_collision:
  assumes "\<forall>k. tenant_for (ts k) = None" and "consents E C (graph_resolve E C) meanwhile ts w us u"
    and "us i = Checked si a tok True" and "us j = Checked sj b tok' True" and "i \<noteq> j"
    and "acc_tenant b = acc_tenant a" and "acc_email b = acc_email a"
    and "consents E C (graph_resolve E C) meanwhile us u vs v" and "vs i = Ended si (Inr a')"
    and "\<forall>x x'. meanwhile x x' \<longrightarrow> never_renews sj x x'"
    and "\<forall>x x'. meanwhile x x' \<longrightarrow> has_row (acc_tenant a) (acc_email a) x \<longrightarrow> has_row (acc_tenant a) (acc_email a) x'"
  shows "flow_view v sj = None \<and>
    (vs j = Checked sj b tok' True \<or>
     vs j = Ended sj (Inl (InvalidRequest (''account '' @ acc_email b @ '' is already connected for this tenant''))) \<or>
     (\<exists>m. vs j = Ended sj (Inl (Storage m))))"
  using graph_profile.consents_second_fails [OF assms] unfolding turned_away_def already_connected_def .

theorem consent_collision_witness:
  "\<exists>vs v a. consents demo_env demo_config (graph_resolve demo_env demo_config) (\<lambda>x x'. x' = tock x)
       (\<lambda>k. Asking ''code'' (if k = 0 then ''csrf'' else ''csrf2'')) demo_two vs v \<and>
     vs 0 = Ended ''csrf'' (Inr a) \<and> vs 1 = Ended ''csrf2'' (Inl (InvalidRequest
       ''account ada@example.org is already connected for this tenant'')) \<and> flow_view v ''csrf2'' = None"
proof -
  let ?ts = "\<lambda>k :: nat. Asking ''code'' (if k = 0 then ''csrf'' else ''csrf2'')" and ?later = "\<lambda>x x'. x' = tock x"
  let ?run = "consents demo_env demo_config (graph_resolve demo_env demo_config) ?later"
  have ts: "?ts 0 = Asking ''code'' ''csrf''" "?ts 1 = Asking ''code'' ''csrf2''" by simp_all
  obtain us u a tok b tok' where c: "?run ?ts demo_two us u" "us 0 = Checked ''csrf'' a tok True"
    "us 1 = Checked ''csrf2'' b tok' True" "healthy u" "accounts (db u) = accounts (db demo_world)"
    "acc_id a \<notin> ar_id ` set (accounts (db u))" "acc_tenant a = ''bolt''" "acc_email a = ''ada@example.org''"
    "acc_tenant b = ''bolt''" "acc_email b = ''ada@example.org''"
    using demo_both_checked [OF ts, of ?later] by blast
  have same: "acc_tenant b = acc_tenant a" "acc_email b = acc_email a" using c(7-10) by simp_all
  have new: "\<not> (\<exists>q \<in> set (accounts (db u)). ar_tenant q = acc_tenant a \<and> ar_email q = acc_email a)"
    unfolding c(5,7,8) by (simp add: demo_world_def demo_db_def demo_row_def)
  obtain vs v where d: "?run us u vs v" "vs 0 = Ended ''csrf'' (Inr a)" "vs 1 = Ended ''csrf2'' (Inl (already_connected b))"
    using consents_collide [where C = demo_config and resolve = "graph_resolve demo_env demo_config" and meanwhile = ?later,
        OF demo_seals c(4) zero_neq_one c(2,3) same c(6) new] by blast
  have none: "\<forall>k. tenant_for (?ts k) = None" by simp
  have "\<forall>x x'. ?later x x' \<longrightarrow> never_renews ''csrf2'' x x'" by (simp add: never_renews_flows)
  from consent_collision [OF none c(1-3) zero_neq_one same d(1,2) this] have "flow_view v ''csrf2'' = None"
    by (simp add: has_row_def)
  moreover have "vs 1 = Ended ''csrf2'' (Inl (InvalidRequest ''account ada@example.org is already connected for this tenant''))"
    using d(3) c(10) by (simp add: already_connected_def)
  ultimately show ?thesis using consents_trans [OF d(1) c(1)] d(2)
    by (intro exI [of _ vs] exI [of _ v] exI [of _ a] conjI)
qed

text \<open>One after the other, in particular: whatever codes they carry, one of them connects an account at most.\<close>

lemma callbacks_single_use:
  assumes "store_ok E (encryption_key C) T w" and "idp_ok E T"
  shows "granted snd state qs
    (fst (run_takes (\<lambda>(code, state). complete_flow E C (graph_resolve E C) code state) qs w)) \<le> 1"
  by (rule graph_profile.completion.run_single_use [where T = T]) (use assms in simp)

text \<open>C14: A callback that fails leaves every token as it was; the accounts gain one row at most; and the
  state is used up, unless the database failed before anything was sent.\<close>

theorem failed_callback_harmless:
  assumes "store_ok E (encryption_key C) T w" and "idp_ok E T"
    and "complete_flow E C (graph_resolve E C) code state w = (Inl e, w')"
  shows "token_view E (encryption_key C) w' = token_view E (encryption_key C) w \<and>
    (accounts (db w') = accounts (db w) \<or> (\<exists>q. accounts (db w') = accounts (db w) @ [q])) \<and>
    (flow_view w' state = None \<or> (wire w' = wire w \<and> tokens_only w w' \<and> (\<exists>m. e = Storage m)))"
  using graph_profile.complete_flow_result(3,4,6) [OF assms] by auto

theorem failed_callback_harmless_witness:
  "\<exists>e w'. complete_flow demo_env demo_config (graph_resolve demo_env demo_config) ''code'' ''forged'' demo_world = (Inl e, w') \<and>
     token_view demo_env demo_key w' = token_view demo_env demo_key demo_world"
proof -
  have "\<exists>e w'. complete_flow demo_env demo_config (graph_resolve demo_env demo_config) ''code'' ''forged'' demo_world = (Inl e, w')"
    by (simp add: complete_flow_def flow_take_def on_db_def take_row_def select_flow_def demo_world_def demo_db_def)
  with failed_callback_harmless [OF demo_store demo_idp] show ?thesis by blast
qed

section \<open>Access tokens\<close>

text \<open>C1: An access token that is handed out is the account's: the stored one while it is good for five
  minutes more, without a request; else the one the provider has just issued for the stored refresh
  token, asked for once. No other account's token changes, and nothing but tokens does.\<close>

theorem access_token_sound:
  assumes "store_ok E (encryption_key C) T w" and "idp_ok E T"
    and "get_access_token E C i w = (Inr s, w')"
  shows "(\<exists>tok. token_view E (encryption_key C) w i = Some tok \<and>
      ((fresh_at E (tick w) tok \<and> s = st_access tok \<and> wire w' = wire w) \<or>
       (\<not> fresh_at E (tick w) tok \<and> (\<exists>cl n resp. oauth_client E C = Inr cl \<and>
          idp E n (ExchangeRefresh cl (st_refresh tok)) = Inr resp \<and> s = tp_access resp \<and>
          wire w' = wire w @ [ToIdp (ExchangeRefresh cl (st_refresh tok))])))) \<and>
    (\<forall>j. j \<noteq> i \<longrightarrow> token_view E (encryption_key C) w' j = token_view E (encryption_key C) w j) \<and>
    tokens_only w w'"
  using get_access_token_result(2,5) [OF assms] get_access_token_result(3) [OF assms] by blast

theorem access_token_sound_witness:
  "\<exists>w'. get_access_token demo_env demo_config ''a1'' demo_world = (Inr ''ann-access'', w') \<and> tokens_only demo_world w'"
  using demo_cached access_token_sound [OF demo_store demo_idp] by blast

text \<open>C4: A refresh is all or nothing: it fails and leaves every token as it was, or it stores the
  provider's answer for this account, keeping the old refresh token if the answer has none, after
  exactly one request that carries the stored refresh token.\<close>

theorem refresh_all_or_nothing:
  assumes "store_ok E (encryption_key C) T w" and "idp_ok E T"
    and "refresh_account E C i w = (r, w')"
  shows "(case r of
      Inl _ \<Rightarrow> token_view E (encryption_key C) w' = token_view E (encryption_key C) w
    | Inr _ \<Rightarrow> \<exists>cur cl n resp new. token_view E (encryption_key C) w i = Some cur \<and>
        oauth_client E C = Inr cl \<and> idp E n (ExchangeRefresh cl (st_refresh cur)) = Inr resp \<and>
        refreshed cur resp new \<and>
        wire w' = wire w @ [ToIdp (ExchangeRefresh cl (st_refresh cur))] \<and>
        token_view E (encryption_key C) w' = (token_view E (encryption_key C) w)(i \<mapsto> new)) \<and>
    tokens_only w w'"
proof (cases r)
  case (Inl e)
  with refresh_account_result(2,3) [OF assms] show ?thesis by simp
next
  case (Inr u)
  with refresh_account_result(2,4) [OF assms] show ?thesis by simp
qed

theorem refresh_all_or_nothing_witness:
  "\<exists>w'. refresh_account demo_env demo_config ''b1'' demo_world = (Inr (), w') \<and>
     (\<exists>new. token_view demo_env demo_key w' = (token_view demo_env demo_key demo_world)(''b1'' \<mapsto> new))"
proof -
  obtain w' where run: "refresh_account demo_env demo_config ''b1'' demo_world = (Inr (), w')" using demo_refresh by blast
  from refresh_all_or_nothing [OF demo_store demo_idp run] run show ?thesis by auto
qed

text \<open>C9: Once an account has been disconnected, no access token is handed out for it, and asking for
  one sends nothing.\<close>

theorem disconnected_denied:
  assumes "store_ok E (encryption_key C) T w" and "idp_ok E T"
    and "disconnect E a w = (Inr (), w1)" and "get_access_token E C (acc_id a) w1 = (r, w2)"
  shows "(\<exists>e. r = Inl e) \<and> wire w2 = wire w1"
proof -
  note d = disconnect_result [OF assms(1,3)]
  have gone: "token_view E (encryption_key C) w1 (acc_id a) = None" using d(5) [of "()"] by simp
  note g = get_access_token_result [OF d(1) assms(2,4)]
  from g(4) gone have "wire w2 = wire w1" by auto
  moreover from g(5) gone have "r \<noteq> Inr s" for s by auto
  ultimately show ?thesis by (cases r) auto
qed

theorem disconnected_denied_witness:
  "\<exists>w1. disconnect demo_env demo_account demo_world = (Inr (), w1) \<and>
     (\<exists>e. fst (get_access_token demo_env demo_config ''a1'' w1) = Inl e)"
proof -
  obtain w1 where d: "disconnect demo_env demo_account demo_world = (Inr (), w1)" using demo_disconnect by blast
  have "acc_id demo_account = ''a1''" by (simp add: demo_account_def demo_row_def)
  with disconnected_denied [OF demo_store demo_idp d surjective_pairing] d show ?thesis by fastforce
qed

section \<open>Tenants\<close>

text \<open>C5: A REST request acts for the tenant of its API key, and for nobody else: no row and no token of
  another tenant changes; none of its pending flows is added or altered, and one that is gone was at least
  ten minutes old when the request read the clock; every request to Graph carries an access token, and every request to the identity
  provider is a refresh with the refresh token, of one of the tenant's accounts.
  Without a valid key nothing changes at all.\<close>

theorem api_tenant_isolation:
  assumes "store_ok E (encryption_key C) T w" and "idp_ok E T"
    and "serve_request X E C q w = Some (resp, w')"
  shows "case resolve_tenant C (extract_api_key X q) of
      None \<Rightarrow> w' = w
    | Some t \<Rightarrow> acts_for E (encryption_key C) T t w w'"
  by (rule serve_request_acts_for [OF assms])

theorem api_tenant_isolation_witness:
  "\<exists>resp w'. serve_request demo_web demo_env demo_config (demo_request ''GET'' [''accounts''] ''key-a'') demo_world = Some (resp, w') \<and>
     acts_for demo_env demo_key demo_time ''acme'' demo_world w'"
proof -
  obtain resp w' where run: "serve_request demo_web demo_env demo_config (demo_request ''GET'' [''accounts''] ''key-a'')
      demo_world = Some (resp, w')" using demo_listing by blast
  from api_tenant_isolation [OF demo_store demo_idp run] run show ?thesis by (auto simp: demo_tenants)
qed

text \<open>C17: A request without a valid key for a protected path gets 401, whatever its method, and changes nothing.\<close>

theorem unauthorized_rejected:
  assumes "resolve_tenant C (extract_api_key X q) = None"
    and "protected_path (hq_path q) = Some (verb, ep)"
  shows "serve_request X E C q w = Some (head_reply q unauthorized, w)"
proof -
  have "hq_path q \<noteq> [''health'']" using assms(2) by (auto simp: protected_path_def)
  with assms show ?thesis by (auto simp: serve_request_def api_key_middleware_def)
qed

theorem unauthorized_rejected_witness:
  "serve_request demo_web demo_env demo_config (demo_request ''GET'' [''accounts''] ''wrong'') demo_world =
     Some (unauthorized, demo_world)"
proof -
  let ?q = "demo_request ''GET'' [''accounts''] ''wrong''"
  have "protected_path (hq_path ?q) = Some (''GET'', ListAccounts)" "head_reply ?q unauthorized = unauthorized"
    by (simp_all add: demo_request_def protected_path_def head_reply_def)
  with unauthorized_rejected [OF demo_tenants(2)] show ?thesis by simp
qed

text \<open>C18: An account of another tenant looks exactly like one that does not exist: the request is answered
  with the same 404 (or the extractor's rejection, or 500 when the database fails), sends nothing, and leaves the tables alone.\<close>

theorem foreign_account_hidden:
  assumes "i \<notin> tenant_ids t w" and "endpoint_account ep = Some i"
    and "run_endpoint X E C q ep t w = Some (resp, w')"
  shows "same_tables (db w) (db w') \<and> wire w' = wire w \<and>
    (missing_reply i resp \<or> wb_email_query X (hq_query q) = Inl resp \<or> wb_send_body X q = Inl resp)"
  by (rule foreign_account_reply [OF assms])

theorem foreign_account_hidden_witness:
  "\<exists>resp w'. run_endpoint demo_web demo_env demo_config (demo_request ''DELETE'' [''accounts'', ''b1''] ''key-a'')
      (DisconnectAccount ''b1'') ''acme'' demo_world = Some (resp, w') \<and> missing_reply ''b1'' resp \<and>
     same_tables (db demo_world) (db w')"
proof -
  let ?q = "demo_request ''DELETE'' [''accounts'', ''b1''] ''key-a''"
  obtain resp w' where run: "run_endpoint demo_web demo_env demo_config ?q (DisconnectAccount ''b1'') ''acme''
      demo_world = Some (resp, w')" by (metis run_endpoint.simps(3) surj_pair)
  have "''b1'' \<notin> tenant_ids ''acme'' demo_world"
    by (auto simp: tenant_ids_def account_rows_def demo_world_def demo_db_def demo_row_def of_row_def)
  from foreign_account_hidden [OF this _ run] have "same_tables (db demo_world) (db w') \<and>
      (missing_reply ''b1'' resp \<or> wb_email_query demo_web (hq_query ?q) = Inl resp \<or> wb_send_body demo_web ?q = Inl resp)" by simp
  with run show ?thesis by (auto simp: demo_web_def)
qed

text \<open>C15: A tool call of the MCP server acts for the default tenant and for nobody else, whatever account
  it names: it changes no row and no token of another tenant and no pending flow of one that has not
  expired, and what it sends carries tokens of the default tenant's accounts.\<close>

theorem mcp_confined:
  assumes "store_ok E (encryption_key C) T w" and "idp_ok E T"
  shows "acts_for E (encryption_key C) T (default_tenant_id C) w (snd (call_tool pretty E C call w))"
  by (rule call_tool_acts_for [OF assms])

theorem mcp_confined_witness:
  "acts_for demo_env demo_key demo_time ''default'' demo_world
     (snd (call_tool (\<lambda>j. Inr ''json'') demo_env demo_config
        (ReadEmailTool \<lparr>rp_account = ''a1'', rp_message = ''m''\<rparr>) demo_world))"
  using mcp_confined [OF demo_store demo_idp, of "\<lambda>j. Inr ''json''" "ReadEmailTool \<lparr>rp_account = ''a1'', rp_message = ''m''\<rparr>"]
  by (simp add: demo_config_def)

text \<open>Any sequence of creations, status changes and deletions for other tenants leaves a tenant's rows
  as they are, whatever becomes of each of them.\<close>

lemma tenants_apart:
  assumes "\<forall>c \<in> set cs. cmd_tenant c \<noteq> u"
  shows "filter (\<lambda>b. acc_tenant b = u) (account_rows (run_cmds account_create (account_set_status E) account_delete cs w)) =
    filter (\<lambda>b. acc_tenant b = u) (account_rows w)"
  by (rule sqlite_accounts.run_other) (use assms in blast)

section \<open>Mail\<close>

text \<open>C19: Sending mail from an account makes at most two requests to Graph, both the one message asked for,
  both with a token of that account (the stored one, or one renewed from it); no other account's token
  changes and nothing but tokens does.\<close>

theorem send_confined:
  assumes "store_ok E (encryption_key C) T w" and "idp_ok E T"
    and "send_message E C a to subject body w = (r, w')"
  shows "\<exists>url es. wire w' = wire w @ es \<and> length (graph_sent es) \<le> 2 \<and>
    (\<forall>q \<in> set (graph_sent es). \<exists>u v. token_view E (encryption_key C) w (acc_id a) = Some u \<and> renewal E u v \<and>
       q = \<lparr>rq_method = POST, rq_url = url, rq_push = [], rq_query = [], rq_bearer = st_access v,
            rq_body = Some (mail_payload to subject body)\<rparr>) \<and>
    (\<forall>j. j \<noteq> acc_id a \<longrightarrow> token_view E (encryption_key C) w' j = token_view E (encryption_key C) w j) \<and>
    tokens_only w w'"
proof -
  from send_message_effect [OF assms] obtain url where "mail_effect E (encryption_key C) T (acc_id a)
    (request POST \<lparr>tg_url = url, tg_push = [], tg_query = []\<rparr> (Some (mail_payload to subject body))) 2 w w'" ..
  then show ?thesis by (auto simp: mail_effect_def request_def)
qed

theorem send_confined_witness:
  "\<exists>es. wire (snd (send_message demo_env demo_config demo_account ''to'' ''s'' ''b'' demo_world)) = wire demo_world @ es \<and>
     length (graph_sent es) \<le> 2"
  using send_confined [OF demo_store demo_idp surjective_pairing] by metis

text \<open>C16: If every provider answers with the newest messages of its mailbox, newest first, the unified inbox
  shows exactly the newest messages of all mailboxes together: cutting each mailbox at the limit before
  merging loses nothing.\<close>

theorem unified_inbox_newest:
  assumes "\<forall>a \<in> set accs. \<forall>v. fst (lm a limit None v) = Inr (take limit (box a))"
    and "\<forall>a \<in> set accs. sorted (map (\<lambda>m. date_key_of E (em_received m)) (box a))"
    and "aggregate_unified_inbox E lm accs limit w = (Inr inbox, w')"
  shows "map (unified_key E) inbox =
    take limit (sort (concat (map (\<lambda>a. map (\<lambda>m. date_key_of E (em_received m)) (box a)) accs)))"
  by (rule inbox_newest [where lm = lm, OF assms])

theorem unified_inbox_newest_witness:
  "map (unified_key demo_env) (case fst (aggregate_unified_inbox demo_env
       (\<lambda>a n q w. (Inr (take n [\<lparr>em_id = acc_id a, em_subject = None, em_from = None, em_to = [], em_preview = None,
          em_body = None, em_received = None, em_read = False\<rparr>]), w)) [demo_account, demo_account] 1 demo_world) of
       Inr us \<Rightarrow> us | Inl _ \<Rightarrow> []) = [Undated]"
proof -
  let ?box = "\<lambda>a. [\<lparr>em_id = acc_id a, em_subject = None, em_from = None, em_to = [], em_preview = None,
          em_body = None, em_received = None, em_read = False\<rparr>]"
  let ?lm = "\<lambda>a n (q :: string option) (w :: world). (Inr (take n (?box a)) :: email list result, w)"
  obtain us w' where run: "aggregate_unified_inbox demo_env ?lm [demo_account, demo_account] 1 demo_world = (Inr us, w')"
    by (simp add: aggregate_unified_inbox_def case_prod_unfold Let_def)
  have "map (unified_key demo_env) us = take 1 (sort (concat (map (\<lambda>a. map (\<lambda>m. date_key_of demo_env (em_received m)) (?box a))
      [demo_account, demo_account])))"
    by (rule unified_inbox_newest [OF _ _ run]) simp_all
  then show ?thesis using run by (simp add: date_key_of_def parse_received_def)
qed

text \<open>C22: The unified inbox is sorted, newest first and undated last; it is as long as the limit allows; what it
  leaves out is no newer than what it shows; and every message in it was fetched for an account asked for and
  carries that account's id and address.\<close>

theorem unified_inbox_order:
  assumes "aggregate_unified_inbox E lm accs limit w = (Inr inbox, w')"
  shows "sorted (map (unified_key E) inbox) \<and>
    length inbox = min limit (length (fst (fetch_all lm limit accs w))) \<and>
    (\<exists>dropped. mset (fst (fetch_all lm limit accs w)) = mset inbox + mset dropped \<and>
       (\<forall>x \<in> set inbox. \<forall>y \<in> set dropped. unified_key E x \<le> unified_key E y)) \<and>
    (\<forall>m \<in> set inbox. \<exists>a \<in> set accs. \<exists>v ms. fst (lm a limit None v) = Inr ms \<and> ue_email m \<in> set ms \<and>
       ue_account m = summary_of a)"
proof -
  let ?all = "fst (fetch_all lm limit accs w)"
  have inbox: "inbox = take limit (sort_key (unified_key E) ?all)" using assms by (simp add: aggregate_eq)
  note order = inbox_sorted [where key = "unified_key E" and n = limit and xs = ?all, folded inbox]
  have sub: "set inbox \<subseteq> set ?all" unfolding inbox by (metis set_sort set_take_subset)
  have "\<exists>a \<in> set accs. \<exists>v ms. fst (lm a limit None v) = Inr ms \<and> ue_email m \<in> set ms \<and> ue_account m = summary_of a"
    if "m \<in> set inbox" for m
    by (rule fetch_all_owner [of m lm limit accs w]) (use that sub in blast)
  then show ?thesis by (intro conjI order ballI)
qed

theorem unified_inbox_order_witness:
  "\<exists>inbox w'. aggregate_unified_inbox demo_env (list_messages demo_env demo_config) [demo_account] 5 demo_world = (Inr inbox, w') \<and>
     sorted (map (unified_key demo_env) inbox)"
proof -
  obtain inbox w' where run:
    "aggregate_unified_inbox demo_env (list_messages demo_env demo_config) [demo_account] 5 demo_world = (Inr inbox, w')"
    by (simp add: aggregate_eq)
  from unified_inbox_order [OF run] run show ?thesis by blast
qed

section \<open>The state of the program\<close>

text \<open>C7: From a new database on, through any sequence of REST requests, tool calls, callbacks, background rounds,
  CLI commands, interleaved token operations, callbacks interleaved with each other, with requests and with token
  operations, restarts and engine failures, the constraints of the schema hold and
  every stored token can be decrypted and read.\<close>

theorem reachable_states_sound:
  assumes "crypto_ok E T" and "idp_ok E T"
    and "build_state http None plan n = Inr w0" and "reaches E C w0 w"
  shows "wf_db (db w) \<and> (\<forall>t \<in> set (tokens (db w)). \<exists>tok. decode_row E (encryption_key C) t 0 = Inr tok \<and> token_valid T tok)"
proof -
  have ok: "store_ok E (encryption_key C) T w"
    by (rule reaches_store_ok [OF assms(4) fresh_store_ok [OF assms(1,3)] assms(2)])
  have "\<exists>tok. decode_row E (encryption_key C) t 0 = Inr tok \<and> token_valid T tok" if "t \<in> set (tokens (db w))" for t
  proof -
    obtain tok where "encodes E (encryption_key C) T t tok" using ok \<open>t \<in> _\<close> by (auto simp: store_ok_def tokens_ok_def)
    moreover have "rfc3339_ok E T" using assms(1) by (simp add: crypto_ok_def)
    ultimately show ?thesis using decode_encodes(1) by (auto simp: encodes_def)
  qed
  with ok show ?thesis by (simp add: store_ok_def)
qed

theorem reachable_states_sound_witness:
  "\<exists>w0 w. build_state None None [] 0 = Inr w0 \<and>
     reaches demo_env demo_config w0 w \<and> tick w \<noteq> tick w0 \<and> wf_db (db w)"
proof -
  let ?w0 = "\<lparr>db = with_tables empty_tables [], tick = 0, wire = [], refresh_locks = []\<rparr>"
  have b: "build_state None None [] 0 = Inr ?w0" by (simp add: build_state_def build_http_client_def migrate_def)
  obtain w1 where r: "refresh_stale demo_env demo_config (token_inactivity_days demo_config) ?w0 = Some (0, w1)" "tick w1 = 1"
    by (simp add: refresh_stale_def utc_now_def demo_env_def demo_config_def token_list_inactive_def on_db_def with_lock_def
        run_sql_def exec_sql_def select_inactive_def with_tables_def empty_tables_def)
  have re: "reaches demo_env demo_config ?w0 w1" by (rule reaches.background [OF reaches.here r(1)])
  from reachable_states_sound [OF demo_crypto demo_idp b re] re b r(2) show ?thesis
    by (intro exI [of _ ?w0] exI [of _ w1]) simp
qed

text \<open>C8: The encrypted SQLite table of tokens is a finite map: after any sequence of writes and deletions, whichever
  of them succeed, it represents the map obtained by the successful ones.\<close>

theorem token_store_refines_map:
  assumes "store_ok E K T w" and "\<forall>i t. PutCmd i t \<in> set cs \<longrightarrow> token_valid T t"
    and "run_token_cmds (token_upsert E K) token_delete cs w = (bs, w')"
  shows "store_ok E K T w' \<and> token_view E K w' = replay cs bs (token_view E K w)"
  by (rule sqlite_tokens.run_refines [OF assms(1) _ assms(3)]) (use assms(2) in blast)

theorem token_store_refines_map_witness:
  "\<exists>bs w'. run_token_cmds (token_upsert demo_env demo_key) token_delete [DropCmd ''b1''] demo_world = (bs, w') \<and>
     token_view demo_env demo_key w' = replay [DropCmd ''b1''] bs (token_view demo_env demo_key demo_world)"
proof -
  obtain bs w' where run: "run_token_cmds (token_upsert demo_env demo_key) token_delete [DropCmd ''b1''] demo_world = (bs, w')"
    by force
  from token_store_refines_map [OF demo_store _ run] run show ?thesis by simp
qed

section \<open>Concurrent requests\<close>

text \<open>C0: A request for an access token, cut at its suspension points, answers what \<open>get_access_token\<close> does uncut when
  the mutex of its account is free and no other task moves, on every path: cached, refreshed, failed. The
  world is the same, and the mutexes are held as before.\<close>

theorem cut_use_refines:
  assumes "sys_tasks s k = UseStart i" and "asked k = Some i" and "g k = None"
    and "sys_held s (fst (account_lock i (sys_world s))) = None"
    and "get_access_token E C i (sys_world s) = (r, w')"
  shows "\<exists>ks ws s'. use_run E C asked (s, g) ks ws (s', g(k \<mapsto> r)) \<and> set ks \<subseteq> {k} \<and> sys_world s' = w' \<and>
    sys_held s' = sys_held s"
  by (rule use_answers [where asked = asked and g = g, OF assms])

theorem cut_use_refines_witness:
  "\<exists>ks ws s' g'. use_run demo_env demo_config (asked_by (\<lambda>_. UseStart ''a1'')) (begins (\<lambda>_. UseStart ''a1'') demo_world, \<lambda>_. None) ks ws (s', g') \<and>
     g' 0 = Some (Inr ''ann-access'')"
proof -
  let ?ts = "\<lambda>_ :: nat. UseStart ''a1''" and ?g = "\<lambda>_ :: nat. None :: string result option"
  obtain w' where run: "get_access_token demo_env demo_config ''a1'' (sys_world (begins ?ts demo_world)) = (Inr ''ann-access'', w')"
    using demo_asks(4) by blast
  obtain ks ws s' where
    "use_run demo_env demo_config (asked_by ?ts) (begins ?ts demo_world, ?g) ks ws (s', ?g(0 \<mapsto> Inr ''ann-access''))"
    using cut_use_refines [where g = ?g and asked = "asked_by ?ts", OF demo_asks(1,2) HOL.refl demo_asks(3) run, of 0] by blast
  moreover have "(?g(0 \<mapsto> Inr ''ann-access'')) 0 = Some (Inr ''ann-access'')" by simp
  ultimately show ?thesis by (intro exI conjI)
qed

text \<open>C10: Whatever refreshes, uses and disconnects are interleaved, a request hands out an access token only
  if it was the stored token of the account the request is for at some moment while the request ran: in
  one of the worlds \<open>ws\<close> between any state \<open>u\<close> in which it has not moved yet and the step with which it
  answers. A token that was replaced or deleted before the request began is never handed out.\<close>

theorem handed_out_was_stored:
  assumes "store_ok E (encryption_key C) T w" and "idp_ok E T" and "\<forall>k. start (ts k)"
    and "use_run E C (asked_by ts) (begins ts w, \<lambda>_. None) js vs u" and "k \<notin> set js"
    and "use_run E C (asked_by ts) u ks ws u1" and "use_step E C (asked_by ts) u1 k u2"
    and "ts k = UseStart i" and "snd u1 k = None" and "snd u2 k = Some (Inr a)"
  shows "\<exists>v \<in> set ws. \<exists>tok. token_view E (encryption_key C) v i = Some tok \<and> st_access tok = a"
  using handed_out_stored [OF assms] by (auto simp: seen_def)

theorem handed_out_was_stored_witness:
  "\<exists>u1 u2 ws v tok. use_run demo_env demo_config (asked_by (\<lambda>_. UseStart ''a1'')) (begins (\<lambda>_. UseStart ''a1'') demo_world, \<lambda>_. None) [0] ws u1 \<and>
     use_step demo_env demo_config (asked_by (\<lambda>_. UseStart ''a1'')) u1 0 u2 \<and> snd u2 0 = Some (Inr ''ann-access'') \<and>
     v \<in> set ws \<and> token_view demo_env demo_key v ''a1'' = Some tok \<and> st_access tok = ''ann-access''"
proof -
  obtain u1 u2 ws where run: "use_run demo_env demo_config (asked_by (\<lambda>_. UseStart ''a1''))
      (begins (\<lambda>_. UseStart ''a1'') demo_world, \<lambda>_. None) [0] ws u1"
    "use_step demo_env demo_config (asked_by (\<lambda>_. UseStart ''a1'')) u1 0 u2"
    "snd u1 0 = None" "snd u2 0 = Some (Inr ''ann-access'')" using demo_use [OF HOL.refl] by blast
  have st: "\<forall>k :: nat. start ((\<lambda>_. UseStart ''a1'') k)" by (simp add: start_def)
  have "0 \<notin> set ([] :: nat list)" by simp
  from handed_out_was_stored [OF demo_store demo_idp st use_run.ready this run(1,2) HOL.refl run(3,4)] obtain v tok where
    "v \<in> set ws" "token_view demo_env (encryption_key demo_config) v ''a1'' = Some tok" "st_access tok = ''ann-access''" by blast
  with run show ?thesis
    by (intro exI [of _ u1] exI [of _ u2] exI [of _ ws] exI [of _ v] exI [of _ tok] conjI) simp_all
qed

text \<open>\<open>refresh_account\<close>, cut at its suspension points, does what it does uncut when its mutex is free and no other task
  moves: same result, same world, and the mutex is free again.\<close>

theorem cut_refresh_refines:
  assumes "sys_tasks s k = RefreshStart i" and "sys_held s (fst (account_lock i (sys_world s))) = None"
    and "refresh_account E C i (sys_world s) = (r, w')"
  shows "runs_to E C s k r w'"
  by (rule refresh_runs_to [OF assms])

theorem cut_refresh_refines_witness:
  "\<exists>w'. refresh_account demo_env demo_config ''b1'' demo_world = (Inr (), w') \<and>
     runs_to demo_env demo_config (begins (\<lambda>_. RefreshStart ''b1'') demo_world) 0 (Inr ()) w'"
proof -
  obtain w' where run: "refresh_account demo_env demo_config ''b1'' demo_world = (Inr (), w')" using demo_refresh by blast
  have "runs_to demo_env demo_config (begins (\<lambda>_. RefreshStart ''b1'') demo_world) 0 (Inr ()) w'"
    by (rule cut_refresh_refines) (use run in \<open>simp_all add: begins_def\<close>)
  with run show ?thesis by blast
qed

text \<open>C11: Whatever the interleaving, two tasks are never both inside the refresh of one account.\<close>

theorem refresh_mutual_exclusion:
  assumes "locks_ok w" and "\<forall>k. start (ts k)" and "schedule E C (begins ts w) ks s"
    and "critical (sys_tasks s k) = Some (i, m)" and "critical (sys_tasks s l) = Some (i, n)"
  shows "k = l"
  by (rule mutex_exclusive [OF mutex_ok_schedule [OF assms(3) mutex_ok_begins [OF assms(1,2)]] assms(4,5)])

theorem refresh_mutual_exclusion_witness:
  "\<exists>s. schedule demo_env demo_config (begins (\<lambda>_. RefreshStart ''b1'') demo_world) [0, 0] s \<and>
     critical (sys_tasks s 0) = Some (''b1'', 0) \<and> (\<forall>l n. critical (sys_tasks s l) = Some (''b1'', n) \<longrightarrow> l = 0)"
proof -
  let ?s0 = "begins (\<lambda>_. RefreshStart ''b1'') demo_world"
  let ?w = "demo_world\<lparr>refresh_locks := [(''b1'', 0)]\<rparr>"
  let ?s1 = "moved ?s0 0 (RefreshWaits ''b1'' 0) ?w"
  let ?s2 = "taking 0 0 (moved ?s1 0 (RefreshHolds ''b1'' 0) ?w)"
  have "system_step demo_env demo_config ?s0 0 ?s1"
    by (rule system_step.lookup_lock) (simp_all add: begins_def account_lock_def demo_world_def)
  moreover have "system_step demo_env demo_config ?s1 0 ?s2"
    using system_step.acquire [of ?s1 0 "''b1''" 0 demo_env demo_config] by (simp add: begins_def)
  ultimately have sch: "schedule demo_env demo_config ?s0 [0, 0] ?s2" by (auto intro: schedule.intros)
  have c: "critical (sys_tasks ?s2 0) = Some (''b1'', 0)" by simp
  have "l = 0" if "critical (sys_tasks ?s2 l) = Some (''b1'', n)" for l n
    by (rule refresh_mutual_exclusion [OF _ _ sch that c]) (simp_all add: locks_ok_def demo_world_def start_def)
  with sch c show ?thesis by blast
qed

text \<open>C6: Among refreshes alone, in any interleaving, no update is lost: the token a refresh asks the provider with,
  and replaces with the answer, is the one that is stored at that moment.\<close>

theorem refreshes_lose_nothing:
  assumes "store_ok E (encryption_key C) T w" and "idp_ok E T" and "locks_ok w"
    and "\<forall>k. \<exists>i. ts k = RefreshStart i" and "schedule E C (begins ts w) ks s"
    and "works_with (sys_tasks s k) = Some (i, cur)"
  shows "token_view E (encryption_key C) (sys_world s) i = Some cur"
proof -
  have all: "start (ts k) \<and> works_with (ts k) = None \<and> refresh_task (ts k) \<and>
      (\<nexists>i m cur tset. ts k = RefreshAnswered i m cur tset)" for k
  proof -
    obtain i where "ts k = RefreshStart i" using assms(4) by blast
    then show ?thesis by (simp add: start_def)
  qed
  then have st: "\<forall>k. start (ts k)" by blast
  from all have "based_on E C T (begins ts w)" using assms(1) by (simp add: based_on_def begins_def)
  from based_on_schedule [OF assms(5) mutex_ok_begins [OF assms(3) st] this assms(2)] assms(6)
  show ?thesis by (rule based_onD(3))
qed

theorem refreshes_lose_nothing_witness:
  "\<exists>s. schedule demo_env demo_config (begins (\<lambda>_. RefreshStart ''b1'') demo_world) [0, 0, 0] s \<and>
     token_view demo_env demo_key (sys_world s) ''b1'' = Some (demo_token ''bea'' (Some 5))"
proof -
  let ?s0 = "begins (\<lambda>_. RefreshStart ''b1'') demo_world"
  let ?w = "demo_world\<lparr>refresh_locks := [(''b1'', 0)]\<rparr>" and ?cur = "demo_token ''bea'' (Some 5)"
  let ?s1 = "moved ?s0 0 (RefreshWaits ''b1'' 0) ?w"
  let ?s2 = "taking 0 0 (moved ?s1 0 (RefreshHolds ''b1'' 0) ?w)"
  let ?s3 = "moved ?s2 0 (RefreshAsks ''b1'' 0 ?cur) ?w"
  have "system_step demo_env demo_config ?s0 0 ?s1"
    by (rule system_step.lookup_lock) (simp_all add: begins_def account_lock_def demo_world_def)
  moreover have "system_step demo_env demo_config ?s1 0 ?s2"
    using system_step.acquire [of ?s1 0 "''b1''" 0 demo_env demo_config] by (simp add: begins_def)
  moreover have "store_ok demo_env demo_key demo_time ?w" "healthy ?w"
    using demo_store demo_healthy by (simp_all add: store_ok_def healthy_def)
  then have "refresh_read demo_env demo_config ''b1'' ?w = (Inr ?cur, ?w)"
    using token_get_healthy [of demo_env demo_key demo_time ?w "''b1''"] token_view_db [of ?w demo_world] demo_view(2)
    by (simp add: refresh_read_def)
  then have "system_step demo_env demo_config ?s2 0 ?s3" by (intro system_step.read) simp_all
  ultimately have sch: "schedule demo_env demo_config ?s0 [0, 0, 0] ?s3" by (auto intro: schedule.intros)
  have "token_view demo_env demo_key (sys_world ?s3) ''b1'' = Some ?cur"
    by (rule refreshes_lose_nothing [OF demo_store demo_idp _ _ sch, where k = 0])
      (simp_all add: locks_ok_def demo_world_def)
  with sch show ?thesis by blast
qed

text \<open>C25: Nothing deadlocks: in every state an interleaving can reach, a task that is not finished can move, or it
  waits for the mutex of its account and the task that holds it can move.\<close>

theorem no_deadlock:
  assumes "locks_ok w" and "\<forall>k. start (ts k)" and "schedule E C (begins ts w) ks s"
    and "\<forall>r. sys_tasks s k \<noteq> Finished r"
  shows "(\<exists>s'. system_step E C s k s') \<or>
    (\<exists>i m l. sys_tasks s k = RefreshWaits i m \<and> critical (sys_tasks s l) = Some (i, m) \<and>
       (\<exists>s'. system_step E C s l s'))"
  by (rule waits_or_moves [OF mutex_ok_schedule [OF assms(3) mutex_ok_begins [OF assms(1,2)]] assms(4)])

theorem no_deadlock_witness:
  "(\<exists>s'. system_step demo_env demo_config (begins (\<lambda>_. RefreshStart ''b1'') demo_world) 0 s') \<or>
   (\<exists>i m l. sys_tasks (begins (\<lambda>_. RefreshStart ''b1'') demo_world) 0 = RefreshWaits i m \<and>
      critical (sys_tasks (begins (\<lambda>_. RefreshStart ''b1'') demo_world) l) = Some (i, m) \<and>
      (\<exists>s'. system_step demo_env demo_config (begins (\<lambda>_. RefreshStart ''b1'') demo_world) l s'))"
  by (rule no_deadlock [OF _ _ schedule.stop])
    (simp_all add: locks_ok_def demo_world_def start_def begins_def)

text \<open>C26: Every request is answered: an interleaving of finitely many refreshes, disconnects and requests for
  access tokens, the rereads that end them included, makes at most seven moves per operation; and where no move is left, every task has
  finished, every request has its answer and every mutex is free.\<close>

theorem requests_end:
  assumes "finite K" and "\<forall>k. k \<notin> K \<longrightarrow> (\<exists>r. ts k = Finished r)" and "\<forall>k. start (ts k)" and "locks_ok w"
    and "use_run E C (asked_by ts) (begins ts w, \<lambda>_. None) ks ws (s, g)"
  shows "length ks \<le> 7 * card K \<and>
    ((\<exists>k u. use_step E C (asked_by ts) (s, g) k u) \<or>
     (\<forall>k. (\<exists>r. sys_tasks s k = Finished r) \<and> (\<forall>i. ts k = UseStart i \<longrightarrow> g k \<noteq> None)) \<and> (\<forall>m. sys_held s m = None))"
proof -
  let ?u0 = "(begins ts w, \<lambda>_ :: nat. None :: string result option)"
  have none: "\<forall>k. k \<notin> K \<longrightarrow> use_left (asked_by ts) ?u0 k = 0"
    using assms(2) by (auto simp: use_left_def begins_def asked_by_def)
  have "use_left (asked_by ts) ?u0 k \<le> 7" for k by (cases "ts k") (simp_all add: use_left_def begins_def asked_by_def)
  then have "(\<Sum>k \<in> K. use_left (asked_by ts) ?u0 k) \<le> (\<Sum>k \<in> K. 7)" by (intro sum_mono) simp
  with use_run_left [OF assms(5,1) none] have len: "length ks \<le> 7 * card K" by simp
  have mutex: "mutex_ok s" using use_run_mutex [OF assms(5)] mutex_ok_begins [OF assms(4,3)] by simp
  have "ts k = UseStart i \<Longrightarrow> asked_by ts k \<noteq> None" for k i by (simp add: asked_by_def)
  with use_stuck [OF mutex, of E C "asked_by ts" g] len show ?thesis by blast
qed

theorem requests_end_witness:
  "\<exists>u ws. use_run demo_env demo_config (asked_by (\<lambda>k. if k = 0 then UseStart ''a1'' else Finished (Inr ())))
     (begins (\<lambda>k. if k = 0 then UseStart ''a1'' else Finished (Inr ())) demo_world, \<lambda>_. None) [0] ws u \<and>
     snd u 0 = None \<and>
     (\<exists>k u'. use_step demo_env demo_config (asked_by (\<lambda>k. if k = 0 then UseStart ''a1'' else Finished (Inr ()))) u k u')"
proof -
  let ?ts = "\<lambda>k :: nat. if k = 0 then UseStart ''a1'' else Finished (Inr ())"
  have ts: "?ts 0 = UseStart ''a1''" by simp
  obtain u ws where run: "use_run demo_env demo_config (asked_by ?ts) (begins ?ts demo_world, \<lambda>_. None) [0] ws u"
    and none: "snd u 0 = None" using demo_use [of ?ts, OF ts] by blast
  obtain s g where u: "u = (s, g)" by force
  have st: "\<forall>k. start (?ts k)" and fin: "\<forall>k. k \<notin> {0} \<longrightarrow> (\<exists>r. ?ts k = Finished r)" and lk: "locks_ok demo_world"
    by (auto simp: start_def locks_ok_def demo_world_def)
  have "finite {0 :: nat}" by simp
  from requests_end [OF this fin st lk run [unfolded u]]
  have "(\<exists>k u'. use_step demo_env demo_config (asked_by ?ts) u k u') \<or> (\<forall>i. ?ts 0 = UseStart i \<longrightarrow> g 0 \<noteq> None)"
    unfolding u by blast
  moreover have "\<not> (\<forall>i. ?ts 0 = UseStart i \<longrightarrow> g 0 \<noteq> None)" using none ts u by simp
  ultimately have moves: "\<exists>k u'. use_step demo_env demo_config (asked_by ?ts) u k u'" by blast
  show ?thesis by (intro exI [of _ u] exI [of _ ws] conjI) (fact run none moves)+
qed

text \<open>C38: A refresh that waits for the provider while its account is disconnected stores the answer all the same: both
  operations report success, the account is marked disconnected, and it has a usable token again.\<close>

theorem disconnect_undone:
  assumes "store_ok E (encryption_key C) T w" and "idp_ok E T" and "healthy w" and "seals E"
    and "token_view E (encryption_key C) w (acc_id a) = Some cur" and "a \<in> set (account_rows w)"
    and "oauth_client E C = Inr cl" and "\<forall>n. \<exists>resp. idp E n (ExchangeRefresh cl (st_refresh cur)) = Inr resp"
    and "ts 0 = RefreshStart (acc_id a)" and "ts 1 = DisconnectStart a"
  shows "resurrects E C (begins ts w) (acc_id a)"
  by (rule refresh_resurrects [OF assms])

theorem disconnect_undone_witness:
  "resurrects demo_env demo_config
     (begins (\<lambda>k. if k = 0 then RefreshStart ''a1'' else DisconnectStart demo_account) demo_world) ''a1''"
proof -
  have i: "acc_id demo_account = ''a1''" by (simp add: demo_account_def demo_row_def)
  have a: "demo_account \<in> set (account_rows demo_world)"
    by (simp add: account_rows_def demo_world_def demo_db_def demo_account_def)
  have tok: "token_view demo_env demo_key demo_world (acc_id demo_account) = Some (demo_token ''ann'' (Some (10 ^ 13)))"
    unfolding i by (rule demo_view(1))
  have "resurrects demo_env demo_config
     (begins (\<lambda>k. if k = 0 then RefreshStart ''a1'' else DisconnectStart demo_account) demo_world) (acc_id demo_account)"
    by (rule disconnect_undone [OF demo_store demo_idp demo_healthy demo_seals tok a demo_client])
      (use demo_answers(1) i in auto)
  then show ?thesis unfolding i .
qed

text \<open>C39: A request for a cached access token notes its use by writing back the whole token it read, without the
  mutex: a refresh that completes in between is undone, so that the rotated refresh token is lost.\<close>

theorem rotation_lost:
  assumes "store_ok E (encryption_key C) T w" and "idp_ok E T" and "healthy w" and "seals E"
    and "token_view E (encryption_key C) w i = Some tok" and "\<forall>n. fresh_at E n tok"
    and "\<forall>n. case st_last_used tok of None \<Rightarrow> True | Some l \<Rightarrow> clock E n - l > USAGE_WRITE_INTERVAL"
    and "oauth_client E C = Inr cl"
    and "\<forall>n. \<exists>resp rt. idp E n (ExchangeRefresh cl (st_refresh tok)) = Inr resp \<and>
      tp_refresh resp = Some rt \<and> rt \<noteq> st_refresh tok"
    and "ts 0 = UseStart i" and "ts 1 = RefreshStart i"
  shows "loses_rotation E C (begins ts w) i tok"
  by (rule use_loses_rotation [OF assms])

theorem rotation_lost_witness:
  "loses_rotation demo_env demo_config
     (begins (\<lambda>k. if k = 0 then UseStart ''a1'' else RefreshStart ''a1'') demo_idle) ''a1'' demo_idle_token"
  by (rule rotation_lost [OF demo_idle_store demo_idp demo_idle_healthy demo_seals demo_idle_view _ _ demo_client])
    (use demo_idle_fresh demo_rotates in \<open>auto simp: demo_idle_token_def\<close>)

section \<open>Consent flows\<close>

text \<open>C27: A flow can be taken back as it was stored, verifier and tenant, within ten minutes; after that it has expired.\<close>

theorem flow_roundtrip:
  assumes "aead_ok E" and "rust_str v" and "healthy w" and "flow_view w s = None"
    and "flow_insert E K v t s w = Some w1" and "healthy w2" and "flow_view w2 s = flow_view w1 s"
  shows "if unix_time E (tick w2) - unix_time E (tick w) > 600
    then fst (flow_take E K s w2) = Inl Expired
    else fst (flow_take E K s w2) = Inr \<lparr>pf_verifier = v, pf_tenant = t, pf_created = unix_time E (tick w)\<rparr>"
  by (rule flow_life [OF assms])

theorem flow_roundtrip_witness:
  "\<exists>w1. flow_insert demo_env demo_key ''v'' ''acme'' ''s'' demo_world = Some w1 \<and>
     fst (flow_take demo_env demo_key ''s'' w1) = Inr \<lparr>pf_verifier = ''v'', pf_tenant = ''acme'', pf_created = 0\<rparr>"
proof -
  obtain w1 where run: "flow_insert demo_env demo_key ''v'' ''acme'' ''s'' demo_world = Some w1"
    and w1: "healthy w1" "tick w1 = 2"
    by (simp add: flow_insert_def unix_now_eq encrypt_def demo_env_def Let_def demo_world_def demo_db_def exec_sql_def
        healthy_def purge_flows_def insert_flow_def)
  have v: "rust_str ''v''" by (simp add: rust_str_def as_bytes_def byte_of_def)
  have new: "flow_view demo_world ''s'' = None" by (simp add: flow_view_def demo_world_def demo_db_def)
  have t: "unix_time demo_env (tick w1) = 2" "unix_time demo_env (tick demo_world) = 0"
    using w1 by (simp_all add: unix_time_def demo_clock demo_tick)
  from flow_roundtrip [OF demo_aead v demo_healthy new run w1(1) HOL.refl] run t show ?thesis by simp
qed

text \<open>C21: When the statement that stores a new flow fails, the failure is dropped: the consent URL is returned as if all
  were well, and the state it carries is unknown to the callback.\<close>

theorem begin_flow_drops_failure:
  assumes "oauth_client E C = Inr cl" and "seals E" and "\<not> poisoned (db w)"
    and "faults (db w) = None # Some m # fs" and "flow_view w (csrfs E (Suc (tick w))) = None"
  shows "\<exists>w'. begin_flow E C t w =
      Some (Inr (auth_link E cl SCOPES (fst (pkces E (tick w))) (csrfs E (Suc (tick w)))), w') \<and>
    flow_view w' (csrfs E (Suc (tick w))) = None"
  by (rule begin_flow_drops [OF assms])

theorem begin_flow_drops_failure_witness:
  "\<exists>url w'. begin_flow demo_env demo_config ''acme''
      (demo_world\<lparr>db := demo_db\<lparr>oauth_flows := [], faults := [None, Some ''disk full'']\<rparr>\<rparr>) = Some (Inr url, w') \<and>
    flow_view w' ''csrf'' = None"
proof -
  let ?w = "demo_world\<lparr>db := demo_db\<lparr>oauth_flows := [], faults := [None, Some ''disk full'']\<rparr>\<rparr>"
  have s: "csrfs demo_env (Suc (tick ?w)) = ''csrf''" by (simp add: demo_env_def)
  have "\<exists>w'. begin_flow demo_env demo_config ''acme'' ?w = Some (Inr (auth_link demo_env demo_client SCOPES
      (fst (pkces demo_env (tick ?w))) (csrfs demo_env (Suc (tick ?w)))), w') \<and>
    flow_view w' (csrfs demo_env (Suc (tick ?w))) = None"
    by (rule begin_flow_drops_failure [OF demo_client demo_seals]) (simp_all add: demo_db_def flow_view_def)
  with s show ?thesis by metis
qed

text \<open>C40: Consent for an account that was disconnected stores a token and reports it as active, but its row stays
  disconnected.\<close>

theorem reconnect_stays_disconnected:
  assumes "store_ok E (encryption_key C) T w" and "idp_ok E T"
    and "complete_flow E C (graph_resolve E C) code state w = (Inr a, w')"
    and "b \<in> set (account_rows w)" and "acc_id b = acc_id a" and "acc_status b = Disconnected"
  shows "acc_status a = Active \<and> token_view E (encryption_key C) w' (acc_id a) \<noteq> None \<and>
    b \<in> set (account_rows w') \<and> acc_status b = Disconnected"
proof -
  have "connects E C (graph_resolve E C) code state w a w'"
    by (rule graph_profile.complete_flow_result(5) [OF assms(1-3)]) simp
  then have "acc_status a = Active" "token_view E (encryption_key C) w' (acc_id a) \<noteq> None"
    by (auto simp: connects_def)
  with reconnect_keeps_rows [OF assms(1-5)] assms(4,6) show ?thesis by simp
qed

theorem reconnect_stays_disconnected_witness:
  "\<exists>a w'. complete_flow demo_env demo_config (graph_resolve demo_env demo_config) ''code'' ''csrf'' demo_gone = (Inr a, w') \<and>
     acc_status a = Active \<and> of_row demo_gone_row \<in> set (account_rows w') \<and> acc_status (of_row demo_gone_row) = Disconnected"
proof -
  obtain a w' where run: "complete_flow demo_env demo_config (graph_resolve demo_env demo_config) ''code'' ''csrf'' demo_gone = (Inr a, w')"
    and a: "acc_id a = ''c1''" using demo_reconnect by blast
  have b: "of_row demo_gone_row \<in> set (account_rows demo_gone)" "acc_id (of_row demo_gone_row) = acc_id a"
    "acc_status (of_row demo_gone_row) = Disconnected"
    using a by (simp_all add: account_rows_def demo_gone_accounts demo_gone_row_def demo_row_def parse_status_def)
  from reconnect_stays_disconnected [OF demo_gone_store demo_idp run b] run show ?thesis by blast
qed

section \<open>Background refresh\<close>

text \<open>C28: Refreshing all accounts reports every account that is not disconnected, once, in the order of the listing; a
  refresh that fails changes nothing and stops nobody; tokens of other accounts stay, and no token appears or goes.\<close>

theorem refresh_all_reports:
  assumes "store_ok E (encryption_key C) T w" and "idp_ok E T"
    and "refresh_all E C w = (outcomes, w')"
  shows "(\<exists>m. outcomes = [(dummy_account, Inl (Storage m))] \<and>
      token_view E (encryption_key C) w' = token_view E (encryption_key C) w) \<or>
    batch_report E (encryption_key C) w outcomes w'"
  by (rule refresh_all_report [OF assms])

theorem refresh_all_reports_witness:
  "\<exists>outcomes w'. refresh_all demo_env demo_config demo_world = (outcomes, w') \<and>
     ((\<exists>m. outcomes = [(dummy_account, Inl (Storage m))]) \<or> batch_report demo_env demo_key demo_world outcomes w')"
proof -
  obtain outcomes w' where run: "refresh_all demo_env demo_config demo_world = (outcomes, w')" by force
  from refresh_all_reports [OF demo_store demo_idp run] run show ?thesis by blast
qed

text \<open>C29: A background round renews idle accounts only, those whose token has not been used since the threshold,
  and counts exactly the accounts it renewed: each of them has the answer to a request made with the refresh
  token it had and is marked as used, and every other account has the token it had.\<close>

theorem refresh_stale_idle_only:
  assumes "store_ok E (encryption_key C) T w" and "idp_ok E T"
    and "now_minus_days E (clock E (tick w)) days = Some cutoff" and "T cutoff"
    and "refresh_stale E C days w = Some (k, w')"
  shows "\<exists>S. S \<subseteq> idle_accounts E (encryption_key C) cutoff w \<and> finite S \<and> k = card S \<and> renewed_in E C S w w'"
  by (rule refresh_stale_report [OF assms])

theorem refresh_stale_idle_only_witness:
  "\<exists>k w' S. refresh_stale demo_env demo_config 0 demo_idle = Some (k, w') \<and>
     S \<subseteq> {''a1''} \<and> k = card S \<and> renewed_in demo_env demo_config S demo_idle w'"
proof -
  note c = demo_threshold [of "tick demo_idle"]
  then have "refresh_stale demo_env demo_config 0 demo_idle \<noteq> None"
    by (simp add: refresh_stale_def utc_now_def)
  then obtain k w' where run: "refresh_stale demo_env demo_config 0 demo_idle = Some (k, w')" by force
  from refresh_stale_idle_only [OF demo_idle_store demo_idp c run] obtain S where
    "S \<subseteq> {''a1''}" "k = card S" "renewed_in demo_env demo_config S demo_idle w'"
    unfolding demo_idle_accounts by blast
  with run show ?thesis by blast
qed

section \<open>Requests to Graph and replies\<close>

text \<open>C20: What an API request makes the server send to Graph: listings ask for pages of at most 200 messages, with
  a search text that cannot leave its quotes; reading asks for the one message; only the send endpoint posts, and
  posts the message of the request; the other endpoints send nothing.\<close>

theorem api_traffic:
  assumes "store_ok E (encryption_key C) T w" and "idp_ok E T"
    and "run_endpoint X E C q ep t w = Some (resp, w')"
  shows "\<exists>es. wire w' = wire w @ es \<and> (\<forall>r \<in> set (graph_sent es). endpoint_request X q ep r)"
  using run_endpoint_sends [OF assms] by (simp add: sends_def)

theorem api_traffic_witness:
  "\<exists>resp w' es. run_endpoint demo_web demo_env demo_config (demo_request ''GET'' [''unified'', ''inbox''] ''key-a'')
       UnifiedInbox ''acme'' demo_world = Some (resp, w') \<and> wire w' = wire demo_world @ es \<and>
     (\<forall>r \<in> set (graph_sent es). page_request 200 r)"
proof -
  let ?q = "demo_request ''GET'' [''unified'', ''inbox''] ''key-a''"
  obtain resp w' where run: "run_endpoint demo_web demo_env demo_config ?q UnifiedInbox ''acme'' demo_world = Some (resp, w')"
    by (metis run_endpoint.simps(7) surj_pair)
  from api_traffic [OF demo_store demo_idp run] run show ?thesis by auto
qed

text \<open>C13: A tool call makes the server send to Graph only what the tool is for, in pages of at most 200, 50 and
  500 messages for listing, searching and the unified inbox.\<close>

theorem mcp_traffic:
  assumes "store_ok E (encryption_key C) T w" and "idp_ok E T"
    and "call_tool pretty E C call w = (outcome, w')"
  shows "\<exists>es. wire w' = wire w @ es \<and> (\<forall>r \<in> set (graph_sent es). tool_request call r)"
  using call_tool_sends [OF assms(1,2), of call pretty] assms(3) by (simp add: sends_def)

theorem mcp_traffic_witness:
  "\<exists>es. wire (snd (call_tool (\<lambda>j. Inr ''json'') demo_env demo_config (UnifiedInboxTool \<lparr>up_limit = Some 1000\<rparr>) demo_world)) =
     wire demo_world @ es \<and> (\<forall>r \<in> set (graph_sent es). page_request 500 r)"
  using mcp_traffic [OF demo_store demo_idp surjective_pairing, of "\<lambda>j. Inr ''json''" "UnifiedInboxTool \<lparr>up_limit = Some 1000\<rparr>"]
  by simp

text \<open>C35: A reply of a handler with status 500 says only "internal error", unless the configuration is at fault.\<close>

theorem internal_errors_hidden:
  assumes "serve_request X E C q w = Some (resp, w')" and "rp_status resp = 500"
    and "\<forall>r. rp_status r = 500 \<longrightarrow> wb_email_query X (hq_query q) \<noteq> Inl r \<and>
      wb_limit_query X (hq_query q) \<noteq> Inl r \<and> wb_send_body X q \<noteq> Inl r \<and> wb_fallback X q \<noteq> r"
  shows "resp = head_reply q \<lparr>rp_status = 500, rp_body = JsonBody (error_json ''internal error'')\<rparr> \<or>
    (\<exists>m. resp = head_reply q (error_reply (Config m)))"
  by (rule serve_request_500 [OF assms])

theorem internal_errors_hidden_witness:
  "\<exists>resp w'. serve_request demo_web demo_env demo_config (demo_request ''GET'' [''accounts''] ''key-a'')
      (demo_world\<lparr>db := demo_db\<lparr>poisoned := True\<rparr>\<rparr>) = Some (resp, w') \<and> rp_status resp = 500 \<and>
     (resp = \<lparr>rp_status = 500, rp_body = JsonBody (error_json ''internal error'')\<rparr> \<or> (\<exists>m. resp = error_reply (Config m)))"
proof -
  let ?q = "demo_request ''GET'' [''accounts''] ''key-a''" and ?w = "demo_world\<lparr>db := demo_db\<lparr>poisoned := True\<rparr>\<rparr>"
  have q: "hq_path ?q = [''accounts'']" "hq_method ?q = ''GET''" and h: "head_reply ?q r = r" for r
    by (simp_all add: demo_request_def head_reply_def)
  have "serve_request demo_web demo_env demo_config ?q ?w =
      map_option (apfst (head_reply ?q)) (run_endpoint demo_web demo_env demo_config ?q ListAccounts ''acme'' ?w)"
    using demo_tenants(1) q by (simp add: serve_request_def api_key_middleware_def protected_path_def verb_matches_def)
  then obtain resp w' where run: "serve_request demo_web demo_env demo_config ?q ?w = Some (resp, w')"
    and s: "rp_status resp = 500"
    by (simp add: h list_accounts_def account_list_def on_db_def with_lock_def respond_def error_reply_def demo_db_def)
  have "\<forall>r. rp_status r = 500 \<longrightarrow> wb_email_query demo_web (hq_query ?q) \<noteq> Inl r \<and>
      wb_limit_query demo_web (hq_query ?q) \<noteq> Inl r \<and> wb_send_body demo_web ?q \<noteq> Inl r \<and> wb_fallback demo_web ?q \<noteq> r"
    by (auto simp: demo_web_def status_only_def)
  from internal_errors_hidden [OF run s this] s run h show ?thesis by simp
qed

section \<open>Configuration and secrets\<close>

text \<open>C31: A configuration that is accepted is well formed: the key has 32 bytes, no setting is blank, the numbers are in
  the ranges of their types, and the API keys are distinct and, like their tenants, trimmed and free of separators.\<close>

theorem config_sound:
  assumes "from_env E vars = Inr C"
  shows "config_ok C"
  by (rule from_env_ok [OF assms])

theorem config_sound_witness:
  "\<exists>C. from_env demo_env [''CLIENT_ID'' \<mapsto> ''app'', ''CLIENT_SECRET'' \<mapsto> ''secret'',
      ''ENCRYPTION_KEY'' \<mapsto> to_hex (replicate 32 0xA7), ''API_KEYS'' \<mapsto> '' key-a = acme ,key-b''] = Inr C \<and> config_ok C"
proof -
  have key: "parse_key demo_env (to_hex (replicate 32 0xA7)) = Inr (replicate 32 0xA7)"
    by (rule parse_key_to_hex) simp
  have "trim ''app'' \<noteq> []" "trim ''secret'' \<noteq> []" by (simp_all add: trim_graphic graphic_def)
  moreover have "trim (to_hex (replicate 32 0xA7)) = to_hex (replicate 32 0xA7)"
    by (rule trim_graphic [OF to_hex_shape(2)])
  moreover have "to_hex (replicate 32 0xA7) \<noteq> []" using to_hex_shape(1) [of "replicate 32 0xA7"] by force
  ultimately obtain C where run: "from_env demo_env [''CLIENT_ID'' \<mapsto> ''app'', ''CLIENT_SECRET'' \<mapsto> ''secret'',
      ''ENCRYPTION_KEY'' \<mapsto> to_hex (replicate 32 0xA7), ''API_KEYS'' \<mapsto> '' key-a = acme ,key-b''] = Inr C"
    by (simp add: from_env_def env_var_def key)
  from config_sound [OF run] run show ?thesis by blast
qed

text \<open>C32: API_KEYS written as the documentation says, one entry per key, gives every key the tenant of its entry (the
  default tenant when none is named) and no other key any.\<close>

theorem api_keys_roundtrip:
  assumes "api_keys C = parse_api_keys (join '','' (map render_entry es))"
    and "es \<noteq> []" and "\<forall>e \<in> set es. clean_entry e" and "distinct (map fst es)"
  shows "(\<forall>(k, m) \<in> set es. resolve_tenant C (Some k) =
      Some (case m of Some t \<Rightarrow> if t = [] then default_tenant_id C else t | None \<Rightarrow> default_tenant_id C)) \<and>
    (\<forall>k. k \<notin> fst ` set es \<longrightarrow> resolve_tenant C (Some k) = None) \<and> resolve_tenant C None = None"
  by (rule resolve_tenant_rendered [OF assms])

theorem api_keys_roundtrip_witness:
  "resolve_tenant (demo_config\<lparr>api_keys := parse_api_keys ''k=acme,p''\<rparr>) (Some ''k'') = Some ''acme'' \<and>
   resolve_tenant (demo_config\<lparr>api_keys := parse_api_keys ''k=acme,p''\<rparr>) (Some ''p'') = Some ''default'' \<and>
   resolve_tenant (demo_config\<lparr>api_keys := parse_api_keys ''k=acme,p''\<rparr>) (Some ''x'') = None"
proof -
  let ?es = "[(''k'', Some ''acme''), (''p'', None)]"
  have j: "join '','' (map render_entry ?es) = ''k=acme,p''" by (simp add: render_entry_def)
  have "\<forall>e \<in> set ?es. clean_entry e" by (simp add: clean_entry_def graphic_def)
  from api_keys_roundtrip [of "demo_config\<lparr>api_keys := parse_api_keys ''k=acme,p''\<rparr>" ?es, OF _ _ this] j
  show ?thesis by (simp add: demo_config_def)
qed

text \<open>A key of 32 bytes written in hexadecimal is read back as it was, and whatever is accepted as a key has 32
  bytes.\<close>

theorem encryption_key_roundtrip:
  assumes "length key = 32"
  shows "parse_key E (to_hex key) = Inr key \<and> (\<forall>raw k. parse_key E raw = Inr k \<longrightarrow> length k = 32)"
  using parse_key_to_hex [OF assms] parse_key_length by blast

theorem encryption_key_roundtrip_witness: "parse_key demo_env (to_hex (replicate 32 0xA7)) = Inr (replicate 32 0xA7)"
  using encryption_key_roundtrip [of "replicate 32 0xA7" demo_env] by simp

text \<open>What is encrypted is read back under the same key; the blob is 28 bytes longer than the text, and blobs under
  different nonces differ, whatever they hold.\<close>

theorem secret_roundtrip:
  assumes "aead_ok E" and "encrypt E k p w = (Inr blob, w')"
  shows "decrypt E k blob = Inr p \<and> length blob = length p + 28 \<and>
    (\<forall>k2 p2 v blob2. nonces E (tick v) \<noteq> nonces E (tick w) \<and> fst (encrypt E k2 p2 v) = Inr blob2 \<longrightarrow> blob2 \<noteq> blob)"
proof -
  from assms(2) have b: "fst (encrypt E k p w) = Inr blob" by simp
  from decrypt_encrypt [OF assms(1) b] encrypt_length [OF assms(1) b] encrypt_distinct [OF assms(1) _ b] show ?thesis
    by metis
qed

theorem secret_roundtrip_witness:
  "\<exists>blob w'. encrypt demo_env demo_key (as_bytes ''top secret'') demo_world = (Inr blob, w') \<and>
     decrypt demo_env demo_key blob = Inr (as_bytes ''top secret'') \<and> length blob = 38"
proof -
  obtain blob w' where run: "encrypt demo_env demo_key (as_bytes ''top secret'') demo_world = (Inr blob, w')"
    by (simp add: encrypt_def demo_env_def Let_def)
  from secret_roundtrip [OF demo_aead run] run show ?thesis by (auto simp: as_bytes_def)
qed

section \<open>Pages and messages\<close>

text \<open>C34: The callback page is a fixed template around the escaped e-mail address or error text; the escaped text has no
  character that could open a tag or close an attribute, every ampersand in it starts an entity written by the
  escaping, and different texts stay different.\<close>

theorem callback_page_inert:
  "\<exists>ok_pre ok_post err_pre err_post.
     (\<forall>E C resolve p st w. fst (handle_callback E C resolve p st w) =
        (case fst (complete_callback E C resolve p w) of
           Inr a \<Rightarrow> \<lparr>hr_status = 200, hr_body = ok_pre @ escape_html (acc_email a) @ ok_post\<rparr>
         | Inl e \<Rightarrow> \<lparr>hr_status = 400, hr_body = err_pre @ escape_html (display e) @ err_post\<rparr>)) \<and>
     (\<forall>s. escape_html s = concat (map escape_char s) \<and>
        set (escape_html s) \<inter> {CHR ''<'', CHR ''>'', CHR 0x22} = {}) \<and>
     inj escape_html"
proof -
  obtain ok_pre ok_post where ok: "\<And>a. success_response a =
      \<lparr>hr_status = 200, hr_body = ok_pre @ escape_html (acc_email a) @ ok_post\<rparr>"
    using success_template by blast
  obtain err_pre err_post where err: "\<And>m. error_response m =
      \<lparr>hr_status = 400, hr_body = err_pre @ escape_html m @ err_post\<rparr>"
    using error_template by blast
  have page: "\<forall>E C resolve p st w. fst (handle_callback E C resolve p st w) =
      (case fst (complete_callback E C resolve p w) of
         Inr a \<Rightarrow> \<lparr>hr_status = 200, hr_body = ok_pre @ escape_html (acc_email a) @ ok_post\<rparr>
       | Inl e \<Rightarrow> \<lparr>hr_status = 400, hr_body = err_pre @ escape_html (display e) @ err_post\<rparr>)"
    by (simp add: handle_callback_def case_prod_unfold Let_def ok err split: sum.split)
  have escaped: "\<forall>s. escape_html s = concat (map escape_char s) \<and>
      set (escape_html s) \<inter> {CHR ''<'', CHR ''>'', CHR 0x22} = {}"
    by (intro allI conjI) (rule escape_html_map escape_html_safe)+
  have "inj escape_html" by (rule injI) (rule escape_html_inj)
  with page escaped show ?thesis by (intro exI conjI)
qed

text \<open>C33: A page of messages in the shape Graph documents is decoded to what its messages say when their members are looked
  up, in Graph's order, whatever other members they have and in whatever order, and whichever of the known
  ones are missing or null. Left out are exactly the messages without an id and those whose list of
  recipients or read flag is null.\<close>

theorem email_page_decoded:
  assumes "map_of ps ''value'' = Some (JArr vs)" and "\<forall>v \<in> set vs. message_shape v \<or> unreadable v"
  shows "messages_of (JObj ps) = map message_view (filter message_shape vs)"
  by (rule page_reads [OF assms])

theorem email_page_decoded_witness:
  "messages_of (JObj [(''@odata.context'', JStr ''c''), (''value'', JArr [
       JObj [(''@odata.etag'', JStr ''e''), (''isRead'', JBool True), (''subject'', JNull), (''id'', JStr ''m1''),
         (''toRecipients'', JArr [JObj [(''emailAddress'', JObj [(''address'', JStr ''ann'')])], JObj []])],
       JObj [(''id'', JStr ''m2''), (''toRecipients'', JNull)]])]) =
     [\<lparr>em_id = ''m1'', em_subject = None, em_from = None, em_to = [\<lparr>ea_name = None, ea_address = ''ann''\<rparr>],
       em_preview = None, em_body = None, em_received = None, em_read = True\<rparr>]"
proof -
  let ?v = "JObj [(''@odata.etag'', JStr ''e''), (''isRead'', JBool True), (''subject'', JNull), (''id'', JStr ''m1''),
         (''toRecipients'', JArr [JObj [(''emailAddress'', JObj [(''address'', JStr ''ann'')])], JObj []])]"
  let ?u = "JObj [(''id'', JStr ''m2''), (''toRecipients'', JNull)]"
  have v: "message_shape ?v" by (simp add: message_shape_def optional_def recipient_shape_def address_shape_def)
  have u: "unreadable ?u" by (simp add: unreadable_def)
  have "\<not> message_shape ?u" by (simp add: message_shape_def)
  moreover have "messages_of (JObj [(''@odata.context'', JStr ''c''), (''value'', JArr [?v, ?u])]) =
      map message_view (filter message_shape [?v, ?u])"
    by (rule email_page_decoded) (use u v in simp_all)
  moreover have "message_view ?v = \<lparr>em_id = ''m1'', em_subject = None, em_from = None,
      em_to = [\<lparr>ea_name = None, ea_address = ''ann''\<rparr>], em_preview = None, em_body = None, em_received = None, em_read = True\<rparr>"
    by (simp add: message_view_def address_view_def List.map_filter_def)
  ultimately show ?thesis using v by simp
qed

section \<open>Progress\<close>

text \<open>C23: A connected account can be refreshed whenever the database has no fault and the provider answers.\<close>

theorem refresh_progress:
  assumes "store_ok E (encryption_key C) T w" and "healthy w" and "seals E"
    and "token_view E (encryption_key C) w i = Some cur" and "oauth_client E C = Inr cl"
    and "\<forall>n. \<exists>resp. idp E n (ExchangeRefresh cl (st_refresh cur)) = Inr resp"
  shows "\<exists>w'. refresh_account E C i w = (Inr (), w') \<and> healthy w'"
  using refresh_account_healthy [OF assms(1-5)] assms(6) by blast

theorem refresh_progress_witness:
  "\<exists>w'. refresh_account demo_env demo_config ''b1'' demo_world = (Inr (), w') \<and> healthy w'"
  using refresh_progress [OF demo_store demo_healthy demo_seals demo_view(2) demo_client] demo_answers(1) by blast

text \<open>C24: A flow begun in time connects an account when the database has no fault and the provider and Graph answer: the
  existing account of the tenant with that address, or a new one.\<close>

theorem consent_progress:
  assumes "healthy w" and "seals E" and "flow_view w state = Some row"
    and "unix_time E (tick w) - fr_created row \<le> 600"
    and "decrypt E (encryption_key C) (fr_verifier row) = Inr (as_bytes v)" and "rust_str v"
    and "oauth_client E C = Inr cl"
    and "\<forall>n. \<exists>resp rt. idp E n (ExchangeCode cl code v) = Inr resp \<and> tp_refresh resp = Some rt"
    and "\<forall>s u. \<exists>ident u'. resolve s u = (Inr ident, u') \<and> db u' = db u"
    and "\<forall>n. uuids E n \<notin> ar_id ` set (accounts (db w))"
  shows "\<exists>a w' s u ident. complete_flow E C resolve code state w = (Inr a, w') \<and> healthy w' \<and>
    fst (resolve s u) = Inr ident \<and>
    (\<forall>q. List.find (\<lambda>q. ar_tenant q = fr_tenant row \<and> sql_lower (ar_email q) = sql_lower (id_email ident))
       (accounts (db w)) = Some q \<longrightarrow> acc_id a = ar_id q)"
proof -
  have "\<not> unix_time E (tick w) - fr_created row > FLOW_TTL_SECS" using assms(4) by (simp add: FLOW_TTL_SECS_def)
  then have "\<not> saturating_sub (unix_time E (tick w)) (fr_created row) > FLOW_TTL_SECS" by (simp only: saturating_old not_False_eq_True)
  from complete_flow_healthy [OF assms(1-3) this assms(5-7)] assms(8-10) show ?thesis by blast
qed

theorem consent_progress_witness:
  "\<exists>a w'. complete_flow demo_env demo_config (graph_resolve demo_env demo_config) ''code'' ''csrf'' demo_world = (Inr a, w') \<and>
     healthy w'"
proof -
  have v: "rust_str ''verifier''" by (simp add: rust_str_def as_bytes_def byte_of_def)
  let ?row = "\<lparr>fr_state = ''csrf'', fr_verifier = demo_blob ''verifier'', fr_tenant = ''bolt'', fr_created = 0\<rparr>"
  have "unix_time demo_env (tick demo_world) - fr_created ?row \<le> 600"
    by (simp add: unix_time_def demo_env_def demo_world_def)
  moreover have "decrypt demo_env (encryption_key demo_config) (fr_verifier ?row) = Inr (as_bytes ''verifier'')"
    by (simp add: demo_open)
  ultimately show ?thesis
    using consent_progress [where resolve = "graph_resolve demo_env demo_config" and code = "''code''", OF demo_healthy
        demo_seals demo_flow _ _ v demo_client] demo_answers(2) demo_identity demo_new_ids by blast
qed

text \<open>C36: Removing an account from the command line deletes the row and the token of one account of the tenant, the one
  with that id or address, and nothing else; when it fails, nothing is removed and nothing printed.\<close>

theorem remove_account_exact:
  assumes "store_ok E K T w" and "remove_account C x tenant w = ((r, out), w')"
  shows "case r of
      Inr u \<Rightarrow> removed E K (tenant_or_default C tenant) x w w'
    | Inl e \<Rightarrow> account_rows w' = account_rows w \<and> token_view E K w' = token_view E K w \<and> out = []"
  using remove_account_result [OF assms] by (cases r) auto

theorem remove_account_exact_witness:
  "\<exists>out w'. remove_account demo_config ''b1'' (Some ''bolt'') demo_world = ((Inr (), out), w') \<and>
     removed demo_env demo_key ''bolt'' ''b1'' demo_world w'"
proof -
  have "\<exists>out w'. remove_account demo_config ''b1'' (Some ''bolt'') demo_world = ((Inr (), out), w')"
    by (simp add: Let_def head_opt_def ok_or_def remove_account_def tenant_or_default_def lookup_either_def account_get_def account_delete_def
        query_accounts_def on_db_def with_lock_def run_sql_def exec_sql_def select_accounts_def delete_account_def
        demo_world_def demo_db_def demo_row_def)
  then obtain out w' where run: "remove_account demo_config ''b1'' (Some ''bolt'') demo_world = ((Inr (), out), w')" by blast
  from remove_account_exact [OF demo_store run] run show ?thesis by (simp add: tenant_or_default_def)
qed

text \<open>C30: While the database has no fault, the provider answers and the rest of the program leaves the store sound,
  the background loop runs round after round, and every round renews every account that is idle when it
  begins and no other, and counts them; each ends with a sleep of \<open>REFRESH_INTERVAL_SECS\<close>, but of a minute at least.\<close>

theorem refresh_loop_renews:
  assumes "store_ok E (encryption_key C) T w" and "idp_ok E T" and "healthy w" and "seals E"
    and "oauth_client E C = Inr cl" and "\<forall>n rt. \<exists>resp. idp E n (ExchangeRefresh cl rt) = Inr resp"
    and "\<forall>n. \<exists>cutoff. now_minus_days E (clock E n) (token_inactivity_days C) = Some cutoff \<and> T cutoff"
    and "\<forall>m d v. store_ok E (encryption_key C) T v \<and> healthy v \<longrightarrow>
      store_ok E (encryption_key C) T (asleep m d v) \<and> healthy (asleep m d v)"
  shows "\<exists>counts w'. refresh_loop E C asleep n w = Some (counts, w') \<and> length counts = n \<and>
    (\<forall>m < n. \<exists>v v'. refresh_loop E C asleep m w = Some (take m counts, v) \<and> round_renews E C (counts ! m) v v' \<and>
       refresh_loop E C asleep (Suc m) w =
         Some (take (Suc m) counts, asleep m (max (refresh_interval_secs C) 60) v'))"
  using refresh_loop_healthy [OF assms, of n] by blast

theorem refresh_loop_renews_witness:
  "\<exists>counts w'. refresh_loop demo_env demo_eager (\<lambda>m d v. tock v) 3 demo_idle = Some (counts, w') \<and>
     length counts = 3 \<and> counts ! 0 = 1"
proof -
  let ?sleep = "\<lambda>(m :: nat) (d :: nat) v. tock v"
  have ok: "store_ok demo_env (encryption_key demo_eager) demo_time demo_idle" unfolding demo_eager by (rule demo_idle_store)
  have answers: "\<forall>n rt. \<exists>resp. idp demo_env n (ExchangeRefresh demo_client rt) = Inr resp" using demo_answers(1) by blast
  have cut: "\<forall>n. \<exists>cutoff. now_minus_days demo_env (clock demo_env n) (token_inactivity_days demo_eager) = Some cutoff \<and> demo_time cutoff"
    unfolding demo_eager using demo_threshold by blast
  have rest: "\<forall>m d v. store_ok demo_env (encryption_key demo_eager) demo_time v \<and> healthy v \<longrightarrow>
      store_ok demo_env (encryption_key demo_eager) demo_time (?sleep m d v) \<and> healthy (?sleep m d v)"
    by (simp add: store_ok_def healthy_def)
  from refresh_loop_renews [OF ok demo_idp demo_idle_healthy demo_seals demo_eager(2) answers cut rest, of 3]
  obtain counts w' where run: "refresh_loop demo_env demo_eager ?sleep 3 demo_idle = Some (counts, w')" "length counts = 3"
    and rounds: "\<forall>m < 3. \<exists>v v'. refresh_loop demo_env demo_eager ?sleep m demo_idle = Some (take m counts, v) \<and>
       round_renews demo_env demo_eager (counts ! m) v v'" by blast
  from rounds [rule_format, of 0] obtain v' where "round_renews demo_env demo_eager (counts ! 0) demo_idle v'" by auto
  then have "counts ! 0 = 1" unfolding round_renews_def demo_eager(1) demo_idle_accounts by auto
  with run show ?thesis by blast
qed

end
